(* ===== verification/Prelude.thy ===== *)
theory Prelude
  imports Main "HOL-Library.Word" "HOL-Library.Char_ord"
begin

text \<open>
  Shared vocabulary of the development: Go's byte slices and fixed-width integers, the
  errors and panics of the program as values, the sequencing of fallible operations, the
  big-endian codec of \<^verbatim>\<open>encoding/binary\<close> and the buffer operations
  (\<^verbatim>\<open>make\<close>, slicing, \<^verbatim>\<open>copy\<close>) every serialiser of the program is written with.

  A Go \<^verbatim>\<open>string\<close> is a sequence of bytes, and so is \<open>string\<close> here (a list of 8-bit
  characters); \<^verbatim>\<open>int\<close> is 64 bits wide and every length the program adds up is far below
  that, so lengths and positions are \<open>nat\<close>. A nil slice and an empty one are both \<open>[]\<close>.
\<close>

unbundle bit_operations_syntax

text \<open>Offsets are sums of numerals and lengths; they stay sums.\<close>

declare add_2_eq_Suc [simp del] add_2_eq_Suc' [simp del]

section \<open>Types\<close>

type_synonym byte = "8 word"
type_synonym u16 = "16 word"
type_synonym u32 = "32 word"
type_synonym u64 = "64 word"

text \<open>
  The errors of the program. \<open>Panic\<close> is a run-time panic (a slice out of range);
  \<open>Errorf\<close> is an \<^verbatim>\<open>errors.New\<close> text, \<open>Wrapped\<close> an \<^verbatim>\<open>fmt.Errorf("...: %w", err)\<close>;
  \<open>OsError\<close> is an error of the operating system, with the text it gives.
\<close>

datatype go_error =
    Panic
  | Errorf string
  | Wrapped string go_error
  | EOF
  | UnexpectedEOF
  | OsError string
  | ErrRecordCorrupt
  | ErrOffsetNotFound
  | ErrTopicNotFound
  | ErrGroupNotFound
  | ErrLeaseNotFound

fun error_text :: "go_error \<Rightarrow> string" where
  "error_text Panic = ''panic''"
| "error_text (Errorf t) = t"
| "error_text (Wrapped t e) = t @ '': '' @ error_text e"
| "error_text EOF = ''EOF''"
| "error_text UnexpectedEOF = ''unexpected EOF''"
| "error_text (OsError t) = t"
| "error_text ErrRecordCorrupt = ''wal: record checksum mismatch, data corruption detected''"
| "error_text ErrOffsetNotFound = ''wal: offset not found''"
| "error_text ErrTopicNotFound = ''broker: topic not found''"
| "error_text ErrGroupNotFound = ''broker: consumer group not found''"
| "error_text ErrLeaseNotFound = ''broker: lease not found or already acknowledged''"

text \<open>\<^verbatim>\<open>errors.Is\<close>: the error itself or one it wraps.\<close>

fun errors_Is :: "go_error \<Rightarrow> go_error \<Rightarrow> bool" where
  "errors_Is (Wrapped t e) target = (Wrapped t e = target \<or> errors_Is e target)"
| "errors_Is e target = (e = target)"

type_synonym 'a result = "go_error + 'a"

section \<open>Sequencing fallible computations\<close>

named_theorems result_simps \<open>evaluation of sequenced results\<close>
named_theorems buf_simps \<open>evaluation of slices and buffers\<close>

definition rbind :: "'a result \<Rightarrow> ('a \<Rightarrow> 'b result) \<Rightarrow> 'b result" where
  "rbind m f = (case m of Inl e \<Rightarrow> Inl e | Inr a \<Rightarrow> f a)"

lemma rbind_Inl [simp, result_simps]: "rbind (Inl e) f = Inl e"
  by (simp add: rbind_def)

lemma rbind_Inr [simp, result_simps]: "rbind (Inr a) f = f a"
  by (simp add: rbind_def)

lemma rbind_eq_Inr: "rbind m f = Inr b \<longleftrightarrow> (\<exists>a. m = Inr a \<and> f a = Inr b)"
  by (cases m) auto

lemma rbind_eq_Inl: "rbind m f = Inl e \<longleftrightarrow> m = Inl e \<or> (\<exists>a. m = Inr a \<and> f a = Inl e)"
  by (cases m) auto

section \<open>Strings and bytes\<close>

definition bytes_of :: "string \<Rightarrow> byte list" where
  "bytes_of s = map of_char s"

definition string_of :: "byte list \<Rightarrow> string" where
  "string_of bs = map (\<lambda>b. char_of (unat b)) bs"

lemma length_bytes_of [simp]: "length (bytes_of s) = length s"
  by (simp add: bytes_of_def)

lemma length_string_of [simp]: "length (string_of bs) = length bs"
  by (simp add: string_of_def)

lemma char_of_unat_of_char [simp]: "char_of (unat (of_char c :: byte)) = c"
proof -
  have "unat (of_char c :: byte) = of_char c"
    by (subst of_nat_of_char [symmetric]) (simp only: unat_of_nat, simp)
  then show ?thesis by simp
qed

lemma of_char_char_of_unat [simp]: "of_char (char_of (unat b)) = (b :: byte)"
proof -
  have "unat b < 256" using unsigned_less [of b] by simp
  then have nat: "of_char (char_of (unat b)) = unat b" by simp
  have "of_char (char_of (unat b)) = (of_nat (of_char (char_of (unat b))) :: byte)"
    by (simp only: of_nat_of_char)
  also have "\<dots> = b" by (simp only: nat) simp
  finally show ?thesis .
qed

lemma string_of_bytes_of [simp]: "string_of (bytes_of s) = s"
  by (simp add: string_of_def bytes_of_def comp_def)

lemma bytes_of_string_of [simp]: "bytes_of (string_of bs) = bs"
  by (simp add: string_of_def bytes_of_def comp_def)

lemma bytes_of_append: "bytes_of (s @ t) = bytes_of s @ bytes_of t"
  by (simp add: bytes_of_def)

section \<open>Bounds of machine integers\<close>

lemma unat_u8_bound: "unat (w :: byte) < 256"
  using unsigned_less [where 'a = nat, of w] by simp

lemma unat_u16_bound: "unat (w :: u16) < 65536"
  using unsigned_less [where 'a = nat, of w] by simp

lemma unat_u32_bound: "unat (w :: u32) < 4294967296"
  using unsigned_less [where 'a = nat, of w] by simp

lemma unat_u64_bound: "unat (w :: u64) < 18446744073709551616"
  using unsigned_less [where 'a = nat, of w] by simp

lemmas word_bounds = unat_u8_bound unat_u16_bound unat_u32_bound unat_u64_bound

lemma unat_of_nat_u16 [buf_simps]: "n < 2 ^ 16 \<Longrightarrow> unat (of_nat n :: u16) = n"
  by (simp add: unat_of_nat take_bit_nat_eq_self)

lemma unat_of_nat_u32 [buf_simps]: "n < 2 ^ 32 \<Longrightarrow> unat (of_nat n :: u32) = n"
  by (simp add: unat_of_nat take_bit_nat_eq_self)

lemma unat_of_nat_u64: "n < 2 ^ 64 \<Longrightarrow> unat (of_nat n :: u64) = n"
  by (simp add: unat_of_nat take_bit_nat_eq_self)

lemma unat_u64_Suc: "w < v \<Longrightarrow> unat (w + 1) = unat w + 1" for w v :: u64
  using unat_u64_bound [of v] by (simp add: unat_word_ariths word_less_nat_alt)

section \<open>Big-endian integers\<close>

primrec be_bytes :: "nat \<Rightarrow> 'a::len word \<Rightarrow> byte list" where
  "be_bytes 0 w = []"
| "be_bytes (Suc n) w = ucast (drop_bit (8 * n) w) # be_bytes n w"

definition be_word :: "byte list \<Rightarrow> 'a::len word" where
  "be_word bs = foldl (\<lambda>a b. push_bit 8 a OR ucast b) 0 bs"

lemma length_be_bytes [simp]: "length (be_bytes n w) = n"
  by (induction n) simp_all

lemma foldl_be:
  "foldl (\<lambda>a b. push_bit 8 a OR ucast b) a bs
    = push_bit (8 * length bs) a OR foldl (\<lambda>a b. push_bit 8 a OR ucast b) (0 :: 'a::len word) bs"
proof (induction bs arbitrary: a)
  case Nil
  then show ?case by simp
next
  case (Cons b bs)
  show ?case
    by (subst (1 2) foldl_Cons, subst (1 2) Cons.IH)
      (simp add: push_bit_or add.commute or.assoc)
qed

lemma be_word_Nil [simp]: "be_word [] = 0"
  by (simp add: be_word_def)

lemma be_word_Cons:
  "be_word (b # bs) = (push_bit (8 * length bs) (ucast b) OR be_word bs :: 'a::len word)"
  unfolding be_word_def by (subst foldl_Cons, subst foldl_be) simp

lemma be_word_be_bytes_take: "be_word (be_bytes n w) = take_bit (8 * n) w"
proof (induction n)
  case 0
  then show ?case by simp
next
  case (Suc n)
  have "(push_bit (8 * n) (ucast (ucast (drop_bit (8 * n) w) :: byte)) OR take_bit (8 * n) w)
      = take_bit (8 * Suc n) w"
    by (rule bit_word_eqI) (auto simp: bit_simps)
  with Suc show ?case by (simp add: be_word_Cons)
qed

lemma be_word_be_bytes [simp]:
  fixes w :: "'a::len word"
  assumes "8 * n = LENGTH('a)"
  shows "be_word (be_bytes n w) = w"
  using assms by (simp add: be_word_be_bytes_take)

lemma bit_be_word_bound: "bit (be_word bs :: 'a::len word) i \<Longrightarrow> i < 8 * length bs"
proof (induction bs)
  case Nil
  then show ?case by simp
next
  case (Cons b bs)
  then show ?case by (auto simp: be_word_Cons bit_simps dest: bit_imp_le_length)
qed

lemma be_bytes_high: 
  fixes w v :: "'a::len word"
  assumes "8 * n \<le> k"
  shows "be_bytes n (push_bit k v OR w) = be_bytes n w"
  using assms
proof (induction n)
  case 0
  then show ?case by simp
next
  case (Suc n)
  have "(ucast (drop_bit (8 * n) (push_bit k v OR w)) :: byte) = ucast (drop_bit (8 * n) w)"
    using Suc.prems by (intro bit_word_eqI) (auto simp: bit_simps)
  with Suc show ?case by simp
qed

lemma be_bytes_be_word:
  assumes "8 * length bs \<le> LENGTH('a)"
  shows "be_bytes (length bs) (be_word bs :: 'a::len word) = bs"
  using assms
proof (induction bs)
  case Nil
  then show ?case by simp
next
  case (Cons b bs)
  have "(ucast (drop_bit (8 * length bs)
      (push_bit (8 * length bs) (ucast b) OR be_word bs :: 'a word)) :: byte) = b"
    using Cons.prems
    by (intro bit_word_eqI) (auto simp: bit_simps dest: bit_be_word_bound)
  with Cons show ?case by (simp add: be_word_Cons be_bytes_high)
qed

lemma be_word_inj:
  fixes bs cs :: "byte list"
  assumes "8 * length bs \<le> LENGTH('a)" and "length bs = length cs"
    and "be_word bs = (be_word cs :: 'a::len word)"
  shows "bs = cs"
proof -
  have "bs = be_bytes (length bs) (be_word bs :: 'a word)"
    using assms(1) by (rule be_bytes_be_word [symmetric])
  also have "\<dots> = be_bytes (length cs) (be_word cs :: 'a word)"
    by (simp only: assms(2,3))
  also have "\<dots> = cs"
    using assms(1,2) by (intro be_bytes_be_word) simp
  finally show ?thesis .
qed

section \<open>Slices and buffers\<close>

text \<open>
  \<^verbatim>\<open>b[i:j]\<close> panics unless \<open>i \<le> j \<le> len(b)\<close>. (Go checks the upper bound against the
  capacity; the slices the program cuts up are fresh ones, whose capacity is their length.)
  \<^verbatim>\<open>binary.BigEndian.UintN\<close> panics when the slice has fewer than N/8 bytes and ignores
  the bytes after them.
\<close>

definition slice :: "byte list \<Rightarrow> nat \<Rightarrow> nat \<Rightarrow> byte list result" where
  "slice b i j = (if i \<le> j \<and> j \<le> length b then Inr (take (j - i) (drop i b)) else Inl Panic)"

definition go_uint :: "nat \<Rightarrow> byte list \<Rightarrow> 'a::len word result" where
  "go_uint n b = (if n \<le> length b then Inr (be_word (take n b)) else Inl Panic)"

definition Uint16 :: "byte list \<Rightarrow> u16 result" where "Uint16 = go_uint 2"
definition Uint32 :: "byte list \<Rightarrow> u32 result" where "Uint32 = go_uint 4"
definition Uint64 :: "byte list \<Rightarrow> u64 result" where "Uint64 = go_uint 8"

text \<open>\<^verbatim>\<open>binary.BigEndian.UintN(b[i:j])\<close>, the shape of every read of the program.\<close>

definition read16 :: "byte list \<Rightarrow> nat \<Rightarrow> nat \<Rightarrow> u16 result" where
  "read16 b i j = rbind (slice b i j) Uint16"

definition read32 :: "byte list \<Rightarrow> nat \<Rightarrow> nat \<Rightarrow> u32 result" where
  "read32 b i j = rbind (slice b i j) Uint32"

definition read64 :: "byte list \<Rightarrow> nat \<Rightarrow> nat \<Rightarrow> u64 result" where
  "read64 b i j = rbind (slice b i j) Uint64"

text \<open>
  Writing: \<^verbatim>\<open>make([]byte, n)\<close> is \<open>n\<close> zero bytes; \<^verbatim>\<open>copy(b[i:j], src)\<close> overwrites the
  first \<open>min (j - i) (len src)\<close> bytes of the slice; \<^verbatim>\<open>PutUintN(b[i:j], v)\<close> panics when the
  slice is shorter than the integer.
\<close>

definition make_bytes :: "nat \<Rightarrow> byte list" where
  "make_bytes n = replicate n 0"

definition copy_into :: "byte list \<Rightarrow> nat \<Rightarrow> nat \<Rightarrow> byte list \<Rightarrow> byte list result" where
  "copy_into b i j src =
     (if i \<le> j \<and> j \<le> length b
      then (let k = min (j - i) (length src) in Inr (take i b @ take k src @ drop (i + k) b))
      else Inl Panic)"

definition put_uint :: "nat \<Rightarrow> byte list \<Rightarrow> nat \<Rightarrow> nat \<Rightarrow> 'a::len word \<Rightarrow> byte list result" where
  "put_uint n b i j v =
     (if i \<le> j \<and> j \<le> length b \<and> n \<le> j - i then copy_into b i j (be_bytes n v) else Inl Panic)"

definition put16 :: "byte list \<Rightarrow> nat \<Rightarrow> nat \<Rightarrow> u16 \<Rightarrow> byte list result" where "put16 = put_uint 2"
definition put32 :: "byte list \<Rightarrow> nat \<Rightarrow> nat \<Rightarrow> u32 \<Rightarrow> byte list result" where "put32 = put_uint 4"
definition put64 :: "byte list \<Rightarrow> nat \<Rightarrow> nat \<Rightarrow> u64 \<Rightarrow> byte list result" where "put64 = put_uint 8"

text \<open>\<^verbatim>\<open>b[i] = v\<close>: out of range panics.\<close>

definition set_byte :: "byte list \<Rightarrow> nat \<Rightarrow> byte \<Rightarrow> byte list result" where
  "set_byte b i v = (if i < length b then Inr (b[i := v]) else Inl Panic)"

subsection \<open>Filling a buffer from the left\<close>

text \<open>
  Every serialiser fills a fresh buffer from left to right. \<open>wbuf n w\<close> is such a buffer:
  \<open>w\<close> written, zero bytes up to the length \<open>n\<close>. The rules below compute a whole
  serialiser into the concatenation of what it wrote.
\<close>

definition wbuf :: "nat \<Rightarrow> byte list \<Rightarrow> byte list" where
  "wbuf n w = w @ replicate (n - length w) 0"

lemma make_bytes_wbuf [buf_simps]: "make_bytes n = wbuf n []"
  by (simp add: make_bytes_def wbuf_def)

lemma wbuf_full [buf_simps]: "n = length w \<Longrightarrow> wbuf n w = w"
  by (simp add: wbuf_def)

lemma length_wbuf [simp]: "length w \<le> n \<Longrightarrow> length (wbuf n w) = n"
  by (simp add: wbuf_def)

lemma copy_wbuf [buf_simps]:
  assumes "i = length w" and "j = i + length src" and "j \<le> n"
  shows "copy_into (wbuf n w) i j src = Inr (wbuf n (w @ src))"
proof -
  have "drop (i + length src) (wbuf n w) = replicate (n - length w - length src) 0"
    using assms by (simp add: wbuf_def)
  moreover have "take i (wbuf n w) = w" using assms by (simp add: wbuf_def)
  ultimately show ?thesis using assms by (simp add: copy_into_def wbuf_def)
qed

lemma put_uint_wbuf:
  assumes "i = length w" and "j = i + k" and "j \<le> n"
  shows "put_uint k (wbuf n w) i j v = Inr (wbuf n (w @ be_bytes k v))"
  using assms by (simp add: put_uint_def copy_wbuf)

lemma put16_wbuf [buf_simps]:
  "i = length w \<Longrightarrow> j = i + 2 \<Longrightarrow> j \<le> n \<Longrightarrow> put16 (wbuf n w) i j v = Inr (wbuf n (w @ be_bytes 2 v))"
  unfolding put16_def by (rule put_uint_wbuf)

lemma put32_wbuf [buf_simps]:
  "i = length w \<Longrightarrow> j = i + 4 \<Longrightarrow> j \<le> n \<Longrightarrow> put32 (wbuf n w) i j v = Inr (wbuf n (w @ be_bytes 4 v))"
  unfolding put32_def by (rule put_uint_wbuf)

lemma put64_wbuf [buf_simps]:
  "i = length w \<Longrightarrow> j = i + 8 \<Longrightarrow> j \<le> n \<Longrightarrow> put64 (wbuf n w) i j v = Inr (wbuf n (w @ be_bytes 8 v))"
  unfolding put64_def by (rule put_uint_wbuf)

lemma set_byte_wbuf [buf_simps]:
  "i = length w \<Longrightarrow> i < n \<Longrightarrow> set_byte (wbuf n w) i v = Inr (wbuf n (w @ [v]))"
  by (cases "n - length w") (auto simp: set_byte_def wbuf_def list_update_append)

subsection \<open>Reading a buffer\<close>

text \<open>
  A read past a known prefix is a read of the rest, and a read of exactly the first piece
  gives that piece: two rules that compute every parser on a concatenation of fields.
\<close>

lemma slice_skip [buf_simps]:
  "length a \<le> i \<Longrightarrow> length a \<le> j \<Longrightarrow> slice (a @ b) i j = slice b (i - length a) (j - length a)"
  by (auto simp: slice_def)

lemma slice_hit [buf_simps]: "j = length a \<Longrightarrow> slice (a @ b) 0 j = Inr a"
  by (simp add: slice_def)

lemma slice_all [buf_simps]: "j = length a \<Longrightarrow> slice a 0 j = Inr a"
  by (simp add: slice_def)

lemma slice_ok: "i \<le> j \<Longrightarrow> j \<le> length b \<Longrightarrow> slice b i j = Inr (take (j - i) (drop i b))"
  by (simp add: slice_def)

lemma Uint16_be [buf_simps]: "Uint16 (be_bytes 2 v) = Inr v"
  by (simp add: Uint16_def go_uint_def)

lemma Uint32_be [buf_simps]: "Uint32 (be_bytes 4 v) = Inr v"
  by (simp add: Uint32_def go_uint_def)

lemma Uint64_be [buf_simps]: "Uint64 (be_bytes 8 v) = Inr v"
  by (simp add: Uint64_def go_uint_def)

lemma read16_ok: "i + 2 \<le> length b \<Longrightarrow> read16 b i (i + 2) = Inr (be_word (take 2 (drop i b)))"
  by (simp add: read16_def slice_def Uint16_def go_uint_def)

lemma read32_ok: "i + 4 \<le> length b \<Longrightarrow> read32 b i (i + 4) = Inr (be_word (take 4 (drop i b)))"
  by (simp add: read32_def slice_def Uint32_def go_uint_def)

lemma read64_ok: "i + 8 \<le> length b \<Longrightarrow> read64 b i (i + 8) = Inr (be_word (take 8 (drop i b)))"
  by (simp add: read64_def slice_def Uint64_def go_uint_def)

lemma read16_skip [buf_simps]:
  "length a \<le> i \<Longrightarrow> length a \<le> j \<Longrightarrow> read16 (a @ b) i j = read16 b (i - length a) (j - length a)"
  by (simp add: read16_def slice_skip)

lemma read32_skip [buf_simps]:
  "length a \<le> i \<Longrightarrow> length a \<le> j \<Longrightarrow> read32 (a @ b) i j = read32 b (i - length a) (j - length a)"
  by (simp add: read32_def slice_skip)

lemma read64_skip [buf_simps]:
  "length a \<le> i \<Longrightarrow> length a \<le> j \<Longrightarrow> read64 (a @ b) i j = read64 b (i - length a) (j - length a)"
  by (simp add: read64_def slice_skip)

lemma read16_hit [buf_simps]: "j = 2 \<Longrightarrow> read16 (be_bytes 2 v @ b) 0 j = Inr v"
  by (simp add: read16_def slice_hit Uint16_be)

lemma read32_hit [buf_simps]: "j = 4 \<Longrightarrow> read32 (be_bytes 4 v @ b) 0 j = Inr v"
  by (simp add: read32_def slice_hit Uint32_be)

lemma read64_hit [buf_simps]: "j = 8 \<Longrightarrow> read64 (be_bytes 8 v @ b) 0 j = Inr v"
  by (simp add: read64_def slice_hit Uint64_be)

lemma read64_all [buf_simps]: "j = 8 \<Longrightarrow> read64 (be_bytes 8 v) 0 j = Inr v"
  by (simp add: read64_def slice_all Uint64_be)

lemma read32_all [buf_simps]: "j = 4 \<Longrightarrow> read32 (be_bytes 4 v) 0 j = Inr v"
  by (simp add: read32_def slice_all Uint32_be)

end
