(* ===== verification/Protocol.thy ===== *)
theory Protocol
  imports Prelude
begin

text \<open>
  The wire protocol, \<^verbatim>\<open>pkg/protocol/protocol.go\<close>: the frame types and error codes, the
  9-byte frame header and its reader and writer, and the nine message bodies with their
  \<^verbatim>\<open>Marshal\<close> methods and \<^verbatim>\<open>Unmarshal\<close> functions, written with the slicing and buffer
  operations of the source. Every body is an interpretation of the locale \<open>codec\<close>.
\<close>

section \<open>Constants\<close>

definition TypeReqPing :: byte where "TypeReqPing = 0x01"
definition TypeReqProduce :: byte where "TypeReqProduce = 0x02"
definition TypeReqFetch :: byte where "TypeReqFetch = 0x03"
definition TypeReqAck :: byte where "TypeReqAck = 0x04"
definition TypeReqNack :: byte where "TypeReqNack = 0x05"
definition TypeReqCreateTopic :: byte where "TypeReqCreateTopic = 0x06"
definition TypeReqListTopics :: byte where "TypeReqListTopics = 0x07"

definition TypeRespPong :: byte where "TypeRespPong = 0x81"
definition TypeRespProduce :: byte where "TypeRespProduce = 0x82"
definition TypeRespFetch :: byte where "TypeRespFetch = 0x83"
definition TypeRespAck :: byte where "TypeRespAck = 0x84"
definition TypeRespNack :: byte where "TypeRespNack = 0x85"
definition TypeRespCreateTopic :: byte where "TypeRespCreateTopic = 0x86"
definition TypeRespListTopics :: byte where "TypeRespListTopics = 0x87"
definition TypeRespError :: byte where "TypeRespError = 0xFF"

lemmas frame_type_defs =
  TypeReqPing_def TypeReqProduce_def TypeReqFetch_def TypeReqAck_def TypeReqNack_def
  TypeReqCreateTopic_def TypeReqListTopics_def
  TypeRespPong_def TypeRespProduce_def TypeRespFetch_def TypeRespAck_def TypeRespNack_def
  TypeRespCreateTopic_def TypeRespListTopics_def TypeRespError_def

definition ErrCodeUnknown :: u16 where "ErrCodeUnknown = 1000"
definition ErrCodeTopicNotFound :: u16 where "ErrCodeTopicNotFound = 1001"
definition ErrCodeTopicExists :: u16 where "ErrCodeTopicExists = 1002"
definition ErrCodeInvalidPayload :: u16 where "ErrCodeInvalidPayload = 1003"
definition ErrCodeInternalError :: u16 where "ErrCodeInternalError = 1004"
definition ErrCodeLeaseExpired :: u16 where "ErrCodeLeaseExpired = 1005"

section \<open>Messages\<close>

record ProduceRequest =
  pr_Topic :: string
  pr_Key :: "byte list"
  pr_Value :: "byte list"

record ProduceResponse =
  prs_Offset :: u64

record FetchRequest =
  fq_Topic :: string
  fq_Group :: string
  fq_ConsumerID :: string
  fq_MaxMessages :: u32
  fq_AckTimeoutMs :: u32
  fq_LongPollTimeoutMs :: u32

text \<open>\<^verbatim>\<open>Timestamp int64\<close> is kept as its 64 bits; \<^verbatim>\<open>int64\<close> and \<^verbatim>\<open>uint64\<close> only reread them.\<close>

record Message =
  m_Offset :: u64
  m_Timestamp :: u64
  m_Key :: "byte list"
  m_Value :: "byte list"

record FetchResponse =
  fr_Messages :: "Message list"

record AckRequest =
  ar_Topic :: string
  ar_Group :: string
  ar_Offset :: u64

record NackRequest =
  nr_Topic :: string
  nr_Group :: string
  nr_Offset :: u64

record CreateTopicRequest =
  ct_Topic :: string

record ErrorResponse =
  er_Code :: u16
  er_Message :: string

record ListTopicsResponse =
  lt_Topics :: "string list"

section \<open>Frames\<close>

record Frame =
  f_Type :: byte
  f_ReqID :: u32
  f_Length :: u32
  f_Body :: "byte list"

text \<open>
  \<^verbatim>\<open>io.ReadFull\<close> on a connection: the bytes still to come are a list, after which the peer
  has closed. Nothing read is \<open>EOF\<close>, a part is \<open>UnexpectedEOF\<close> (and is consumed); an empty
  buffer is filled without reading.
\<close>

definition ReadFull :: "nat \<Rightarrow> byte list \<Rightarrow> byte list result \<times> byte list" where
  "ReadFull n r =
     (if n \<le> length r then (Inr (take n r), drop n r)
      else if r = [] then (Inl EOF, [])
      else (Inl UnexpectedEOF, []))"

definition ReadFrame :: "byte list \<Rightarrow> Frame result \<times> byte list" where
  "ReadFrame r =
     (case ReadFull 9 r of
        (Inl e, r) \<Rightarrow> (Inl e, r)
      | (Inr header, r) \<Rightarrow>
          (case rbind (read32 header 1 5) (\<lambda>reqID. rbind (read32 header 5 9) (\<lambda>len.
                  Inr \<lparr>f_Type = header ! 0, f_ReqID = reqID, f_Length = len, f_Body = []\<rparr>)) of
             Inl e \<Rightarrow> (Inl e, r)
           | Inr f \<Rightarrow>
               if 0 < f_Length f
               then (case ReadFull (unat (f_Length f)) r of
                       (Inl e, r) \<Rightarrow> (Inl e, r)
                     | (Inr body, r) \<Rightarrow> (Inr (f\<lparr>f_Body := body\<rparr>), r))
               else (Inr f, r)))"

text \<open>
  The writing side of a connection: what was written, and how many more bytes it takes
  before a write fails (\<open>None\<close>: it never does).
\<close>

record Writer =
  w_out :: "byte list"
  w_room :: "nat option"

definition conn_write :: "Writer \<Rightarrow> byte list \<Rightarrow> unit result \<times> Writer" where
  "conn_write w bs =
     (case w_room w of
        None \<Rightarrow> (Inr (), w\<lparr>w_out := w_out w @ bs\<rparr>)
      | Some n \<Rightarrow>
          if length bs \<le> n then (Inr (), w\<lparr>w_out := w_out w @ bs, w_room := Some (n - length bs)\<rparr>)
          else (Inl (OsError ''write: broken pipe''), w\<lparr>w_out := w_out w @ take n bs, w_room := Some 0\<rparr>))"

definition frame_header :: "Frame \<Rightarrow> byte list result" where
  "frame_header f =
     rbind (set_byte (make_bytes 9) 0 (f_Type f)) (\<lambda>header.
     rbind (put32 header 1 5 (f_ReqID f)) (\<lambda>header.
     put32 header 5 9 (of_nat (length (f_Body f)))))"

definition WriteFrame :: "Writer \<Rightarrow> Frame \<Rightarrow> unit result \<times> Writer" where
  "WriteFrame w f =
     (case frame_header f of
        Inl e \<Rightarrow> (Inl e, w)
      | Inr header \<Rightarrow>
          (case conn_write w header of
             (Inl e, w) \<Rightarrow> (Inl e, w)
           | (Inr _, w) \<Rightarrow>
               if 0 < length (f_Body f) then conn_write w (f_Body f) else (Inr (), w)))"

section \<open>Bodies: Marshal\<close>

definition Marshal_ProduceRequest :: "ProduceRequest \<Rightarrow> byte list result" where
  "Marshal_ProduceRequest r =
     (let topicBytes = bytes_of (pr_Topic r);
          buf = make_bytes (2 + length topicBytes + 4 + length (pr_Key r) + 4 + length (pr_Value r))
      in rbind (put16 buf 0 2 (of_nat (length topicBytes))) (\<lambda>buf.
         rbind (copy_into buf 2 (2 + length topicBytes) topicBytes) (\<lambda>buf.
         let idx = 2 + length topicBytes in
         rbind (put32 buf idx (idx + 4) (of_nat (length (pr_Key r)))) (\<lambda>buf.
         rbind (copy_into buf (idx + 4) (idx + 4 + length (pr_Key r)) (pr_Key r)) (\<lambda>buf.
         let idx = idx + 4 + length (pr_Key r) in
         rbind (put32 buf idx (idx + 4) (of_nat (length (pr_Value r)))) (\<lambda>buf.
         copy_into buf (idx + 4) (idx + 4 + length (pr_Value r)) (pr_Value r)))))))"

definition Marshal_ProduceResponse :: "ProduceResponse \<Rightarrow> byte list result" where
  "Marshal_ProduceResponse r = put64 (make_bytes 8) 0 8 (prs_Offset r)"

definition Marshal_FetchRequest :: "FetchRequest \<Rightarrow> byte list result" where
  "Marshal_FetchRequest r =
     (let topicBytes = bytes_of (fq_Topic r);
          groupBytes = bytes_of (fq_Group r);
          consumerBytes = bytes_of (fq_ConsumerID r);
          buf = make_bytes (2 + length topicBytes + 2 + length groupBytes + 2 + length consumerBytes
                            + 4 + 4 + 4)
      in rbind (put16 buf 0 2 (of_nat (length topicBytes))) (\<lambda>buf.
         rbind (copy_into buf 2 (2 + length topicBytes) topicBytes) (\<lambda>buf.
         let idx = 2 + length topicBytes in
         rbind (put16 buf idx (idx + 2) (of_nat (length groupBytes))) (\<lambda>buf.
         rbind (copy_into buf (idx + 2) (idx + 2 + length groupBytes) groupBytes) (\<lambda>buf.
         let idx = idx + 2 + length groupBytes in
         rbind (put16 buf idx (idx + 2) (of_nat (length consumerBytes))) (\<lambda>buf.
         rbind (copy_into buf (idx + 2) (idx + 2 + length consumerBytes) consumerBytes) (\<lambda>buf.
         let idx = idx + 2 + length consumerBytes in
         rbind (put32 buf idx (idx + 4) (fq_MaxMessages r)) (\<lambda>buf.
         rbind (put32 buf (idx + 4) (idx + 8) (fq_AckTimeoutMs r)) (\<lambda>buf.
         put32 buf (idx + 8) (idx + 12) (fq_LongPollTimeoutMs r))))))))))"

text \<open>The loop of \<^verbatim>\<open>FetchResponse.Marshal\<close>, from the write index on.\<close>

fun marshal_messages :: "byte list \<Rightarrow> nat \<Rightarrow> Message list \<Rightarrow> byte list result" where
  "marshal_messages buf idx [] = Inr buf"
| "marshal_messages buf idx (m # ms) =
     rbind (put64 buf idx (idx + 8) (m_Offset m)) (\<lambda>buf.
     rbind (put64 buf (idx + 8) (idx + 16) (m_Timestamp m)) (\<lambda>buf.
     rbind (put32 buf (idx + 16) (idx + 20) (of_nat (length (m_Key m)))) (\<lambda>buf.
     rbind (copy_into buf (idx + 20) (idx + 20 + length (m_Key m)) (m_Key m)) (\<lambda>buf.
     let idx = idx + 20 + length (m_Key m) in
     rbind (put32 buf idx (idx + 4) (of_nat (length (m_Value m)))) (\<lambda>buf.
     rbind (copy_into buf (idx + 4) (idx + 4 + length (m_Value m)) (m_Value m)) (\<lambda>buf.
     let idx = idx + 4 + length (m_Value m) in
     marshal_messages buf idx ms))))))"

definition Marshal_FetchResponse :: "FetchResponse \<Rightarrow> byte list result" where
  "Marshal_FetchResponse r =
     (let totalSize =
            foldl (\<lambda>t m. t + (8 + 8 + 4 + length (m_Key m) + 4 + length (m_Value m))) 4 (fr_Messages r);
          buf = make_bytes totalSize
      in rbind (put32 buf 0 4 (of_nat (length (fr_Messages r)))) (\<lambda>buf.
         marshal_messages buf 4 (fr_Messages r)))"

definition Marshal_AckRequest :: "AckRequest \<Rightarrow> byte list result" where
  "Marshal_AckRequest r =
     (let topicBytes = bytes_of (ar_Topic r);
          groupBytes = bytes_of (ar_Group r);
          buf = make_bytes (2 + length topicBytes + 2 + length groupBytes + 8)
      in rbind (put16 buf 0 2 (of_nat (length topicBytes))) (\<lambda>buf.
         rbind (copy_into buf 2 (2 + length topicBytes) topicBytes) (\<lambda>buf.
         let idx = 2 + length topicBytes in
         rbind (put16 buf idx (idx + 2) (of_nat (length groupBytes))) (\<lambda>buf.
         rbind (copy_into buf (idx + 2) (idx + 2 + length groupBytes) groupBytes) (\<lambda>buf.
         let idx = idx + 2 + length groupBytes in
         put64 buf idx (idx + 8) (ar_Offset r))))))"

definition Marshal_NackRequest :: "NackRequest \<Rightarrow> byte list result" where
  "Marshal_NackRequest r =
     (let topicBytes = bytes_of (nr_Topic r);
          groupBytes = bytes_of (nr_Group r);
          buf = make_bytes (2 + length topicBytes + 2 + length groupBytes + 8)
      in rbind (put16 buf 0 2 (of_nat (length topicBytes))) (\<lambda>buf.
         rbind (copy_into buf 2 (2 + length topicBytes) topicBytes) (\<lambda>buf.
         let idx = 2 + length topicBytes in
         rbind (put16 buf idx (idx + 2) (of_nat (length groupBytes))) (\<lambda>buf.
         rbind (copy_into buf (idx + 2) (idx + 2 + length groupBytes) groupBytes) (\<lambda>buf.
         let idx = idx + 2 + length groupBytes in
         put64 buf idx (idx + 8) (nr_Offset r))))))"

definition Marshal_CreateTopicRequest :: "CreateTopicRequest \<Rightarrow> byte list result" where
  "Marshal_CreateTopicRequest r =
     (let topicBytes = bytes_of (ct_Topic r);
          buf = make_bytes (2 + length topicBytes)
      in rbind (put16 buf 0 2 (of_nat (length topicBytes))) (\<lambda>buf.
         copy_into buf 2 (length buf) topicBytes))"

definition Marshal_ErrorResponse :: "ErrorResponse \<Rightarrow> byte list result" where
  "Marshal_ErrorResponse r =
     (let msgBytes = bytes_of (er_Message r);
          buf = make_bytes (2 + 2 + length msgBytes)
      in rbind (put16 buf 0 2 (er_Code r)) (\<lambda>buf.
         rbind (put16 buf 2 4 (of_nat (length msgBytes))) (\<lambda>buf.
         copy_into buf 4 (length buf) msgBytes)))"

fun marshal_topics :: "byte list \<Rightarrow> nat \<Rightarrow> string list \<Rightarrow> byte list result" where
  "marshal_topics buf idx [] = Inr buf"
| "marshal_topics buf idx (t # ts) =
     (let tb = bytes_of t in
      rbind (put16 buf idx (idx + 2) (of_nat (length tb))) (\<lambda>buf.
      rbind (copy_into buf (idx + 2) (idx + 2 + length tb) tb) (\<lambda>buf.
      marshal_topics buf (idx + (2 + length tb)) ts)))"

definition Marshal_ListTopicsResponse :: "ListTopicsResponse \<Rightarrow> byte list result" where
  "Marshal_ListTopicsResponse r =
     (let totalSize = foldl (\<lambda>n t. n + (2 + length t)) 4 (lt_Topics r);
          buf = make_bytes totalSize
      in rbind (put32 buf 0 4 (of_nat (length (lt_Topics r)))) (\<lambda>buf.
         marshal_topics buf 4 (lt_Topics r)))"

section \<open>Bodies: Unmarshal\<close>

text \<open>\<^verbatim>\<open>make([]byte, n)\<close> followed by \<^verbatim>\<open>copy(dst, body[i:i+n])\<close>.\<close>

definition read_bytes :: "byte list \<Rightarrow> nat \<Rightarrow> nat \<Rightarrow> byte list result" where
  "read_bytes body i j =
     rbind (slice body i j) (\<lambda>src. copy_into (make_bytes (j - i)) 0 (j - i) src)"

text \<open>\<^verbatim>\<open>string(body[i:j])\<close>.\<close>

definition read_string :: "byte list \<Rightarrow> nat \<Rightarrow> nat \<Rightarrow> string result" where
  "read_string body i j = rbind (slice body i j) (\<lambda>src. Inr (string_of src))"

definition UnmarshalProduceRequest :: "byte list \<Rightarrow> ProduceRequest result" where
  "UnmarshalProduceRequest body =
     (if length body < 2 then Inl (Errorf ''malformed ProduceRequest'') else
      rbind (read16 body 0 2) (\<lambda>w. let topicLen = unat w in
      if length body < 2 + topicLen + 4 then Inl (Errorf ''malformed ProduceRequest'') else
      rbind (read_string body 2 (2 + topicLen)) (\<lambda>topic.
      let idx = 2 + topicLen in
      rbind (read32 body idx (idx + 4)) (\<lambda>w. let keyLen = unat w in
      if length body < idx + 4 + keyLen + 4 then Inl (Errorf ''malformed ProduceRequest'') else
      rbind (read_bytes body (idx + 4) (idx + 4 + keyLen)) (\<lambda>key.
      let idx = idx + 4 + keyLen in
      rbind (read32 body idx (idx + 4)) (\<lambda>w. let valLen = unat w in
      if length body < idx + 4 + valLen then Inl (Errorf ''malformed ProduceRequest'') else
      rbind (read_bytes body (idx + 4) (idx + 4 + valLen)) (\<lambda>value.
      Inr \<lparr>pr_Topic = topic, pr_Key = key, pr_Value = value\<rparr>)))))))"

definition UnmarshalProduceResponse :: "byte list \<Rightarrow> ProduceResponse result" where
  "UnmarshalProduceResponse body =
     (if length body < 8 then Inl (Errorf ''malformed ProduceResponse'') else
      rbind (read64 body 0 8) (\<lambda>offset. Inr \<lparr>prs_Offset = offset\<rparr>))"

definition UnmarshalFetchRequest :: "byte list \<Rightarrow> FetchRequest result" where
  "UnmarshalFetchRequest body =
     (if length body < 2 then Inl (Errorf ''malformed FetchRequest'') else
      rbind (read16 body 0 2) (\<lambda>w. let topicLen = unat w in
      if length body < 2 + topicLen + 2 then Inl (Errorf ''malformed FetchRequest'') else
      rbind (read_string body 2 (2 + topicLen)) (\<lambda>topic.
      let idx = 2 + topicLen in
      rbind (read16 body idx (idx + 2)) (\<lambda>w. let groupLen = unat w in
      if length body < idx + 2 + groupLen + 2 then Inl (Errorf ''malformed FetchRequest'') else
      rbind (read_string body (idx + 2) (idx + 2 + groupLen)) (\<lambda>grp.
      let idx = idx + 2 + groupLen in
      rbind (read16 body idx (idx + 2)) (\<lambda>w. let consumerLen = unat w in
      if length body < idx + 2 + consumerLen + 12 then Inl (Errorf ''malformed FetchRequest'') else
      rbind (read_string body (idx + 2) (idx + 2 + consumerLen)) (\<lambda>consumerID.
      let idx = idx + 2 + consumerLen in
      rbind (read32 body idx (idx + 4)) (\<lambda>maxMessages.
      rbind (read32 body (idx + 4) (idx + 8)) (\<lambda>ackTimeout.
      rbind (read32 body (idx + 8) (idx + 12)) (\<lambda>longPollTimeout.
      Inr \<lparr>fq_Topic = topic, fq_Group = grp, fq_ConsumerID = consumerID,
           fq_MaxMessages = maxMessages, fq_AckTimeoutMs = ackTimeout,
           fq_LongPollTimeoutMs = longPollTimeout\<rparr>))))))))))"

text \<open>
  The loop of \<^verbatim>\<open>UnmarshalFetchResponse\<close>: \<open>n\<close> messages still to read from \<open>idx\<close> on. (The
  source assigns \<^verbatim>\<open>messages[i]\<close> of a slice made with \<^verbatim>\<open>count\<close> elements; every element is
  assigned once, in order, before the slice is returned.)
\<close>

fun unmarshal_messages :: "byte list \<Rightarrow> nat \<Rightarrow> nat \<Rightarrow> Message list result" where
  "unmarshal_messages body 0 idx = Inr []"
| "unmarshal_messages body (Suc n) idx =
     (if length body < idx + 20 then Inl (Errorf ''malformed FetchResponse'') else
      rbind (read64 body idx (idx + 8)) (\<lambda>offset.
      rbind (read64 body (idx + 8) (idx + 16)) (\<lambda>timestamp.
      rbind (read32 body (idx + 16) (idx + 20)) (\<lambda>w. let keyLen = unat w in
      if length body < idx + 20 + keyLen + 4 then Inl (Errorf ''malformed FetchResponse'') else
      rbind (read_bytes body (idx + 20) (idx + 20 + keyLen)) (\<lambda>key.
      let idx = idx + 20 + keyLen in
      rbind (read32 body idx (idx + 4)) (\<lambda>w. let valLen = unat w in
      if length body < idx + 4 + valLen then Inl (Errorf ''malformed FetchResponse'') else
      rbind (read_bytes body (idx + 4) (idx + 4 + valLen)) (\<lambda>value.
      rbind (unmarshal_messages body n (idx + 4 + valLen)) (\<lambda>ms.
      Inr (\<lparr>m_Offset = offset, m_Timestamp = timestamp, m_Key = key, m_Value = value\<rparr> # ms)))))))))"

definition UnmarshalFetchResponse :: "byte list \<Rightarrow> FetchResponse result" where
  "UnmarshalFetchResponse body =
     (if length body < 4 then Inl (Errorf ''malformed FetchResponse'') else
      rbind (read32 body 0 4) (\<lambda>w. let count = unat w in
      rbind (unmarshal_messages body count 4) (\<lambda>messages.
      Inr \<lparr>fr_Messages = messages\<rparr>)))"

definition UnmarshalAckRequest :: "byte list \<Rightarrow> AckRequest result" where
  "UnmarshalAckRequest body =
     (if length body < 2 then Inl (Errorf ''malformed AckRequest'') else
      rbind (read16 body 0 2) (\<lambda>w. let topicLen = unat w in
      if length body < 2 + topicLen + 2 then Inl (Errorf ''malformed AckRequest'') else
      rbind (read_string body 2 (2 + topicLen)) (\<lambda>topic.
      let idx = 2 + topicLen in
      rbind (read16 body idx (idx + 2)) (\<lambda>w. let groupLen = unat w in
      if length body < idx + 2 + groupLen + 8 then Inl (Errorf ''malformed AckRequest'') else
      rbind (read_string body (idx + 2) (idx + 2 + groupLen)) (\<lambda>grp.
      let idx = idx + 2 + groupLen in
      rbind (read64 body idx (idx + 8)) (\<lambda>offset.
      Inr \<lparr>ar_Topic = topic, ar_Group = grp, ar_Offset = offset\<rparr>))))))"

definition UnmarshalNackRequest :: "byte list \<Rightarrow> NackRequest result" where
  "UnmarshalNackRequest body =
     (if length body < 2 then Inl (Errorf ''malformed NackRequest'') else
      rbind (read16 body 0 2) (\<lambda>w. let topicLen = unat w in
      if length body < 2 + topicLen + 2 then Inl (Errorf ''malformed NackRequest'') else
      rbind (read_string body 2 (2 + topicLen)) (\<lambda>topic.
      let idx = 2 + topicLen in
      rbind (read16 body idx (idx + 2)) (\<lambda>w. let groupLen = unat w in
      if length body < idx + 2 + groupLen + 8 then Inl (Errorf ''malformed NackRequest'') else
      rbind (read_string body (idx + 2) (idx + 2 + groupLen)) (\<lambda>grp.
      let idx = idx + 2 + groupLen in
      rbind (read64 body idx (idx + 8)) (\<lambda>offset.
      Inr \<lparr>nr_Topic = topic, nr_Group = grp, nr_Offset = offset\<rparr>))))))"

definition UnmarshalCreateTopicRequest :: "byte list \<Rightarrow> CreateTopicRequest result" where
  "UnmarshalCreateTopicRequest body =
     (if length body < 2 then Inl (Errorf ''malformed CreateTopicRequest'') else
      rbind (read16 body 0 2) (\<lambda>w. let topicLen = unat w in
      if length body < 2 + topicLen then Inl (Errorf ''malformed CreateTopicRequest'') else
      rbind (read_string body 2 (2 + topicLen)) (\<lambda>topic. Inr \<lparr>ct_Topic = topic\<rparr>)))"

definition UnmarshalErrorResponse :: "byte list \<Rightarrow> ErrorResponse result" where
  "UnmarshalErrorResponse body =
     (if length body < 4 then Inl (Errorf ''malformed ErrorResponse'') else
      rbind (read16 body 0 2) (\<lambda>code.
      rbind (read16 body 2 4) (\<lambda>w. let msgLen = unat w in
      if length body < 4 + msgLen then Inl (Errorf ''malformed ErrorResponse'') else
      rbind (read_string body 4 (4 + msgLen)) (\<lambda>message.
      Inr \<lparr>er_Code = code, er_Message = message\<rparr>))))"

fun unmarshal_topics :: "byte list \<Rightarrow> nat \<Rightarrow> nat \<Rightarrow> string list result" where
  "unmarshal_topics body 0 idx = Inr []"
| "unmarshal_topics body (Suc n) idx =
     (if length body < idx + 2 then Inl (Errorf ''malformed ListTopicsResponse'') else
      rbind (read16 body idx (idx + 2)) (\<lambda>w. let tLen = unat w in
      if length body < idx + 2 + tLen then Inl (Errorf ''malformed ListTopicsResponse'') else
      rbind (read_string body (idx + 2) (idx + 2 + tLen)) (\<lambda>t.
      rbind (unmarshal_topics body n (idx + (2 + tLen))) (\<lambda>ts. Inr (t # ts)))))"

definition UnmarshalListTopicsResponse :: "byte list \<Rightarrow> ListTopicsResponse result" where
  "UnmarshalListTopicsResponse body =
     (if length body < 4 then Inl (Errorf ''malformed ListTopicsResponse'') else
      rbind (read32 body 0 4) (\<lambda>w. let count = unat w in
      rbind (unmarshal_topics body count 4) (\<lambda>topics.
      Inr \<lparr>lt_Topics = topics\<rparr>)))"

end
