(* ===== verification/Codec.thy ===== *)
theory Codec
  imports Protocol
begin

text \<open>
  What a message body promises, once and for all: the locale \<open>codec\<close> relates a marshaller
  and an unmarshaller of \<^verbatim>\<open>pkg/protocol\<close> to a wire format, its lemmas follow from those laws
  alone, and each of the nine bodies is an interpretation. The frame reader and writer are
  related the same way.
\<close>

section \<open>The contract of a body\<close>

locale codec =
  fixes marshal :: "'m \<Rightarrow> byte list result"
    and unmarshal :: "byte list \<Rightarrow> 'm result"
    and wire :: "'m \<Rightarrow> byte list"
    and fits :: "'m \<Rightarrow> bool"
    and malformed :: string
  assumes marshal_wire: "marshal m = Inr (wire m)"
    and unmarshal_wire: "fits m \<Longrightarrow> unmarshal (wire m @ rest) = Inr m"
    and unmarshal_inv: "unmarshal b = Inr m \<Longrightarrow> fits m \<and> (\<exists>rest. b = wire m @ rest)"
    and unmarshal_err: "unmarshal b = Inl e \<Longrightarrow> e = Errorf malformed"
begin

lemma roundtrip_iff: "rbind (marshal m) unmarshal = Inr m \<longleftrightarrow> fits m"
  using unmarshal_wire [of m "[]"] unmarshal_inv [of "wire m" m] by (auto simp: marshal_wire)

lemma never_panics: "marshal m \<noteq> Inl Panic \<and> unmarshal b \<noteq> Inl Panic"
  by (auto simp: marshal_wire dest: unmarshal_err)

lemma accepts_iff: "unmarshal b = Inr m \<longleftrightarrow> fits m \<and> (\<exists>rest. b = wire m @ rest)"
  using unmarshal_inv unmarshal_wire by blast

lemma prefix_free:
  assumes "fits m" and "fits m'" and "wire m @ r = wire m' @ r'"
  shows "m = m' \<and> r = r'"
proof -
  have "Inr m = unmarshal (wire m' @ r')"
    using unmarshal_wire [OF assms(1), of r] assms(3) by simp
  then have "m = m'" using unmarshal_wire [OF assms(2), of r'] by simp
  with assms(3) show ?thesis by simp
qed

lemma truncated_rejected:
  assumes "fits m" and "n < length (wire m)"
  shows "unmarshal (take n (wire m)) = Inl (Errorf malformed)"
proof (cases "unmarshal (take n (wire m))")
  case (Inl e)
  then show ?thesis using unmarshal_err by blast
next
  case (Inr m')
  then obtain rest where f: "fits m'" and t: "take n (wire m) = wire m' @ rest"
    using unmarshal_inv by blast
  have "wire m @ [] = wire m' @ (rest @ drop n (wire m))"
    using t by (metis append_Nil2 append_assoc append_take_drop_id)
  from prefix_free [OF assms(1) f this] assms(2) show ?thesis by simp
qed

end

section \<open>Parsing lemmas\<close>

text \<open>A successful read consumes exactly what was read.\<close>

lemma slice_drop:
  assumes "slice b i j = Inr s"
  shows "drop i b = s @ drop j b" and "length s = j - i" and "i \<le> j" and "j \<le> length b"
proof -
  from assms have s: "s = take (j - i) (drop i b)" and ij: "i \<le> j" "j \<le> length b"
    by (auto simp: slice_def split: if_splits)
  have "drop j b = drop (j - i) (drop i b)" using ij by simp
  then show "drop i b = s @ drop j b" by (simp only: s append_take_drop_id)
  show "length s = j - i" "i \<le> j" "j \<le> length b" using s ij by simp_all
qed

lemma go_uint_bytes:
  assumes "go_uint n s = Inr (v :: 'a::len word)" and "length s = n" and "8 * n \<le> LENGTH('a)"
  shows "be_bytes n v = s"
proof -
  from assms(1,2) have "v = be_word s" by (simp add: go_uint_def)
  with assms(2,3) be_bytes_be_word [where 'a = 'a, of s] show ?thesis by simp
qed

text \<open>\<open>piece b i j s\<close>: the bytes of \<open>b\<close> from \<open>i\<close> to \<open>j\<close> are \<open>s\<close>. Pieces compose.\<close>

definition piece :: "byte list \<Rightarrow> nat \<Rightarrow> nat \<Rightarrow> byte list \<Rightarrow> bool" where
  "piece b i j s \<longleftrightarrow> slice b i j = Inr s"

lemma piece_append: "piece b i j s \<Longrightarrow> piece b j k t \<Longrightarrow> piece b i k (s @ t)"
  unfolding piece_def
  by (frule slice_drop(3), frule slice_drop(1), frule slice_drop(2), frule slice_drop(4))
    (auto simp: slice_def split: if_splits)

lemma piece_prefix: "piece b 0 k s \<Longrightarrow> \<exists>rest. b = s @ rest"
  unfolding piece_def by (drule slice_drop(1)) auto

lemma read16_piece: "read16 b i j = Inr v \<Longrightarrow> j = i + 2 \<Longrightarrow> piece b i j (be_bytes 2 v)"
  by (auto simp: read16_def rbind_eq_Inr Uint16_def piece_def dest: slice_drop(2) dest!: go_uint_bytes)

lemma read32_piece: "read32 b i j = Inr v \<Longrightarrow> j = i + 4 \<Longrightarrow> piece b i j (be_bytes 4 v)"
  by (auto simp: read32_def rbind_eq_Inr Uint32_def piece_def dest: slice_drop(2) dest!: go_uint_bytes)

lemma read64_piece: "read64 b i j = Inr v \<Longrightarrow> j = i + 8 \<Longrightarrow> piece b i j (be_bytes 8 v)"
  by (auto simp: read64_def rbind_eq_Inr Uint64_def piece_def dest: slice_drop(2) dest!: go_uint_bytes)

lemma read_bytes_slice: "read_bytes b i j = slice b i j"
proof (cases "slice b i j")
  case (Inl e)
  then show ?thesis by (simp add: read_bytes_def)
next
  case (Inr s)
  then have "length s = j - i" by (rule slice_drop)
  with Inr show ?thesis by (simp add: read_bytes_def copy_into_def make_bytes_def)
qed

lemma read_string_piece:
  "read_string b i j = Inr t \<Longrightarrow> piece b i j (bytes_of t) \<and> length t = j - i"
  by (auto simp: read_string_def rbind_eq_Inr piece_def dest: slice_drop(2))

lemma read_bytes_piece: "read_bytes b i j = Inr t \<Longrightarrow> piece b i j t \<and> length t = j - i"
  by (auto simp: read_bytes_slice piece_def dest: slice_drop(2))

lemmas read_pieces = read16_piece read32_piece read64_piece read_string_piece read_bytes_piece

lemma read16_total: "j = i + 2 \<Longrightarrow> j \<le> length b \<Longrightarrow> read16 b i j \<noteq> Inl e"
  by (simp add: read16_ok)

lemma read32_total: "j = i + 4 \<Longrightarrow> j \<le> length b \<Longrightarrow> read32 b i j \<noteq> Inl e"
  by (simp add: read32_ok)

lemma read64_total: "j = i + 8 \<Longrightarrow> j \<le> length b \<Longrightarrow> read64 b i j \<noteq> Inl e"
  by (simp add: read64_ok)

lemma read_string_total: "i \<le> j \<Longrightarrow> j \<le> length b \<Longrightarrow> read_string b i j \<noteq> Inl e"
  by (simp add: read_string_def slice_def)

lemma read_bytes_total: "i \<le> j \<Longrightarrow> j \<le> length b \<Longrightarrow> read_bytes b i j \<noteq> Inl e"
  by (simp add: read_bytes_slice slice_def)

lemmas read_total = read16_total read32_total read64_total read_string_total read_bytes_total
lemma read_string_hit [buf_simps]:
  "length a \<le> i \<Longrightarrow> length a \<le> j \<Longrightarrow>
    read_string (a @ b) i j = read_string b (i - length a) (j - length a)"
  "j = length t \<Longrightarrow> read_string (bytes_of t @ b) 0 j = Inr t"
  "j = length t \<Longrightarrow> read_string (bytes_of t) 0 j = Inr t"
  by (simp_all add: read_string_def slice_skip slice_hit slice_all)

lemma read_bytes_hit [buf_simps]:
  "length a \<le> i \<Longrightarrow> length a \<le> j \<Longrightarrow>
    read_bytes (a @ b) i j = read_bytes b (i - length a) (j - length a)"
  "j = length a \<Longrightarrow> read_bytes (a @ b) 0 j = Inr a"
  "j = length a \<Longrightarrow> read_bytes a 0 j = Inr a"
  by (simp_all add: read_bytes_slice slice_skip slice_hit slice_all)

text \<open>
  Elimination rules that walk a successful parse: each read leaves its piece, each length
  check leaves that it passed.
\<close>

lemma if_okE:
  "(if c then Inl e else x) = Inr r \<Longrightarrow> (\<not> c \<Longrightarrow> x = Inr r \<Longrightarrow> P) \<Longrightarrow> P"
  by (auto split: if_splits)

lemma read16_okE:
  "rbind (read16 b i j) f = Inr r \<Longrightarrow>
    (\<And>v. (j = i + 2 \<longrightarrow> piece b i j (be_bytes 2 v)) \<Longrightarrow> f v = Inr r \<Longrightarrow> P) \<Longrightarrow> P"
  by (auto simp: rbind_eq_Inr dest: read16_piece)

lemma read32_okE:
  "rbind (read32 b i j) f = Inr r \<Longrightarrow>
    (\<And>v. (j = i + 4 \<longrightarrow> piece b i j (be_bytes 4 v)) \<Longrightarrow> f v = Inr r \<Longrightarrow> P) \<Longrightarrow> P"
  by (auto simp: rbind_eq_Inr dest: read32_piece)

lemma read64_okE:
  "rbind (read64 b i j) f = Inr r \<Longrightarrow>
    (\<And>v. (j = i + 8 \<longrightarrow> piece b i j (be_bytes 8 v)) \<Longrightarrow> f v = Inr r \<Longrightarrow> P) \<Longrightarrow> P"
  by (auto simp: rbind_eq_Inr dest: read64_piece)

lemma read_string_okE:
  "rbind (read_string b i j) f = Inr r \<Longrightarrow>
    (\<And>t. piece b i j (bytes_of t) \<Longrightarrow> length t = j - i \<Longrightarrow> f t = Inr r \<Longrightarrow> P) \<Longrightarrow> P"
  by (auto simp: rbind_eq_Inr dest: read_string_piece)

lemma read_bytes_okE:
  "rbind (read_bytes b i j) f = Inr r \<Longrightarrow>
    (\<And>t. piece b i j t \<Longrightarrow> length t = j - i \<Longrightarrow> f t = Inr r \<Longrightarrow> P) \<Longrightarrow> P"
  by (auto simp: rbind_eq_Inr dest: read_bytes_piece)

lemma rbind_okE: "rbind m f = Inr b \<Longrightarrow> (\<And>a. m = Inr a \<Longrightarrow> f a = Inr b \<Longrightarrow> P) \<Longrightarrow> P"
  by (auto simp: rbind_eq_Inr)

lemmas parse_okE =
  if_okE read16_okE read32_okE read64_okE read_string_okE read_bytes_okE rbind_okE

section \<open>The bodies\<close>

subsection \<open>ProduceRequest\<close>

definition wire_ProduceRequest :: "ProduceRequest \<Rightarrow> byte list" where
  "wire_ProduceRequest r =
     be_bytes 2 (of_nat (length (pr_Topic r)) :: u16) @ bytes_of (pr_Topic r) @
     be_bytes 4 (of_nat (length (pr_Key r)) :: u32) @ pr_Key r @
     be_bytes 4 (of_nat (length (pr_Value r)) :: u32) @ pr_Value r"

definition fits_ProduceRequest :: "ProduceRequest \<Rightarrow> bool" where
  "fits_ProduceRequest r \<longleftrightarrow> length (pr_Topic r) < 2 ^ 16 \<and> length (pr_Key r) < 2 ^ 32 \<and> length (pr_Value r) < 2 ^ 32"

lemma Marshal_ProduceRequest_wire: "Marshal_ProduceRequest r = Inr (wire_ProduceRequest r)"
  by (simp add: Marshal_ProduceRequest_def wire_ProduceRequest_def Let_def buf_simps)

lemma UnmarshalProduceRequest_wire:
  "fits_ProduceRequest r \<Longrightarrow> UnmarshalProduceRequest (wire_ProduceRequest r @ rest) = Inr r"
  by (simp add: UnmarshalProduceRequest_def wire_ProduceRequest_def fits_ProduceRequest_def Let_def buf_simps)

lemma UnmarshalProduceRequest_inv:
  assumes "UnmarshalProduceRequest b = Inr r"
  shows "fits_ProduceRequest r \<and> (\<exists>rest. b = wire_ProduceRequest r @ rest)"
proof -
  have "fits_ProduceRequest r \<and> (\<exists>k. piece b 0 k (wire_ProduceRequest r))"
    using assms unfolding UnmarshalProduceRequest_def Let_def
    by (elim parse_okE)
      (auto simp: wire_ProduceRequest_def fits_ProduceRequest_def word_bounds;
        intro exI piece_append; assumption)
  then show ?thesis by (blast dest: piece_prefix)
qed

lemma UnmarshalProduceRequest_err:
  "UnmarshalProduceRequest b = Inl e \<Longrightarrow> e = Errorf ''malformed ProduceRequest''"
  by (auto simp: UnmarshalProduceRequest_def Let_def rbind_eq_Inl read_total split: if_splits)

interpretation produceRequest: codec Marshal_ProduceRequest UnmarshalProduceRequest
    wire_ProduceRequest fits_ProduceRequest "''malformed ProduceRequest''"
  by unfold_locales
    (auto simp: Marshal_ProduceRequest_wire UnmarshalProduceRequest_wire
      dest: UnmarshalProduceRequest_inv UnmarshalProduceRequest_err)

subsection \<open>ProduceResponse\<close>

definition wire_ProduceResponse :: "ProduceResponse \<Rightarrow> byte list" where
  "wire_ProduceResponse r =
     be_bytes 8 (prs_Offset r)"

definition fits_ProduceResponse :: "ProduceResponse \<Rightarrow> bool" where
  "fits_ProduceResponse r \<longleftrightarrow> True"

lemma Marshal_ProduceResponse_wire: "Marshal_ProduceResponse r = Inr (wire_ProduceResponse r)"
  by (simp add: Marshal_ProduceResponse_def wire_ProduceResponse_def Let_def buf_simps)

lemma UnmarshalProduceResponse_wire:
  "fits_ProduceResponse r \<Longrightarrow> UnmarshalProduceResponse (wire_ProduceResponse r @ rest) = Inr r"
  by (simp add: UnmarshalProduceResponse_def wire_ProduceResponse_def fits_ProduceResponse_def Let_def buf_simps)

lemma UnmarshalProduceResponse_inv:
  assumes "UnmarshalProduceResponse b = Inr r"
  shows "fits_ProduceResponse r \<and> (\<exists>rest. b = wire_ProduceResponse r @ rest)"
proof -
  have "fits_ProduceResponse r \<and> (\<exists>k. piece b 0 k (wire_ProduceResponse r))"
    using assms unfolding UnmarshalProduceResponse_def Let_def
    by (elim parse_okE)
      (auto simp: wire_ProduceResponse_def fits_ProduceResponse_def word_bounds;
        intro exI piece_append; assumption)
  then show ?thesis by (blast dest: piece_prefix)
qed

lemma UnmarshalProduceResponse_err:
  "UnmarshalProduceResponse b = Inl e \<Longrightarrow> e = Errorf ''malformed ProduceResponse''"
  by (auto simp: UnmarshalProduceResponse_def Let_def rbind_eq_Inl read_total split: if_splits)

interpretation produceResponse: codec Marshal_ProduceResponse UnmarshalProduceResponse
    wire_ProduceResponse fits_ProduceResponse "''malformed ProduceResponse''"
  by unfold_locales
    (auto simp: Marshal_ProduceResponse_wire UnmarshalProduceResponse_wire
      dest: UnmarshalProduceResponse_inv UnmarshalProduceResponse_err)

subsection \<open>FetchRequest\<close>

definition wire_FetchRequest :: "FetchRequest \<Rightarrow> byte list" where
  "wire_FetchRequest r =
     be_bytes 2 (of_nat (length (fq_Topic r)) :: u16) @ bytes_of (fq_Topic r) @
     be_bytes 2 (of_nat (length (fq_Group r)) :: u16) @ bytes_of (fq_Group r) @
     be_bytes 2 (of_nat (length (fq_ConsumerID r)) :: u16) @ bytes_of (fq_ConsumerID r) @
     be_bytes 4 (fq_MaxMessages r) @
     be_bytes 4 (fq_AckTimeoutMs r) @
     be_bytes 4 (fq_LongPollTimeoutMs r)"

definition fits_FetchRequest :: "FetchRequest \<Rightarrow> bool" where
  "fits_FetchRequest r \<longleftrightarrow> length (fq_Topic r) < 2 ^ 16 \<and> length (fq_Group r) < 2 ^ 16 \<and> length (fq_ConsumerID r) < 2 ^ 16"

lemma Marshal_FetchRequest_wire: "Marshal_FetchRequest r = Inr (wire_FetchRequest r)"
  by (simp add: Marshal_FetchRequest_def wire_FetchRequest_def Let_def buf_simps)

lemma UnmarshalFetchRequest_wire:
  "fits_FetchRequest r \<Longrightarrow> UnmarshalFetchRequest (wire_FetchRequest r @ rest) = Inr r"
  by (simp add: UnmarshalFetchRequest_def wire_FetchRequest_def fits_FetchRequest_def Let_def buf_simps)

lemma UnmarshalFetchRequest_inv:
  assumes "UnmarshalFetchRequest b = Inr r"
  shows "fits_FetchRequest r \<and> (\<exists>rest. b = wire_FetchRequest r @ rest)"
proof -
  have "fits_FetchRequest r \<and> (\<exists>k. piece b 0 k (wire_FetchRequest r))"
    using assms unfolding UnmarshalFetchRequest_def Let_def
    by (elim parse_okE)
      (auto simp: wire_FetchRequest_def fits_FetchRequest_def word_bounds;
        intro exI piece_append; assumption)
  then show ?thesis by (blast dest: piece_prefix)
qed

lemma UnmarshalFetchRequest_err:
  "UnmarshalFetchRequest b = Inl e \<Longrightarrow> e = Errorf ''malformed FetchRequest''"
  by (auto simp: UnmarshalFetchRequest_def Let_def rbind_eq_Inl read_total split: if_splits)

interpretation fetchRequest: codec Marshal_FetchRequest UnmarshalFetchRequest
    wire_FetchRequest fits_FetchRequest "''malformed FetchRequest''"
  by unfold_locales
    (auto simp: Marshal_FetchRequest_wire UnmarshalFetchRequest_wire
      dest: UnmarshalFetchRequest_inv UnmarshalFetchRequest_err)

subsection \<open>AckRequest\<close>

definition wire_AckRequest :: "AckRequest \<Rightarrow> byte list" where
  "wire_AckRequest r =
     be_bytes 2 (of_nat (length (ar_Topic r)) :: u16) @ bytes_of (ar_Topic r) @
     be_bytes 2 (of_nat (length (ar_Group r)) :: u16) @ bytes_of (ar_Group r) @
     be_bytes 8 (ar_Offset r)"

definition fits_AckRequest :: "AckRequest \<Rightarrow> bool" where
  "fits_AckRequest r \<longleftrightarrow> length (ar_Topic r) < 2 ^ 16 \<and> length (ar_Group r) < 2 ^ 16"

lemma Marshal_AckRequest_wire: "Marshal_AckRequest r = Inr (wire_AckRequest r)"
  by (simp add: Marshal_AckRequest_def wire_AckRequest_def Let_def buf_simps)

lemma UnmarshalAckRequest_wire:
  "fits_AckRequest r \<Longrightarrow> UnmarshalAckRequest (wire_AckRequest r @ rest) = Inr r"
  by (simp add: UnmarshalAckRequest_def wire_AckRequest_def fits_AckRequest_def Let_def buf_simps)

lemma UnmarshalAckRequest_inv:
  assumes "UnmarshalAckRequest b = Inr r"
  shows "fits_AckRequest r \<and> (\<exists>rest. b = wire_AckRequest r @ rest)"
proof -
  have "fits_AckRequest r \<and> (\<exists>k. piece b 0 k (wire_AckRequest r))"
    using assms unfolding UnmarshalAckRequest_def Let_def
    by (elim parse_okE)
      (auto simp: wire_AckRequest_def fits_AckRequest_def word_bounds;
        intro exI piece_append; assumption)
  then show ?thesis by (blast dest: piece_prefix)
qed

lemma UnmarshalAckRequest_err:
  "UnmarshalAckRequest b = Inl e \<Longrightarrow> e = Errorf ''malformed AckRequest''"
  by (auto simp: UnmarshalAckRequest_def Let_def rbind_eq_Inl read_total split: if_splits)

interpretation ackRequest: codec Marshal_AckRequest UnmarshalAckRequest
    wire_AckRequest fits_AckRequest "''malformed AckRequest''"
  by unfold_locales
    (auto simp: Marshal_AckRequest_wire UnmarshalAckRequest_wire
      dest: UnmarshalAckRequest_inv UnmarshalAckRequest_err)

subsection \<open>NackRequest\<close>

definition wire_NackRequest :: "NackRequest \<Rightarrow> byte list" where
  "wire_NackRequest r =
     be_bytes 2 (of_nat (length (nr_Topic r)) :: u16) @ bytes_of (nr_Topic r) @
     be_bytes 2 (of_nat (length (nr_Group r)) :: u16) @ bytes_of (nr_Group r) @
     be_bytes 8 (nr_Offset r)"

definition fits_NackRequest :: "NackRequest \<Rightarrow> bool" where
  "fits_NackRequest r \<longleftrightarrow> length (nr_Topic r) < 2 ^ 16 \<and> length (nr_Group r) < 2 ^ 16"

lemma Marshal_NackRequest_wire: "Marshal_NackRequest r = Inr (wire_NackRequest r)"
  by (simp add: Marshal_NackRequest_def wire_NackRequest_def Let_def buf_simps)

lemma UnmarshalNackRequest_wire:
  "fits_NackRequest r \<Longrightarrow> UnmarshalNackRequest (wire_NackRequest r @ rest) = Inr r"
  by (simp add: UnmarshalNackRequest_def wire_NackRequest_def fits_NackRequest_def Let_def buf_simps)

lemma UnmarshalNackRequest_inv:
  assumes "UnmarshalNackRequest b = Inr r"
  shows "fits_NackRequest r \<and> (\<exists>rest. b = wire_NackRequest r @ rest)"
proof -
  have "fits_NackRequest r \<and> (\<exists>k. piece b 0 k (wire_NackRequest r))"
    using assms unfolding UnmarshalNackRequest_def Let_def
    by (elim parse_okE)
      (auto simp: wire_NackRequest_def fits_NackRequest_def word_bounds;
        intro exI piece_append; assumption)
  then show ?thesis by (blast dest: piece_prefix)
qed

lemma UnmarshalNackRequest_err:
  "UnmarshalNackRequest b = Inl e \<Longrightarrow> e = Errorf ''malformed NackRequest''"
  by (auto simp: UnmarshalNackRequest_def Let_def rbind_eq_Inl read_total split: if_splits)

interpretation nackRequest: codec Marshal_NackRequest UnmarshalNackRequest
    wire_NackRequest fits_NackRequest "''malformed NackRequest''"
  by unfold_locales
    (auto simp: Marshal_NackRequest_wire UnmarshalNackRequest_wire
      dest: UnmarshalNackRequest_inv UnmarshalNackRequest_err)

subsection \<open>CreateTopicRequest\<close>

definition wire_CreateTopicRequest :: "CreateTopicRequest \<Rightarrow> byte list" where
  "wire_CreateTopicRequest r =
     be_bytes 2 (of_nat (length (ct_Topic r)) :: u16) @ bytes_of (ct_Topic r)"

definition fits_CreateTopicRequest :: "CreateTopicRequest \<Rightarrow> bool" where
  "fits_CreateTopicRequest r \<longleftrightarrow> length (ct_Topic r) < 2 ^ 16"

lemma Marshal_CreateTopicRequest_wire: "Marshal_CreateTopicRequest r = Inr (wire_CreateTopicRequest r)"
  by (simp add: Marshal_CreateTopicRequest_def wire_CreateTopicRequest_def Let_def buf_simps)

lemma UnmarshalCreateTopicRequest_wire:
  "fits_CreateTopicRequest r \<Longrightarrow> UnmarshalCreateTopicRequest (wire_CreateTopicRequest r @ rest) = Inr r"
  by (simp add: UnmarshalCreateTopicRequest_def wire_CreateTopicRequest_def fits_CreateTopicRequest_def Let_def buf_simps)

lemma UnmarshalCreateTopicRequest_inv:
  assumes "UnmarshalCreateTopicRequest b = Inr r"
  shows "fits_CreateTopicRequest r \<and> (\<exists>rest. b = wire_CreateTopicRequest r @ rest)"
proof -
  have "fits_CreateTopicRequest r \<and> (\<exists>k. piece b 0 k (wire_CreateTopicRequest r))"
    using assms unfolding UnmarshalCreateTopicRequest_def Let_def
    by (elim parse_okE)
      (auto simp: wire_CreateTopicRequest_def fits_CreateTopicRequest_def word_bounds;
        intro exI piece_append; assumption)
  then show ?thesis by (blast dest: piece_prefix)
qed

lemma UnmarshalCreateTopicRequest_err:
  "UnmarshalCreateTopicRequest b = Inl e \<Longrightarrow> e = Errorf ''malformed CreateTopicRequest''"
  by (auto simp: UnmarshalCreateTopicRequest_def Let_def rbind_eq_Inl read_total split: if_splits)

interpretation createTopicRequest: codec Marshal_CreateTopicRequest UnmarshalCreateTopicRequest
    wire_CreateTopicRequest fits_CreateTopicRequest "''malformed CreateTopicRequest''"
  by unfold_locales
    (auto simp: Marshal_CreateTopicRequest_wire UnmarshalCreateTopicRequest_wire
      dest: UnmarshalCreateTopicRequest_inv UnmarshalCreateTopicRequest_err)

subsection \<open>ErrorResponse\<close>

definition wire_ErrorResponse :: "ErrorResponse \<Rightarrow> byte list" where
  "wire_ErrorResponse r =
     be_bytes 2 (er_Code r) @
     be_bytes 2 (of_nat (length (er_Message r)) :: u16) @ bytes_of (er_Message r)"

definition fits_ErrorResponse :: "ErrorResponse \<Rightarrow> bool" where
  "fits_ErrorResponse r \<longleftrightarrow> length (er_Message r) < 2 ^ 16"

lemma Marshal_ErrorResponse_wire: "Marshal_ErrorResponse r = Inr (wire_ErrorResponse r)"
  by (simp add: Marshal_ErrorResponse_def wire_ErrorResponse_def Let_def buf_simps)

lemma UnmarshalErrorResponse_wire:
  "fits_ErrorResponse r \<Longrightarrow> UnmarshalErrorResponse (wire_ErrorResponse r @ rest) = Inr r"
  by (simp add: UnmarshalErrorResponse_def wire_ErrorResponse_def fits_ErrorResponse_def Let_def buf_simps)

lemma UnmarshalErrorResponse_inv:
  assumes "UnmarshalErrorResponse b = Inr r"
  shows "fits_ErrorResponse r \<and> (\<exists>rest. b = wire_ErrorResponse r @ rest)"
proof -
  have "fits_ErrorResponse r \<and> (\<exists>k. piece b 0 k (wire_ErrorResponse r))"
    using assms unfolding UnmarshalErrorResponse_def Let_def
    by (elim parse_okE)
      (auto simp: wire_ErrorResponse_def fits_ErrorResponse_def word_bounds;
        intro exI piece_append; assumption)
  then show ?thesis by (blast dest: piece_prefix)
qed

lemma UnmarshalErrorResponse_err:
  "UnmarshalErrorResponse b = Inl e \<Longrightarrow> e = Errorf ''malformed ErrorResponse''"
  by (auto simp: UnmarshalErrorResponse_def Let_def rbind_eq_Inl read_total split: if_splits)

interpretation errorResponse: codec Marshal_ErrorResponse UnmarshalErrorResponse
    wire_ErrorResponse fits_ErrorResponse "''malformed ErrorResponse''"
  by unfold_locales
    (auto simp: Marshal_ErrorResponse_wire UnmarshalErrorResponse_wire
      dest: UnmarshalErrorResponse_inv UnmarshalErrorResponse_err)

subsection \<open>FetchResponse\<close>

definition wire_Message :: "Message \<Rightarrow> byte list" where
  "wire_Message m =
     be_bytes 8 (m_Offset m) @ be_bytes 8 (m_Timestamp m) @
     be_bytes 4 (of_nat (length (m_Key m)) :: u32) @ m_Key m @
     be_bytes 4 (of_nat (length (m_Value m)) :: u32) @ m_Value m"

definition fits_Message :: "Message \<Rightarrow> bool" where
  "fits_Message m \<longleftrightarrow> length (m_Key m) < 2 ^ 32 \<and> length (m_Value m) < 2 ^ 32"

definition wire_FetchResponse :: "FetchResponse \<Rightarrow> byte list" where
  "wire_FetchResponse r =
     be_bytes 4 (of_nat (length (fr_Messages r)) :: u32) @ concat (map wire_Message (fr_Messages r))"

definition fits_FetchResponse :: "FetchResponse \<Rightarrow> bool" where
  "fits_FetchResponse r \<longleftrightarrow>
     length (fr_Messages r) < 2 ^ 32 \<and> list_all fits_Message (fr_Messages r)"

lemma length_wire_Message: "length (wire_Message m) = 24 + length (m_Key m) + length (m_Value m)"
  by (simp add: wire_Message_def)

lemma foldl_add_length: "foldl (\<lambda>n x. n + f x) a xs = a + sum_list (map f xs)"
  for f :: "'a \<Rightarrow> nat"
  by (induction xs arbitrary: a) auto

lemma piece_empty: "i \<le> length b \<Longrightarrow> piece b i i []"
  by (simp add: piece_def slice_def)

lemma piece_bounds: "piece b i j s \<Longrightarrow> i \<le> j \<and> j \<le> length b"
  by (auto simp: piece_def dest: slice_drop(3,4))

lemma marshal_messages_wire:
  assumes "length w + length (concat (map wire_Message ms)) \<le> n"
  shows "marshal_messages (wbuf n w) (length w) ms = Inr (wbuf n (w @ concat (map wire_Message ms)))"
  using assms
proof (induction ms arbitrary: w)
  case Nil
  then show ?case by simp
next
  case (Cons m ms)
  have "marshal_messages (wbuf n w) (length w) (m # ms) =
      marshal_messages (wbuf n (w @ wire_Message m)) (length (w @ wire_Message m)) ms"
    using Cons.prems by (simp add: Let_def buf_simps wire_Message_def add_ac)
  then show ?case using Cons.IH [of "w @ wire_Message m"] Cons.prems by simp
qed

lemma Marshal_FetchResponse_wire: "Marshal_FetchResponse r = Inr (wire_FetchResponse r)"
proof -
  let ?ms = "fr_Messages r" and ?c = "be_bytes 4 (of_nat (length (fr_Messages r)) :: u32)"
  let ?n = "4 + length (concat (map wire_Message ?ms))"
  have size: "foldl (\<lambda>t m. t + (8 + 8 + 4 + length (m_Key m) + 4 + length (m_Value m))) 4 ?ms = ?n"
    by (simp add: foldl_add_length length_concat comp_def length_wire_Message add_ac)
  have "Marshal_FetchResponse r = marshal_messages (wbuf ?n ?c) (length ?c) ?ms"
    unfolding Marshal_FetchResponse_def size by (simp add: Let_def buf_simps)
  also have "\<dots> = Inr (wbuf ?n (wire_FetchResponse r))"
    by (subst marshal_messages_wire) (simp_all add: wire_FetchResponse_def)
  finally show ?thesis by (simp add: wbuf_full wire_FetchResponse_def)
qed

lemma unmarshal_messages_step:
  assumes "fits_Message m"
  shows "unmarshal_messages (pre @ wire_Message m @ rest) (Suc n) (length pre) =
    rbind (unmarshal_messages (pre @ wire_Message m @ rest) n (length (pre @ wire_Message m)))
      (\<lambda>ms. Inr (m # ms))"
  using assms
  by (cases m) (simp add: Let_def buf_simps wire_Message_def fits_Message_def add_ac)

lemma unmarshal_messages_wire:
  assumes "list_all fits_Message ms"
  shows "unmarshal_messages (pre @ concat (map wire_Message ms) @ rest) (length ms) (length pre) = Inr ms"
  using assms
proof (induction ms arbitrary: pre)
  case Nil
  then show ?case by simp
next
  case (Cons m ms)
  let ?tail = "concat (map wire_Message ms) @ rest"
  have "unmarshal_messages ((pre @ wire_Message m) @ ?tail) (length ms) (length (pre @ wire_Message m)) = Inr ms"
    using Cons.prems by (intro Cons.IH) simp
  with unmarshal_messages_step [of m pre ?tail "length ms"] Cons.prems show ?case by simp
qed

lemma UnmarshalFetchResponse_wire:
  assumes "fits_FetchResponse r"
  shows "UnmarshalFetchResponse (wire_FetchResponse r @ rest) = Inr r"
  using assms unmarshal_messages_wire
    [of "fr_Messages r" "be_bytes 4 (of_nat (length (fr_Messages r)) :: u32)" rest]
  by (simp add: UnmarshalFetchResponse_def wire_FetchResponse_def fits_FetchResponse_def
      Let_def buf_simps)

lemma unmarshal_messages_okE:
  assumes "unmarshal_messages b (Suc n) idx = Inr ms"
  obtains m j ms' where "piece b idx j (wire_Message m)" and "fits_Message m"
    and "unmarshal_messages b n j = Inr ms'" and "ms = m # ms'"
  using assms unfolding unmarshal_messages.simps Let_def
  apply (elim parse_okE)
  subgoal for off ts kw key vw val ms'
    by (rule that [of _ "\<lparr>m_Offset = off, m_Timestamp = ts, m_Key = key, m_Value = val\<rparr>" ms'];
        (auto simp: wire_Message_def fits_Message_def word_bounds; intro piece_append; assumption))
  done

lemma unmarshal_messages_inv:
  assumes "unmarshal_messages b n idx = Inr ms" and "idx \<le> length b"
  shows "length ms = n \<and> list_all fits_Message ms \<and> (\<exists>k. piece b idx k (concat (map wire_Message ms)))"
  using assms
proof (induction n arbitrary: idx ms)
  case 0
  then show ?case by (auto intro: piece_empty)
next
  case (Suc n)
  from Suc.prems(1) obtain m j ms' where
    m: "piece b idx j (wire_Message m)" "fits_Message m"
    and rest: "unmarshal_messages b n j = Inr ms'" and ms: "ms = m # ms'"
    by (rule unmarshal_messages_okE)
  from m(1) have "j \<le> length b" by (simp add: piece_bounds)
  with Suc.IH [OF rest] m ms show ?case by (auto intro: piece_append)
qed

lemma UnmarshalFetchResponse_inv:
  assumes "UnmarshalFetchResponse b = Inr r"
  shows "fits_FetchResponse r \<and> (\<exists>rest. b = wire_FetchResponse r @ rest)"
proof -
  from assms obtain w :: u32 and ms where w: "piece b 0 4 (be_bytes 4 w)"
    and ms: "unmarshal_messages b (unat w) 4 = Inr ms" and r: "r = \<lparr>fr_Messages = ms\<rparr>"
    unfolding UnmarshalFetchResponse_def Let_def
    by (elim parse_okE) (auto intro: that)
  from w have "4 \<le> length b" by (simp add: piece_bounds)
  from unmarshal_messages_inv [OF ms this] obtain k where
    l: "length ms = unat w" and f: "list_all fits_Message ms"
    and k: "piece b 4 k (concat (map wire_Message ms))" by blast
  from w k have "piece b 0 k (be_bytes 4 w @ concat (map wire_Message ms))" by (rule piece_append)
  then have "piece b 0 k (wire_FetchResponse r)" using l r by (simp add: wire_FetchResponse_def)
  then have "\<exists>rest. b = wire_FetchResponse r @ rest" by (rule piece_prefix)
  with l f r show ?thesis by (simp add: fits_FetchResponse_def word_bounds)
qed

lemma unmarshal_messages_err:
  "unmarshal_messages b n idx = Inl e \<Longrightarrow> e = Errorf ''malformed FetchResponse''"
  by (induction n arbitrary: idx)
    (auto simp: Let_def rbind_eq_Inl read_total split: if_splits)

lemma UnmarshalFetchResponse_err:
  "UnmarshalFetchResponse b = Inl e \<Longrightarrow> e = Errorf ''malformed FetchResponse''"
  by (auto simp: UnmarshalFetchResponse_def Let_def rbind_eq_Inl read_total
      dest: unmarshal_messages_err split: if_splits)

interpretation fetchResponse: codec Marshal_FetchResponse UnmarshalFetchResponse
    wire_FetchResponse fits_FetchResponse "''malformed FetchResponse''"
  by unfold_locales
    (auto simp: Marshal_FetchResponse_wire UnmarshalFetchResponse_wire
      dest: UnmarshalFetchResponse_inv UnmarshalFetchResponse_err)

subsection \<open>ListTopicsResponse\<close>

definition wire_topic :: "string \<Rightarrow> byte list" where
  "wire_topic t = be_bytes 2 (of_nat (length t) :: u16) @ bytes_of t"

definition wire_ListTopicsResponse :: "ListTopicsResponse \<Rightarrow> byte list" where
  "wire_ListTopicsResponse r =
     be_bytes 4 (of_nat (length (lt_Topics r)) :: u32) @ concat (map wire_topic (lt_Topics r))"

definition fits_ListTopicsResponse :: "ListTopicsResponse \<Rightarrow> bool" where
  "fits_ListTopicsResponse r \<longleftrightarrow>
     length (lt_Topics r) < 2 ^ 32 \<and> list_all (\<lambda>t. length t < 2 ^ 16) (lt_Topics r)"

lemma length_wire_topic: "length (wire_topic t) = 2 + length t"
  by (simp add: wire_topic_def)

lemma marshal_topics_wire:
  assumes "length w + length (concat (map wire_topic ts)) \<le> n"
  shows "marshal_topics (wbuf n w) (length w) ts = Inr (wbuf n (w @ concat (map wire_topic ts)))"
  using assms
proof (induction ts arbitrary: w)
  case Nil
  then show ?case by simp
next
  case (Cons t ts)
  have "marshal_topics (wbuf n w) (length w) (t # ts) =
      marshal_topics (wbuf n (w @ wire_topic t)) (length (w @ wire_topic t)) ts"
    using Cons.prems by (simp add: Let_def buf_simps wire_topic_def add_ac)
  then show ?case using Cons.IH [of "w @ wire_topic t"] Cons.prems by simp
qed

lemma Marshal_ListTopicsResponse_wire:
  "Marshal_ListTopicsResponse r = Inr (wire_ListTopicsResponse r)"
proof -
  let ?ts = "lt_Topics r" and ?c = "be_bytes 4 (of_nat (length (lt_Topics r)) :: u32)"
  let ?n = "4 + length (concat (map wire_topic ?ts))"
  have size: "foldl (\<lambda>n t. n + (2 + length t)) 4 ?ts = ?n"
    by (simp add: foldl_add_length length_concat comp_def length_wire_topic)
  have "Marshal_ListTopicsResponse r = marshal_topics (wbuf ?n ?c) (length ?c) ?ts"
    unfolding Marshal_ListTopicsResponse_def size by (simp add: Let_def buf_simps)
  also have "\<dots> = Inr (wbuf ?n (wire_ListTopicsResponse r))"
    by (subst marshal_topics_wire) (simp_all add: wire_ListTopicsResponse_def)
  finally show ?thesis by (simp add: wbuf_full wire_ListTopicsResponse_def)
qed

lemma unmarshal_topics_wire:
  assumes "list_all (\<lambda>t. length t < 2 ^ 16) ts"
  shows "unmarshal_topics (pre @ concat (map wire_topic ts) @ rest) (length ts) (length pre) = Inr ts"
  using assms
proof (induction ts arbitrary: pre)
  case Nil
  then show ?case by simp
next
  case (Cons t ts)
  let ?tail = "concat (map wire_topic ts) @ rest"
  have IH: "unmarshal_topics ((pre @ wire_topic t) @ ?tail) (length ts) (length (pre @ wire_topic t)) = Inr ts"
    using Cons.prems by (intro Cons.IH) simp
  have "unmarshal_topics (pre @ wire_topic t @ ?tail) (Suc (length ts)) (length pre) =
      rbind (unmarshal_topics (pre @ wire_topic t @ ?tail) (length ts) (length (pre @ wire_topic t)))
        (\<lambda>ts. Inr (t # ts))"
    using Cons.prems
    by (simp add: Let_def buf_simps wire_topic_def add_ac del: map_eq_conv)
  with IH show ?case by simp
qed

lemma UnmarshalListTopicsResponse_wire:
  assumes "fits_ListTopicsResponse r"
  shows "UnmarshalListTopicsResponse (wire_ListTopicsResponse r @ rest) = Inr r"
  using assms unmarshal_topics_wire
    [of "lt_Topics r" "be_bytes 4 (of_nat (length (lt_Topics r)) :: u32)" rest]
  by (simp add: UnmarshalListTopicsResponse_def wire_ListTopicsResponse_def
      fits_ListTopicsResponse_def Let_def buf_simps)

lemma unmarshal_topics_okE:
  assumes "unmarshal_topics b (Suc n) idx = Inr ts"
  obtains t j ts' where "piece b idx j (wire_topic t)" and "length t < 2 ^ 16"
    and "unmarshal_topics b n j = Inr ts'" and "ts = t # ts'"
  using assms unfolding unmarshal_topics.simps Let_def
  apply (elim parse_okE)
  subgoal for w t ts'
    by (rule that [of _ t ts'];
        (auto simp: wire_topic_def word_bounds add_ac; intro piece_append; assumption))
  done

lemma unmarshal_topics_inv:
  assumes "unmarshal_topics b n idx = Inr ts" and "idx \<le> length b"
  shows "length ts = n \<and> list_all (\<lambda>t. length t < 2 ^ 16) ts \<and>
    (\<exists>k. piece b idx k (concat (map wire_topic ts)))"
  using assms
proof (induction n arbitrary: idx ts)
  case 0
  then show ?case by (auto intro: piece_empty)
next
  case (Suc n)
  from Suc.prems(1) obtain t j ts' where
    t: "piece b idx j (wire_topic t)" "length t < 2 ^ 16"
    and rest: "unmarshal_topics b n j = Inr ts'" and ts: "ts = t # ts'"
    by (rule unmarshal_topics_okE)
  from t(1) have "j \<le> length b" by (simp add: piece_bounds)
  with Suc.IH [OF rest] t ts show ?case by (auto intro: piece_append)
qed

lemma UnmarshalListTopicsResponse_inv:
  assumes "UnmarshalListTopicsResponse b = Inr r"
  shows "fits_ListTopicsResponse r \<and> (\<exists>rest. b = wire_ListTopicsResponse r @ rest)"
proof -
  from assms obtain w :: u32 and ts where w: "piece b 0 4 (be_bytes 4 w)"
    and ts: "unmarshal_topics b (unat w) 4 = Inr ts" and r: "r = \<lparr>lt_Topics = ts\<rparr>"
    unfolding UnmarshalListTopicsResponse_def Let_def
    by (elim parse_okE) (auto intro: that)
  from w have "4 \<le> length b" by (simp add: piece_bounds)
  from unmarshal_topics_inv [OF ts this] obtain k where
    l: "length ts = unat w" and f: "list_all (\<lambda>t. length t < 2 ^ 16) ts"
    and k: "piece b 4 k (concat (map wire_topic ts))" by blast
  from w k have "piece b 0 k (be_bytes 4 w @ concat (map wire_topic ts))" by (rule piece_append)
  then have "piece b 0 k (wire_ListTopicsResponse r)" using l r by (simp add: wire_ListTopicsResponse_def)
  then have "\<exists>rest. b = wire_ListTopicsResponse r @ rest" by (rule piece_prefix)
  with l f r show ?thesis by (simp add: fits_ListTopicsResponse_def word_bounds)
qed

lemma unmarshal_topics_err:
  "unmarshal_topics b n idx = Inl e \<Longrightarrow> e = Errorf ''malformed ListTopicsResponse''"
  by (induction n arbitrary: idx)
    (auto simp: Let_def rbind_eq_Inl read_total split: if_splits)

lemma UnmarshalListTopicsResponse_err:
  "UnmarshalListTopicsResponse b = Inl e \<Longrightarrow> e = Errorf ''malformed ListTopicsResponse''"
  by (auto simp: UnmarshalListTopicsResponse_def Let_def rbind_eq_Inl read_total
      dest: unmarshal_topics_err split: if_splits)

interpretation listTopicsResponse: codec Marshal_ListTopicsResponse UnmarshalListTopicsResponse
    wire_ListTopicsResponse fits_ListTopicsResponse "''malformed ListTopicsResponse''"
  by unfold_locales
    (auto simp: Marshal_ListTopicsResponse_wire UnmarshalListTopicsResponse_wire
      dest: UnmarshalListTopicsResponse_inv UnmarshalListTopicsResponse_err)

section \<open>Frames\<close>

definition wire_Frame :: "Frame \<Rightarrow> byte list" where
  "wire_Frame f =
     f_Type f # be_bytes 4 (f_ReqID f) @ be_bytes 4 (of_nat (length (f_Body f)) :: u32) @ f_Body f"

text \<open>What the reader makes of a written frame: the length field is the body's.\<close>

definition received :: "Frame \<Rightarrow> Frame" where
  "received f = f\<lparr>f_Length := of_nat (length (f_Body f))\<rparr>"

lemma frame_header_wire:
  "frame_header f =
     Inr (f_Type f # be_bytes 4 (f_ReqID f) @ be_bytes 4 (of_nat (length (f_Body f)) :: u32))"
  by (simp add: frame_header_def buf_simps)

lemma WriteFrame_wire:
  "w_room w = None \<Longrightarrow> WriteFrame w f = (Inr (), w\<lparr>w_out := w_out w @ wire_Frame f\<rparr>)"
  by (simp add: WriteFrame_def frame_header_wire conn_write_def wire_Frame_def)

lemma ReadFull_append: "n = length a \<Longrightarrow> ReadFull n (a @ r) = (Inr a, r)"
  by (simp add: ReadFull_def)

lemma header_reads:
  fixes i l :: u32
  shows "read32 (t # be_bytes 4 i @ be_bytes 4 l) (Suc 0) 5 = Inr i"
    and "read32 (t # be_bytes 4 i @ be_bytes 4 l) 5 9 = Inr l"
  using read32_skip [of "[t]" "Suc 0" 5 "be_bytes 4 i @ be_bytes 4 l"]
    read32_skip [of "[t]" 5 9 "be_bytes 4 i @ be_bytes 4 l"]
  by (simp_all add: buf_simps)

lemma ReadFrame_wire:
  assumes "length (f_Body f) < 2 ^ 32"
  shows "ReadFrame (wire_Frame f @ r) = (Inr (received f), r)"
proof -
  let ?l = "of_nat (length (f_Body f)) :: u32"
  let ?h = "f_Type f # be_bytes 4 (f_ReqID f) @ be_bytes 4 ?l"
  have s: "wire_Frame f @ r = ?h @ (f_Body f @ r)" by (simp add: wire_Frame_def)
  have l: "unat ?l = length (f_Body f)" using assms by (rule unat_of_nat_u32)
  then have z: "(0 < ?l) = (f_Body f \<noteq> [])"
    by (metis length_0_conv unat_eq_0 word_neq_0_conv)
  show ?thesis
    unfolding s ReadFrame_def
    by (simp add: ReadFull_append header_reads l z received_def del: append.simps append_assoc)
qed

text \<open>A frame cut off: the reader gives \<open>EOF\<close> at the two boundaries, \<open>UnexpectedEOF\<close> elsewhere.\<close>

lemma ReadFull_short:
  "length r < n \<Longrightarrow> ReadFull n r = (Inl (if r = [] then EOF else UnexpectedEOF), [])"
  by (auto simp: ReadFull_def)

lemma ReadFrame_cut:
  assumes "length (f_Body f) < 2 ^ 32" and "n < length (wire_Frame f)"
  shows "ReadFrame (take n (wire_Frame f)) =
    (Inl (if n = 0 \<or> n = 9 then EOF else UnexpectedEOF), [])"
proof -
  let ?l = "of_nat (length (f_Body f)) :: u32"
  let ?h = "f_Type f # be_bytes 4 (f_ReqID f) @ be_bytes 4 ?l"
  have s: "wire_Frame f = ?h @ f_Body f" by (simp add: wire_Frame_def)
  have h9: "length ?h = 9" by simp
  have l: "unat ?l = length (f_Body f)" using assms(1) by (rule unat_of_nat_u32)
  then have z: "(0 < ?l) = (f_Body f \<noteq> [])"
    by (metis length_0_conv unat_eq_0 word_neq_0_conv)
  show ?thesis
  proof (cases "n < 9")
    case True
    have "length (take n (wire_Frame f)) < 9" using True by simp
    moreover have "take n (wire_Frame f) = [] \<longleftrightarrow> n = 0" by (simp add: wire_Frame_def)
    ultimately show ?thesis using True unfolding ReadFrame_def by (simp add: ReadFull_short)
  next
    case False
    then have t: "take n (wire_Frame f) = ?h @ take (n - 9) (f_Body f)"
      unfolding s by (simp only: take_append h9) simp
    have short: "length (take (n - 9) (f_Body f)) < length (f_Body f)"
      using assms(2) False by (simp add: wire_Frame_def)
    then have "f_Body f \<noteq> []" and "take (n - 9) (f_Body f) = [] \<longleftrightarrow> n = 9" using False by auto
    then show ?thesis
      unfolding t ReadFrame_def
      by (simp add: ReadFull_append header_reads l z ReadFull_short [OF short] del: append.simps append_assoc)
        (use False in auto)
  qed
qed

text \<open>A write that fails has sent a proper prefix of the frame.\<close>

lemma conn_write_prefix:
  "\<exists>n. conn_write w bs = (r, w') \<longrightarrow>
    w_out w' = w_out w @ take n bs \<and> (r = Inr () \<and> n = length bs \<or> r \<noteq> Inr () \<and> n < length bs)"
proof (cases "w_room w")
  case None
  then show ?thesis by (auto simp: conn_write_def intro: exI [of _ "length bs"])
next
  case (Some k)
  then show ?thesis
    by (cases "length bs \<le> k") (auto simp: conn_write_def intro: exI [of _ "length bs"] exI [of _ k])
qed

lemma WriteFrame_prefix:
  assumes "WriteFrame w f = (r, w')"
  shows "\<exists>n. w_out w' = w_out w @ take n (wire_Frame f) \<and>
    (r = Inr () \<and> n = length (wire_Frame f) \<or> r \<noteq> Inr () \<and> n < length (wire_Frame f))"
proof -
  let ?h = "f_Type f # be_bytes 4 (f_ReqID f) @ be_bytes 4 (of_nat (length (f_Body f)) :: u32)"
  have s: "wire_Frame f = ?h @ f_Body f" by (simp add: wire_Frame_def)
  obtain r1 w1 where w1: "conn_write w ?h = (r1, w1)" by (cases "conn_write w ?h") auto
  obtain n1 where n1: "w_out w1 = w_out w @ take n1 ?h"
      "r1 = Inr () \<and> n1 = length ?h \<or> r1 \<noteq> Inr () \<and> n1 < length ?h"
    using conn_write_prefix [of w ?h r1 w1] w1 by auto
  show ?thesis
  proof (cases r1)
    case (Inl e)
    then have "r = Inl e" "w' = w1" using assms w1 by (auto simp: WriteFrame_def frame_header_wire)
    moreover from Inl n1 have "r1 \<noteq> Inr ()" "n1 < length ?h" by auto
    moreover from \<open>n1 < length ?h\<close> have "take n1 (wire_Frame f) = take n1 ?h"
      unfolding s by (simp only: take_append) simp
    ultimately show ?thesis using n1(1) s by (intro exI [of _ n1]) auto
  next
    case (Inr u)
    then have h: "w_out w1 = w_out w @ ?h" using n1 by auto
    show ?thesis
    proof (cases "f_Body f = []")
      case True
      then have "r = Inr ()" "w' = w1" using assms w1 Inr by (auto simp: WriteFrame_def frame_header_wire)
      then show ?thesis using h True unfolding s by (intro exI [of _ "length ?h"]) auto
    next
      case False
      then have w2: "conn_write w1 (f_Body f) = (r, w')"
        using assms w1 Inr by (auto simp: WriteFrame_def frame_header_wire)
      obtain n2 where "w_out w' = w_out w1 @ take n2 (f_Body f)"
          "r = Inr () \<and> n2 = length (f_Body f) \<or> r \<noteq> Inr () \<and> n2 < length (f_Body f)"
        using conn_write_prefix [of w1 "f_Body f" r w'] w2 by auto
      moreover have "take (length ?h + n2) (wire_Frame f) = ?h @ take n2 (f_Body f)"
        unfolding s by (simp only: take_append) simp
      moreover have "length (wire_Frame f) = length ?h + length (f_Body f)" unfolding s by simp
      ultimately show ?thesis using h by (intro exI [of _ "length ?h + n2"]) auto
    qed
  qed
qed

section \<open>Properties\<close>

text \<open>
  C29: no body makes an unmarshaller panic: each of the nine decoders, on any bytes a peer may
  send, returns a message or its own \<open>malformed\<close> error. No index or slice of them is out of
  range, whatever the length fields of the body claim.
\<close>

theorem decoders_never_panic:
  "UnmarshalProduceRequest b \<noteq> Inl Panic \<and> UnmarshalProduceResponse b \<noteq> Inl Panic \<and>
   UnmarshalFetchRequest b \<noteq> Inl Panic \<and> UnmarshalFetchResponse b \<noteq> Inl Panic \<and>
   UnmarshalAckRequest b \<noteq> Inl Panic \<and> UnmarshalNackRequest b \<noteq> Inl Panic \<and>
   UnmarshalCreateTopicRequest b \<noteq> Inl Panic \<and> UnmarshalErrorResponse b \<noteq> Inl Panic \<and>
   UnmarshalListTopicsResponse b \<noteq> Inl Panic"
  by (simp add: produceRequest.never_panics produceResponse.never_panics fetchRequest.never_panics
      fetchResponse.never_panics ackRequest.never_panics nackRequest.never_panics
      createTopicRequest.never_panics errorResponse.never_panics listTopicsResponse.never_panics)

text \<open>
  C25: a request survives marshalling and unmarshalling exactly when its strings are shorter
  than \<open>2 ^ 16\<close> bytes and its key and value shorter than \<open>2 ^ 32\<close>, the widths of the length
  fields; beyond them \<open>Marshal\<close> still succeeds, and the message is silently another one.
\<close>

theorem requests_roundtrip:
  "(rbind (Marshal_ProduceRequest p) UnmarshalProduceRequest = Inr p \<longleftrightarrow>
      length (pr_Topic p) < 2 ^ 16 \<and> length (pr_Key p) < 2 ^ 32 \<and> length (pr_Value p) < 2 ^ 32) \<and>
   (rbind (Marshal_FetchRequest f) UnmarshalFetchRequest = Inr f \<longleftrightarrow>
      length (fq_Topic f) < 2 ^ 16 \<and> length (fq_Group f) < 2 ^ 16 \<and> length (fq_ConsumerID f) < 2 ^ 16) \<and>
   (rbind (Marshal_AckRequest a) UnmarshalAckRequest = Inr a \<longleftrightarrow>
      length (ar_Topic a) < 2 ^ 16 \<and> length (ar_Group a) < 2 ^ 16) \<and>
   (rbind (Marshal_NackRequest n) UnmarshalNackRequest = Inr n \<longleftrightarrow>
      length (nr_Topic n) < 2 ^ 16 \<and> length (nr_Group n) < 2 ^ 16) \<and>
   (rbind (Marshal_CreateTopicRequest c) UnmarshalCreateTopicRequest = Inr c \<longleftrightarrow>
      length (ct_Topic c) < 2 ^ 16)"
  unfolding produceRequest.roundtrip_iff fetchRequest.roundtrip_iff ackRequest.roundtrip_iff
    nackRequest.roundtrip_iff createTopicRequest.roundtrip_iff
  by (simp add: fits_ProduceRequest_def fits_FetchRequest_def fits_AckRequest_def
      fits_NackRequest_def fits_CreateTopicRequest_def)

text \<open>
  C26: the same for the four responses, with the loops over the messages of a fetch and over
  the names of the topics: every message and every name comes back, in order.
\<close>

theorem responses_roundtrip:
  "rbind (Marshal_ProduceResponse p) UnmarshalProduceResponse = Inr p \<and>
   (rbind (Marshal_FetchResponse f) UnmarshalFetchResponse = Inr f \<longleftrightarrow>
      length (fr_Messages f) < 2 ^ 32 \<and>
      list_all (\<lambda>m. length (m_Key m) < 2 ^ 32 \<and> length (m_Value m) < 2 ^ 32) (fr_Messages f)) \<and>
   (rbind (Marshal_ErrorResponse e) UnmarshalErrorResponse = Inr e \<longleftrightarrow> length (er_Message e) < 2 ^ 16) \<and>
   (rbind (Marshal_ListTopicsResponse t) UnmarshalListTopicsResponse = Inr t \<longleftrightarrow>
      length (lt_Topics t) < 2 ^ 32 \<and> list_all (\<lambda>n. length n < 2 ^ 16) (lt_Topics t))"
  unfolding produceResponse.roundtrip_iff fetchResponse.roundtrip_iff errorResponse.roundtrip_iff
    listTopicsResponse.roundtrip_iff
  by (simp add: fits_ProduceResponse_def fits_FetchResponse_def fits_Message_def
      fits_ErrorResponse_def fits_ListTopicsResponse_def list_all_iff)

text \<open>
  A fetch response cut off anywhere is rejected as malformed: a consumer never sees
  some of the messages of a batch, nor a message with part of its value.
\<close>

theorem truncated_batch_rejected:
  assumes "rbind (Marshal_FetchResponse r) UnmarshalFetchResponse = Inr r"
    and "Marshal_FetchResponse r = Inr b" and "n < length b"
  shows "UnmarshalFetchResponse (take n b) = Inl (Errorf ''malformed FetchResponse'')"
proof -
  have "fits_FetchResponse r" using assms(1) by (simp only: fetchResponse.roundtrip_iff)
  moreover have "b = wire_FetchResponse r" using assms(2) by (simp add: fetchResponse.marshal_wire)
  ultimately show ?thesis using fetchResponse.truncated_rejected assms(3) by simp
qed

definition sample_batch :: FetchResponse where
  "sample_batch = \<lparr>fr_Messages =
     [\<lparr>m_Offset = 7, m_Timestamp = 1, m_Key = [1], m_Value = [2, 3]\<rparr>,
      \<lparr>m_Offset = 9, m_Timestamp = 2, m_Key = [], m_Value = [4]\<rparr>]\<rparr>"

theorem truncated_batch_rejected_witness:
  "UnmarshalFetchResponse (take 40 (wire_FetchResponse sample_batch)) =
     Inl (Errorf ''malformed FetchResponse'')"
proof (rule truncated_batch_rejected)
  show "rbind (Marshal_FetchResponse sample_batch) UnmarshalFetchResponse = Inr sample_batch"
    by (simp add: fetchResponse.roundtrip_iff fits_FetchResponse_def fits_Message_def sample_batch_def)
  show "Marshal_FetchResponse sample_batch = Inr (wire_FetchResponse sample_batch)"
    by (rule fetchResponse.marshal_wire)
  show "40 < length (wire_FetchResponse sample_batch)"
    by (simp add: wire_FetchResponse_def length_wire_Message sample_batch_def)
qed

text \<open>
  C27: a frame that was written is read back with its type, request id and body, and the
  bytes behind it are left for the next frame, so a stream of frames never loses its
  boundaries.
\<close>

theorem frame_roundtrip:
  assumes "w_room w = None" and "length (f_Body f) < 2 ^ 32"
    and "WriteFrame w f = (r, w')"
  shows "r = Inr () \<and>
    ReadFrame (drop (length (w_out w)) (w_out w') @ rest) =
      (Inr (f\<lparr>f_Length := of_nat (length (f_Body f))\<rparr>), rest)"
  using assms WriteFrame_wire [OF assms(1), of f] ReadFrame_wire [OF assms(2), of rest]
  by (auto simp: received_def)

definition sample_frame :: Frame where
  "sample_frame = \<lparr>f_Type = TypeReqCreateTopic, f_ReqID = 5, f_Length = 0, f_Body = [0, 1, 120]\<rparr>"

theorem frame_roundtrip_witness:
  "ReadFrame (drop 1 (w_out (snd (WriteFrame \<lparr>w_out = [9], w_room = None\<rparr> sample_frame))) @ [8]) =
     (Inr \<lparr>f_Type = TypeReqCreateTopic, f_ReqID = 5, f_Length = 3, f_Body = [0, 1, 120]\<rparr>, [8])"
proof -
  obtain r w' where w: "WriteFrame \<lparr>w_out = [9], w_room = None\<rparr> sample_frame = (r, w')"
    by (cases "WriteFrame \<lparr>w_out = [9], w_room = None\<rparr> sample_frame") auto
  have "length (f_Body sample_frame) < 2 ^ 32" by (simp add: sample_frame_def)
  from frame_roundtrip [OF _ this w] show ?thesis by (simp add: w) (simp add: sample_frame_def)
qed

text \<open>
  C28: on a connection that may break at any byte, the peer receives a frame exactly when
  \<open>WriteFrame\<close> reported success; otherwise its reader gets \<open>EOF\<close> or \<open>UnexpectedEOF\<close> and
  nothing is taken for a frame.
\<close>

theorem frame_delivered_iff_written:
  assumes "length (f_Body f) < 2 ^ 32" and "w_out w = []" and "WriteFrame w f = (r, w')"
  shows "if r = Inr () then ReadFrame (w_out w') = (Inr (f\<lparr>f_Length := of_nat (length (f_Body f))\<rparr>), [])
     else ReadFrame (w_out w') = (Inl EOF, []) \<or> ReadFrame (w_out w') = (Inl UnexpectedEOF, [])"
proof -
  obtain n where n: "w_out w' = take n (wire_Frame f)"
      "r = Inr () \<and> n = length (wire_Frame f) \<or> r \<noteq> Inr () \<and> n < length (wire_Frame f)"
    using WriteFrame_prefix [OF assms(3)] assms(2) by auto
  from n(2) show ?thesis
    using ReadFrame_wire [OF assms(1), of "[]"] ReadFrame_cut [OF assms(1), of n] n(1)
    by (auto simp: received_def split: if_splits)
qed

theorem frame_delivered_iff_written_witness:
  "ReadFrame (w_out (snd (WriteFrame \<lparr>w_out = [], w_room = Some 10\<rparr> sample_frame))) = (Inl EOF, []) \<or>
   ReadFrame (w_out (snd (WriteFrame \<lparr>w_out = [], w_room = Some 10\<rparr> sample_frame))) = (Inl UnexpectedEOF, [])"
proof -
  obtain r w' where w: "WriteFrame \<lparr>w_out = [], w_room = Some 10\<rparr> sample_frame = (r, w')"
    by (cases "WriteFrame \<lparr>w_out = [], w_room = Some 10\<rparr> sample_frame") auto
  have "r \<noteq> Inr ()"
    using w by (auto simp: WriteFrame_def frame_header_wire conn_write_def sample_frame_def)
  moreover have "length (f_Body sample_frame) < 2 ^ 32" by (simp add: sample_frame_def)
  ultimately show ?thesis using frame_delivered_iff_written [OF _ _ w] by (simp add: w)
qed

end
