(* ===== verification/Disk.thy ===== *)
theory Disk
  imports Prelude "HOL-Library.AList"
begin

text \<open>
  The operating system as the log sees it: one directory of files, the system calls the
  source makes on them, and a script of outcomes, so that every call can fail at every
  place. A program is a state transformer with an error or a value; \<open>and_then\<close> is the
  sequencing \<^verbatim>\<open>if err != nil { return err }\<close>.
\<close>

section \<open>Programs\<close>

type_synonym ('s, 'a) prog = "'s \<Rightarrow> 'a result \<times> 's"

definition ret :: "'a \<Rightarrow> ('s, 'a) prog" where
  "ret a s = (Inr a, s)"

definition fail :: "go_error \<Rightarrow> ('s, 'a) prog" where
  "fail e s = (Inl e, s)"

definition and_then :: "('s, 'a) prog \<Rightarrow> ('a \<Rightarrow> ('s, 'b) prog) \<Rightarrow> ('s, 'b) prog" where
  "and_then m f s = (case m s of (Inl e, s') \<Rightarrow> (Inl e, s') | (Inr a, s') \<Rightarrow> f a s')"

definition gets :: "('s \<Rightarrow> 'a) \<Rightarrow> ('s, 'a) prog" where
  "gets f s = (Inr (f s), s)"

definition modify :: "('s \<Rightarrow> 's) \<Rightarrow> ('s, unit) prog" where
  "modify f s = (Inr (), f s)"

text \<open>\<^verbatim>\<open>if _, err := m(); err != nil { ... }\<close>: the outcome as a value.\<close>

definition attempt :: "('s, 'a) prog \<Rightarrow> ('s, 'a result) prog" where
  "attempt m s = (case m s of (r, s') \<Rightarrow> (Inr r, s'))"

named_theorems prog_simps \<open>evaluation of programs\<close>

lemma ret_eval [prog_simps]: "ret a s = (Inr a, s)"
  by (simp add: ret_def)

lemma fail_eval [prog_simps]: "fail e s = (Inl e, s)"
  by (simp add: fail_def)

lemma gets_eval [prog_simps]: "gets f s = (Inr (f s), s)"
  by (simp add: gets_def)

lemma modify_eval [prog_simps]: "modify f s = (Inr (), f s)"
  by (simp add: modify_def)

lemma and_then_Inr [prog_simps]: "m s = (Inr a, s') \<Longrightarrow> and_then m f s = f a s'"
  by (simp add: and_then_def)

lemma and_then_Inl [prog_simps]: "m s = (Inl e, s') \<Longrightarrow> and_then m f s = (Inl e, s')"
  by (simp add: and_then_def)

lemma gets_and_then [prog_simps]: "and_then (gets f) g s = g (f s) s"
  by (simp add: and_then_def gets_def)

lemma ret_and_then [prog_simps]: "and_then (ret a) g = g a"
  by (simp add: and_then_def ret_def fun_eq_iff)

lemma modify_and_then [prog_simps]: "and_then (modify f) g s = g () (f s)"
  by (simp add: and_then_def modify_def)

lemma attempt_eval [prog_simps]: "m s = (r, s') \<Longrightarrow> attempt m s = (Inr r, s')"
  by (simp add: attempt_def)

subsection \<open>Assertions\<close>

text \<open>
  From a state with \<open>P\<close>, \<open>m\<close> ends in one with \<open>Q\<close> of its value or with \<open>E\<close> of its error.
\<close>

definition triple ::
    "('s \<Rightarrow> bool) \<Rightarrow> ('s, 'a) prog \<Rightarrow> ('a \<Rightarrow> 's \<Rightarrow> bool) \<Rightarrow> (go_error \<Rightarrow> 's \<Rightarrow> bool) \<Rightarrow> bool" where
  "triple P m Q E \<longleftrightarrow>
     (\<forall>s. P s \<longrightarrow> (case m s of (Inr a, s') \<Rightarrow> Q a s' | (Inl e, s') \<Rightarrow> E e s'))"

lemma tripleI:
  "(\<And>s. P s \<Longrightarrow> (case m s of (Inr a, s') \<Rightarrow> Q a s' | (Inl e, s') \<Rightarrow> E e s')) \<Longrightarrow> triple P m Q E"
  by (simp add: triple_def)

lemma triple_Inr: "triple P m Q E \<Longrightarrow> P s \<Longrightarrow> m s = (Inr a, s') \<Longrightarrow> Q a s'"
  by (fastforce simp: triple_def)

lemma triple_Inl: "triple P m Q E \<Longrightarrow> P s \<Longrightarrow> m s = (Inl e, s') \<Longrightarrow> E e s'"
  by (fastforce simp: triple_def)

lemma triple_and_then:
  assumes "triple P m R E" and "\<And>a. triple (R a) (f a) Q E"
  shows "triple P (and_then m f) Q E"
proof (rule tripleI)
  fix s assume "P s"
  with assms show "case and_then m f s of (Inr a, s') \<Rightarrow> Q a s' | (Inl e, s') \<Rightarrow> E e s'"
    by (cases "m s"; cases "fst (m s)") (fastforce simp: triple_def and_then_def)+
qed

lemma triple_ret: "(\<And>s. P s \<Longrightarrow> Q a s) \<Longrightarrow> triple P (ret a) Q E"
  by (simp add: triple_def ret_def)

lemma triple_fail: "(\<And>s. P s \<Longrightarrow> E e s) \<Longrightarrow> triple P (fail e) Q E"
  by (simp add: triple_def fail_def)

lemma triple_gets: "(\<And>s. P s \<Longrightarrow> Q (f s) s) \<Longrightarrow> triple P (gets f) Q E"
  by (simp add: triple_def gets_def)

lemma triple_modify: "(\<And>s. P s \<Longrightarrow> Q () (f s)) \<Longrightarrow> triple P (modify f) Q E"
  by (simp add: triple_def modify_def)

lemma triple_attempt:
  assumes "triple P m (\<lambda>a. Q (Inr a)) (\<lambda>e. Q (Inl e))"
  shows "triple P (attempt m) Q E"
proof (rule tripleI)
  fix s assume "P s"
  with assms show "case attempt m s of (Inr a, s') \<Rightarrow> Q a s' | (Inl e, s') \<Rightarrow> E e s'"
    by (cases "m s"; cases "fst (m s)") (fastforce simp: triple_def attempt_def)+
qed

lemma triple_known: "(a = v \<Longrightarrow> triple P m Q E) \<Longrightarrow> triple (\<lambda>s. P s \<and> a = v) m Q E"
  by (auto simp: triple_def)

lemma triple_if:
  "(c \<Longrightarrow> triple P m Q E) \<Longrightarrow> (\<not> c \<Longrightarrow> triple P n Q E) \<Longrightarrow> triple P (if c then m else n) Q E"
  by simp

lemma triple_pre: "triple P' m Q E \<Longrightarrow> (\<And>s. P s \<Longrightarrow> P' s) \<Longrightarrow> triple P m Q E"
  by (auto simp: triple_def)

lemma triple_post:
  assumes "triple P m Q' E'" and "\<And>a s. Q' a s \<Longrightarrow> Q a s" and "\<And>e s. E' e s \<Longrightarrow> E e s"
  shows "triple P m Q E"
  using assms by (fastforce simp: triple_def split: prod.splits sum.splits)

lemma triple_ex:
  assumes "\<And>x. triple (P x) m Q E"
  shows "triple (\<lambda>s. \<exists>x. P x s) m Q E"
proof (rule tripleI)
  fix s assume "\<exists>x. P x s"
  then obtain x where "P x s" ..
  with assms [of x] show "case m s of (Inr a, s') \<Rightarrow> Q a s' | (Inl e, s') \<Rightarrow> E e s'"
    by (simp add: triple_def)
qed

lemma triple_pure: "(c \<Longrightarrow> triple P m Q E) \<Longrightarrow> triple (\<lambda>s. c \<and> P s) m Q E"
  by (auto simp: triple_def)

text \<open>The two ways an attempted call that can only give \<open>v\<close> goes on.\<close>

lemma triple_attempted:
  assumes "\<And>e. triple C (g e) Q E" and "triple C (h v) Q E"
  shows "triple (\<lambda>w. C w \<and> (\<forall>a. r = Inr a \<longrightarrow> a = v)) (case r of Inl e \<Rightarrow> g e | Inr a \<Rightarrow> h a) Q E"
  using assms by (cases r) (auto simp: triple_def)

section \<open>The directory\<close>

text \<open>
  A directory entry is a subdirectory or a file with its bytes. \<open>durable\<close> holds what the
  last \<^verbatim>\<open>fsync\<close> of each file put on stable storage; \<open>script\<close> the outcomes of the coming
  system calls (when it is used up, they succeed): a call fails with the text of the
  operating system, a failing write after a number of bytes.
\<close>

datatype dirent = DirE | FileE "byte list"

datatype outcome = Succeed | Fault nat string

record world =
  files :: "(string \<times> dirent) list"
  durable :: "(string \<times> byte list) list"
  script :: "outcome list"

record handle =
  h_path :: string
  h_open :: bool

definition file_bytes :: "'z world_scheme \<Rightarrow> string \<Rightarrow> byte list" where
  "file_bytes s p = (case map_of (files s) p of Some (FileE b) \<Rightarrow> b | _ \<Rightarrow> [])"

definition set_file :: "string \<Rightarrow> byte list \<Rightarrow> 'z world_scheme \<Rightarrow> 'z world_scheme" where
  "set_file p b s = s\<lparr>files := AList.update p (FileE b) (files s)\<rparr>"

definition next_outcome :: "('z world_scheme, outcome) prog" where
  "next_outcome s =
     (case script s of [] \<Rightarrow> (Inr Succeed, s) | x # xs \<Rightarrow> (Inr x, s\<lparr>script := xs\<rparr>))"

definition syscall :: "('z world_scheme, 'a) prog \<Rightarrow> ('z world_scheme, 'a) prog" where
  "syscall m =
     and_then next_outcome (\<lambda>x. case x of Succeed \<Rightarrow> m | Fault n t \<Rightarrow> fail (OsError t))"

text \<open>A call on a file fails when the file is closed.\<close>

definition on_handle :: "handle \<Rightarrow> ('z world_scheme, 'a) prog \<Rightarrow> ('z world_scheme, 'a) prog" where
  "on_handle h m = (if h_open h then m else fail (OsError ''file already closed''))"

subsection \<open>System calls\<close>

text \<open>\<^verbatim>\<open>os.MkdirAll\<close> on the directory itself, \<^verbatim>\<open>os.ReadDir\<close> (names and kinds).\<close>

definition sys_mkdir_all :: "('z world_scheme, unit) prog" where
  "sys_mkdir_all = syscall (ret ())"

definition sys_readdir :: "('z world_scheme, (string \<times> bool) list) prog" where
  "sys_readdir = syscall (gets (\<lambda>s. map (\<lambda>(p, e). (p, e = DirE)) (files s)))"

text \<open>\<^verbatim>\<open>os.OpenFile(p, os.O_CREATE|os.O_RDWR, 0644)\<close>.\<close>

definition sys_open :: "string \<Rightarrow> ('z world_scheme, handle) prog" where
  "sys_open p = syscall (\<lambda>s.
     (case map_of (files s) p of
        None \<Rightarrow> (Inr \<lparr>h_path = p, h_open = True\<rparr>, set_file p [] s)
      | Some DirE \<Rightarrow> (Inl (OsError ''is a directory''), s)
      | Some (FileE b) \<Rightarrow> (Inr \<lparr>h_path = p, h_open = True\<rparr>, s)))"

definition sys_stat :: "handle \<Rightarrow> ('z world_scheme, nat) prog" where
  "sys_stat h = on_handle h (syscall (gets (\<lambda>s. length (file_bytes s (h_path h)))))"

text \<open>
  \<^verbatim>\<open>f.Seek(pos, io.SeekStart)\<close> gives the position the next read or write of the code
  uses; a negative position is refused.
\<close>

definition sys_seek :: "handle \<Rightarrow> int \<Rightarrow> ('z world_scheme, nat) prog" where
  "sys_seek h pos =
     on_handle h (syscall (if pos < 0 then fail (OsError ''invalid argument'') else ret (nat pos)))"

text \<open>\<^verbatim>\<open>f.Read(buf)\<close> with a non-empty buffer: at the end of the file it is EOF.\<close>

definition sys_read :: "handle \<Rightarrow> nat \<Rightarrow> nat \<Rightarrow> ('z world_scheme, byte list) prog" where
  "sys_read h pos n = on_handle h (syscall (\<lambda>s.
     (let b = drop pos (file_bytes s (h_path h))
      in if b = [] then (Inl EOF, s) else (Inr (take n b), s))))"

text \<open>\<^verbatim>\<open>io.ReadFull(f, buf)\<close> with a buffer of \<open>n\<close> bytes; an empty one needs no call.\<close>

definition sys_read_full :: "handle \<Rightarrow> nat \<Rightarrow> nat \<Rightarrow> ('z world_scheme, byte list) prog" where
  "sys_read_full h pos n =
     (if n = 0 then ret [] else on_handle h (syscall (\<lambda>s.
        (let b = drop pos (file_bytes s (h_path h))
         in if b = [] then (Inl EOF, s)
            else if length b < n then (Inl UnexpectedEOF, s)
            else (Inr (take n b), s)))))"

text \<open>A write at a position: a gap before it is filled with zeros.\<close>

definition write_at :: "nat \<Rightarrow> byte list \<Rightarrow> byte list \<Rightarrow> byte list" where
  "write_at pos bs b = take pos (b @ replicate (pos - length b) 0) @ bs @ drop (pos + length bs) b"

definition sys_write :: "handle \<Rightarrow> nat \<Rightarrow> byte list \<Rightarrow> ('z world_scheme, unit) prog" where
  "sys_write h pos bs = on_handle h (and_then next_outcome (\<lambda>x s.
     (case x of
        Succeed \<Rightarrow> (Inr (), set_file (h_path h) (write_at pos bs (file_bytes s (h_path h))) s)
      | Fault n t \<Rightarrow>
          (Inl (OsError t),
           set_file (h_path h) (write_at pos (take n bs) (file_bytes s (h_path h))) s))))"

definition sys_truncate :: "handle \<Rightarrow> nat \<Rightarrow> ('z world_scheme, unit) prog" where
  "sys_truncate h n = on_handle h (syscall (modify (\<lambda>s.
     (let b = file_bytes s (h_path h)
      in set_file (h_path h) (take n (b @ replicate (n - length b) 0)) s))))"

definition sys_sync :: "handle \<Rightarrow> ('z world_scheme, unit) prog" where
  "sys_sync h = on_handle h (syscall (modify (\<lambda>s.
     s\<lparr>durable := AList.update (h_path h) (file_bytes s (h_path h)) (durable s)\<rparr>)))"

definition sys_close :: "handle \<Rightarrow> ('z world_scheme, unit) prog" where
  "sys_close h = on_handle h (syscall (ret ()))"

section \<open>Assertions about system calls\<close>

text \<open>
  An assertion that does not look at the coming outcomes, and one that does not look at
  stable storage either.
\<close>

definition stable :: "('z world_scheme \<Rightarrow> bool) \<Rightarrow> bool" where
  "stable P \<longleftrightarrow> (\<forall>s x. P s \<longrightarrow> P (s\<lparr>script := x\<rparr>))"

definition cache_only :: "('z world_scheme \<Rightarrow> bool) \<Rightarrow> bool" where
  "cache_only P \<longleftrightarrow> stable P \<and> (\<forall>s x. P s \<longrightarrow> P (s\<lparr>durable := x\<rparr>))"

lemma cache_only_stable: "cache_only P \<Longrightarrow> stable P"
  by (simp add: cache_only_def)

lemma triple_next_outcome: "stable P \<Longrightarrow> triple P next_outcome (\<lambda>_. P) E"
  by (auto simp: triple_def next_outcome_def stable_def split: list.splits)

lemma triple_syscall:
  assumes "stable P" and "triple P m Q E" and "\<And>t s. P s \<Longrightarrow> E (OsError t) s"
  shows "triple P (syscall m) Q E"
  unfolding syscall_def
proof (rule triple_and_then [OF triple_next_outcome [OF assms(1)]])
  fix x show "triple P (case x of Succeed \<Rightarrow> m | Fault n t \<Rightarrow> fail (OsError t)) Q E"
    using assms(2,3) by (cases x) (auto intro: triple_fail)
qed

lemma triple_on_handle:
  assumes "triple P m Q E" and "\<And>e s. P s \<Longrightarrow> E e s"
  shows "triple P (on_handle h m) Q E"
  using assms by (auto simp: on_handle_def intro: triple_fail)

lemma triple_seek:
  assumes "stable P" and "\<And>e s. P s \<Longrightarrow> E e s"
  shows "triple P (sys_seek h pos) (\<lambda>a s. P s \<and> a = nat pos) E"
  unfolding sys_seek_def
  by (intro triple_on_handle triple_syscall triple_if triple_ret triple_fail conjI assms refl)

lemma triple_sync:
  assumes "cache_only P" and "\<And>e s. P s \<Longrightarrow> E e s"
  shows "triple P (sys_sync h) (\<lambda>_. P) E"
  unfolding sys_sync_def
  using assms by (intro triple_on_handle triple_syscall triple_modify) (auto simp: cache_only_def)

lemma triple_stat:
  assumes "stable P" and "\<And>e s. P s \<Longrightarrow> E e s"
  shows "triple P (sys_stat h) (\<lambda>n s. P s \<and> n = length (file_bytes s (h_path h))) E"
  unfolding sys_stat_def
  using assms by (intro triple_on_handle triple_syscall triple_gets) auto

lemma triple_close:
  assumes "stable P" and "\<And>e s. P s \<Longrightarrow> E e s"
  shows "triple P (sys_close h) (\<lambda>_. P) E"
  unfolding sys_close_def
  using assms by (intro triple_on_handle triple_syscall triple_ret) auto

lemma triple_write:
  assumes "stable P"
    and "\<And>s. P s \<Longrightarrow> Q () (set_file (h_path h) (write_at pos bs (file_bytes s (h_path h))) s)"
    and "\<And>e n s. P s \<Longrightarrow> E e (set_file (h_path h) (write_at pos (take n bs) (file_bytes s (h_path h))) s)"
    and "\<And>e s. P s \<Longrightarrow> E e s"
  shows "triple P (sys_write h pos bs) Q E"
  unfolding sys_write_def
proof (rule triple_on_handle [OF triple_and_then [OF triple_next_outcome [OF assms(1)]] assms(4)])
  fix x
  show "triple P (\<lambda>s.
     (case x of
        Succeed \<Rightarrow> (Inr (), set_file (h_path h) (write_at pos bs (file_bytes s (h_path h))) s)
      | Fault n t \<Rightarrow>
          (Inl (OsError t),
           set_file (h_path h) (write_at pos (take n bs) (file_bytes s (h_path h))) s))) Q E"
    using assms(2,3) by (cases x) (auto simp: triple_def)
qed

section \<open>The file store\<close>

lemma file_bytes_set_file [simp]:
  "file_bytes (set_file p b s) q = (if q = p then b else file_bytes s q)"
  by (simp add: file_bytes_def set_file_def AList.update_conv')

lemma map_of_set_file:
  "map_of (files (set_file p b s)) q = (if q = p then Some (FileE b) else map_of (files s) q)"
  by (simp add: set_file_def AList.update_conv')

lemma set_file_frame [simp]:
  "durable (set_file p b s) = durable s" "script (set_file p b s) = script s"
  "world.more (set_file p b s) = world.more s"
  by (simp_all add: set_file_def)

lemma file_bytes_frame [simp]:
  "file_bytes (s\<lparr>script := x\<rparr>) = file_bytes s" "file_bytes (s\<lparr>durable := d\<rparr>) = file_bytes s"
  by (simp_all add: file_bytes_def fun_eq_iff)

lemma take_write_at [simp]: "n \<le> pos \<Longrightarrow> pos \<le> length b \<Longrightarrow> take n (write_at pos bs b) = take n b"
  by (simp add: write_at_def)

lemma take_write_at_all:
  "pos \<le> length b \<Longrightarrow> n = pos + length bs \<Longrightarrow> take n (write_at pos bs b) = take pos b @ bs"
  by (simp add: write_at_def)

lemma length_write_at: "pos \<le> length b \<Longrightarrow> length (write_at pos bs b) = max (length b) (pos + length bs)"
  by (simp add: write_at_def)

text \<open>System calls when none fails.\<close>

lemma next_outcome_Nil [prog_simps]: "script s = [] \<Longrightarrow> next_outcome s = (Inr Succeed, s)"
  by (simp add: next_outcome_def)

lemma syscall_Nil [prog_simps]: "script s = [] \<Longrightarrow> syscall m s = m s"
  by (simp add: syscall_def and_then_def next_outcome_def)

lemma on_handle_open [prog_simps]: "h_open h \<Longrightarrow> on_handle h m = m"
  by (simp add: on_handle_def)

section \<open>Programs that only read\<close>

text \<open>
  \<open>reads w m r\<close>: from the state \<open>w\<close>, whatever the outcomes of its calls, \<open>m\<close> changes
  nothing (it only uses up outcomes), and gives \<open>r\<close> or the error of a failed call; when no
  call fails it gives \<open>r\<close>.
\<close>

definition reads :: "'z world_scheme \<Rightarrow> ('z world_scheme, 'a) prog \<Rightarrow> 'a result \<Rightarrow> bool" where
  "reads w m r \<longleftrightarrow>
     m (w\<lparr>script := []\<rparr>) = (r, w\<lparr>script := []\<rparr>) \<and>
     (\<forall>x. \<exists>q y. m (w\<lparr>script := x\<rparr>) = (q, w\<lparr>script := y\<rparr>) \<and> (q = r \<or> (\<exists>t. q = Inl (OsError t))))"

lemma reads_and_then:
  assumes m: "reads w m (Inr a)" and f: "reads w (f a) r"
  shows "reads w (and_then m f) r"
  unfolding reads_def
proof (intro conjI allI)
  show "and_then m f (w\<lparr>script := []\<rparr>) = (r, w\<lparr>script := []\<rparr>)"
    using m f by (simp add: reads_def and_then_def)
  fix x
  obtain q y where q: "m (w\<lparr>script := x\<rparr>) = (q, w\<lparr>script := y\<rparr>)" "q = Inr a \<or> (\<exists>t. q = Inl (OsError t))"
    using m unfolding reads_def by blast
  show "\<exists>q y. and_then m f (w\<lparr>script := x\<rparr>) = (q, w\<lparr>script := y\<rparr>) \<and> (q = r \<or> (\<exists>t. q = Inl (OsError t)))"
    using q(2)
  proof
    assume "q = Inr a"
    then show ?thesis using q(1) f unfolding reads_def and_then_def by simp
  next
    assume "\<exists>t. q = Inl (OsError t)"
    then show ?thesis using q(1) unfolding and_then_def by force
  qed
qed

lemma reads_ret: "reads w (ret a) (Inr a)"
  by (auto simp: reads_def ret_def)

lemma reads_fail: "reads w (fail e) (Inl e)"
  by (auto simp: reads_def fail_def)

lemma reads_gets: "(\<And>x. f (w\<lparr>script := x\<rparr>) = a) \<Longrightarrow> reads w (gets f) (Inr a)"
  by (auto simp: reads_def gets_def)

lemma reads_syscall:
  assumes "\<And>x. m (w\<lparr>script := x\<rparr>) = (r, w\<lparr>script := x\<rparr>)"
  shows "reads w (syscall m) r"
  unfolding reads_def
proof (intro conjI allI)
  show "syscall m (w\<lparr>script := []\<rparr>) = (r, w\<lparr>script := []\<rparr>)"
    using assms by (simp add: syscall_Nil)
  fix x
  have "syscall m (w\<lparr>script := x\<rparr>) =
      (case x of Fault n t # y \<Rightarrow> (Inl (OsError t), w\<lparr>script := y\<rparr>) | _ \<Rightarrow> (r, w\<lparr>script := tl x\<rparr>))"
    using assms by (simp add: syscall_def and_then_def next_outcome_def fail_def split: list.splits outcome.splits)
  then show "\<exists>q y. syscall m (w\<lparr>script := x\<rparr>) = (q, w\<lparr>script := y\<rparr>) \<and> (q = r \<or> (\<exists>t. q = Inl (OsError t)))"
    by (cases x) (auto split: outcome.splits)
qed

lemma reads_on_handle: "h_open h \<Longrightarrow> reads w m r \<Longrightarrow> reads w (on_handle h m) r"
  by (simp add: on_handle_def)

lemma reads_seek: "h_open h \<Longrightarrow> 0 \<le> pos \<Longrightarrow> reads w (sys_seek h pos) (Inr (nat pos))"
  unfolding sys_seek_def by (intro reads_on_handle reads_syscall) (simp_all add: ret_def)

lemma reads_read:
  "h_open h \<Longrightarrow> drop pos (file_bytes w (h_path h)) = b \<Longrightarrow> b \<noteq> [] \<Longrightarrow>
    reads w (sys_read h pos n) (Inr (take n b))"
  unfolding sys_read_def by (intro reads_on_handle reads_syscall) (simp_all add: Let_def)

lemma reads_read_full:
  assumes "h_open h" and "take n (drop pos (file_bytes w (h_path h))) = b" and "length b = n"
  shows "reads w (sys_read_full h pos n) (Inr b)"
proof (cases "n = 0")
  case True
  then show ?thesis using assms by (simp add: sys_read_full_def reads_ret)
next
  case False
  let ?d = "drop pos (file_bytes w (h_path h))"
  have "n \<le> length ?d" using assms(2,3) by (metis length_take min.cobounded1)
  with False have "?d \<noteq> [] \<and> \<not> length ?d < n" by auto
  with assms False show ?thesis
    unfolding sys_read_full_def by (auto intro!: reads_on_handle reads_syscall simp: Let_def)
qed

lemma reads_triple:
  assumes "\<And>w. P w \<Longrightarrow> reads w m r" and "stable P"
  shows "triple P m (\<lambda>a w. P w \<and> r = Inr a) (\<lambda>e w. P w \<and> (r = Inl e \<or> (\<exists>t. e = OsError t)))"
proof (rule tripleI)
  fix s assume P: "P s"
  then obtain q y where q: "m (s\<lparr>script := script s\<rparr>) = (q, s\<lparr>script := y\<rparr>)" "q = r \<or> (\<exists>t. q = Inl (OsError t))"
    using assms(1) unfolding reads_def by blast
  have "P (s\<lparr>script := y\<rparr>)" using P assms(2) by (simp add: stable_def)
  with q show "case m s of (Inr a, s') \<Rightarrow> P s' \<and> r = Inr a
      | (Inl e, s') \<Rightarrow> P s' \<and> (r = Inl e \<or> (\<exists>t. e = OsError t))"
    by (cases q) auto
qed

lemma reads_Nil: "reads w m r \<Longrightarrow> script w = [] \<Longrightarrow> m w = (r, w)"
  unfolding reads_def by (cases w) simp

end
