(* ===== verification/Crc32.thy ===== *)
theory Crc32
  imports Prelude
begin

text \<open>
  \<^verbatim>\<open>crc32.ChecksumIEEE\<close> of Go's \<^verbatim>\<open>hash/crc32\<close>, as \<^verbatim>\<open>pkg/wal/wal.go\<close> uses it: the reflected
  CRC-32 with polynomial 0xEDB88320, initial value and final inversion of all ones, bit by
  bit. What the log relies on is proved here: two messages of one length that differ in a
  single byte have different checksums.
\<close>

definition crc_poly :: u32 where
  "crc_poly = 0xEDB88320"

definition crc_bit :: "u32 \<Rightarrow> u32" where
  "crc_bit c = (if bit c 0 then drop_bit 1 c XOR crc_poly else drop_bit 1 c)"

definition crc_byte :: "u32 \<Rightarrow> byte \<Rightarrow> u32" where
  "crc_byte c b = (crc_bit ^^ 8) (c XOR ucast b)"

definition crc_update :: "u32 \<Rightarrow> byte list \<Rightarrow> u32" where
  "crc_update c bs = foldl crc_byte c bs"

definition ChecksumIEEE :: "byte list \<Rightarrow> u32" where
  "ChecksumIEEE bs = NOT (crc_update (NOT 0) bs)"

text \<open>
  One step of the register loses nothing: the top bit of the result is the bit shifted
  out, since the polynomial has its top bit set.
\<close>

lemma bit_crc_poly_31: "bit crc_poly 31"
  by (simp add: crc_poly_def)

lemma crc_bit_top: "bit (crc_bit c) 31 = bit c 0"
proof -
  have "\<not> bit (drop_bit 1 c) 31"
    using bit_imp_le_length [of c 32] by (auto simp: bit_drop_bit_eq)
  then show ?thesis by (simp add: crc_bit_def bit_xor_iff bit_crc_poly_31)
qed

lemma crc_bit_inj: "inj crc_bit"
proof (rule injI)
  fix c d assume eq: "crc_bit c = crc_bit d"
  then have low: "bit c 0 = bit d 0" by (metis crc_bit_top)
  have "drop_bit 1 c = drop_bit 1 d"
  proof (cases "bit c 0")
    case True
    with eq low have "(drop_bit 1 c XOR crc_poly) XOR crc_poly = (drop_bit 1 d XOR crc_poly) XOR crc_poly"
      by (simp add: crc_bit_def)
    then show ?thesis by (simp only: xor.assoc xor_self_eq xor.right_neutral)
  next
    case False
    with eq low show ?thesis by (simp add: crc_bit_def)
  qed
  then have high: "bit c (Suc n) = bit d (Suc n)" for n
    by (metis bit_drop_bit_eq comp_apply plus_1_eq_Suc)
  show "c = d"
  proof (rule bit_word_eqI)
    fix n show "bit c n = bit d n" by (cases n) (simp_all add: low high)
  qed
qed

lemma crc_bits_inj: "inj (crc_bit ^^ n)"
proof (induction n)
  case 0
  then show ?case by (simp add: inj_def)
next
  case (Suc n)
  show ?case unfolding funpow.simps(2) by (rule inj_compose [OF crc_bit_inj Suc.IH])
qed

lemma xor_cancel_left: "(a XOR b = a XOR c) = (b = c)" for a b c :: "'a::len word"
  by (metis xor.assoc xor.left_neutral xor_self_eq)

lemma xor_cancel_right: "(b XOR a = c XOR a) = (b = c)" for a b c :: "'a::len word"
  by (metis xor.assoc xor.right_neutral xor_self_eq)

lemma ucast_byte_inj: "(ucast b = (ucast c :: u32)) = (b = c)" for b c :: byte
proof
  have u: "unat (ucast x :: u32) = unat x" for x :: byte
    using unat_u8_bound [of x] by (simp add: unsigned_ucast_eq take_bit_nat_eq_self)
  assume "ucast b = (ucast c :: u32)"
  then have "unat b = unat c" by (metis u)
  then show "b = c" by (rule unsigned_word_eqI)
qed simp

lemma crc_byte_state_inj: "crc_byte c b = crc_byte d b \<longleftrightarrow> c = d"
  by (simp add: crc_byte_def inj_eq [OF crc_bits_inj] xor_cancel_right)

lemma crc_byte_byte_inj: "crc_byte c b = crc_byte c b' \<longleftrightarrow> b = b'"
  by (simp add: crc_byte_def inj_eq [OF crc_bits_inj] xor_cancel_left ucast_byte_inj)

lemma crc_update_append: "crc_update c (xs @ ys) = crc_update (crc_update c xs) ys"
  by (simp add: crc_update_def)

lemma crc_update_inj: "crc_update c bs = crc_update d bs \<longleftrightarrow> c = d"
  by (induction bs arbitrary: c d) (simp_all add: crc_update_def crc_byte_state_inj)

lemma crc_one_byte:
  "crc_update c (xs @ b # ys) = crc_update c (xs @ b' # ys) \<longleftrightarrow> b = b'"
  by (simp add: crc_update_append crc_update_def crc_byte_byte_inj
      crc_update_inj [unfolded crc_update_def])

text \<open>The detection property, in the shape the log uses it.\<close>

lemma ChecksumIEEE_one_byte:
  "b \<noteq> b' \<Longrightarrow> ChecksumIEEE (xs @ b # ys) \<noteq> ChecksumIEEE (xs @ b' # ys)"
  by (simp add: ChecksumIEEE_def crc_one_byte)

lemma ChecksumIEEE_update:
  assumes "i < length bs" and "bs ! i \<noteq> v"
  shows "ChecksumIEEE (bs[i := v]) \<noteq> ChecksumIEEE bs"
proof -
  have "bs = take i bs @ bs ! i # drop (Suc i) bs" using assms(1) by (rule id_take_nth_drop)
  moreover have "bs[i := v] = take i bs @ v # drop (Suc i) bs"
    using assms(1) by (rule upd_conv_take_nth_drop)
  ultimately show ?thesis using ChecksumIEEE_one_byte [OF assms(2)] by metis
qed

text \<open>Evaluation on concrete bytes, and the standard check value of CRC-32.\<close>

lemma crc_byte_eq:
  "crc_byte c b = crc_bit (crc_bit (crc_bit (crc_bit (crc_bit (crc_bit (crc_bit (crc_bit
     (c XOR ucast b))))))))"
  by (simp add: crc_byte_def eval_nat_numeral)

lemmas crc_eval = ChecksumIEEE_def crc_update_def crc_byte_eq crc_bit_def crc_poly_def

lemma ChecksumIEEE_check_value: "ChecksumIEEE (bytes_of ''123456789'') = 0xCBF43926"
  by (simp add: crc_eval bytes_of_def)

end
