(* ===== verification/Wal.thy ===== *)
theory Wal
  imports Disk Crc32
begin

text \<open>
  The write-ahead log of one topic, \<^verbatim>\<open>pkg/wal/wal.go\<close>: segments with their log and index
  files, opening and recovery, append, segment roll, read and the binary search for a
  segment, flush and close. The state is the directory of \<open>Disk\<close> with the fields of the
  \<^verbatim>\<open>WAL\<close> struct; the mutexes serialise the operations, each of which is one program here.
\<close>

section \<open>State\<close>

definition MagicByte :: byte where
  "MagicByte = 0x54"

record Record =
  r_Magic :: byte
  r_Offset :: u64
  r_Timestamp :: u64
  r_Key :: "byte list"
  r_Value :: "byte list"
  r_Checksum :: u32

record segment =
  BaseOffset :: u64
  logFile :: handle
  idxFile :: handle
  seg_size :: nat
  idxSize :: nat

text \<open>
  \<open>active\<close> is the index of the segment the pointer \<^verbatim>\<open>w.active\<close> refers to; \<open>flushChan\<close> the
  number of tokens in the channel of capacity 1.
\<close>

record wal = world +
  syncEveryWrite :: bool
  syncInterval :: int
  maxSegmentBytes :: int
  segments :: "segment list"
  active :: nat
  nextOffset :: u64
  closed :: bool
  flushChan :: nat

definition active_segment :: "'z wal_scheme \<Rightarrow> segment" where
  "active_segment w = segments w ! active w"

definition of_result :: "'a result \<Rightarrow> ('s, 'a) prog" where
  "of_result r = (case r of Inl e \<Rightarrow> fail e | Inr a \<Rightarrow> ret a)"

section \<open>File names\<close>

text \<open>\<^verbatim>\<open>fmt.Sprintf("%020d", n)\<close> and \<^verbatim>\<open>strconv.ParseUint(s, 10, 64)\<close>.\<close>

definition digit :: "nat \<Rightarrow> char" where
  "digit d = char_of (48 + d)"

fun decimal :: "nat \<Rightarrow> string" where
  "decimal n = (if n < 10 then [digit n] else decimal (n div 10) @ [digit (n mod 10)])"

declare decimal.simps [simp del]

definition pad20 :: "nat \<Rightarrow> string" where
  "pad20 n = replicate (20 - length (decimal n)) (digit 0) @ decimal n"

definition log_name :: "u64 \<Rightarrow> string" where
  "log_name bo = pad20 (unat bo) @ ''.log''"

definition idx_name :: "u64 \<Rightarrow> string" where
  "idx_name bo = pad20 (unat bo) @ ''.index''"

definition is_digit :: "char \<Rightarrow> bool" where
  "is_digit c \<longleftrightarrow> (48 :: nat) \<le> of_char c \<and> of_char c \<le> (57 :: nat)"

definition digits_value :: "string \<Rightarrow> nat" where
  "digits_value s = foldl (\<lambda>n c. 10 * n + (of_char c - 48)) 0 s"

definition ParseUint :: "string \<Rightarrow> u64 option" where
  "ParseUint s =
     (if s \<noteq> [] \<and> list_all is_digit s \<and> digits_value s < 2 ^ 64
      then Some (of_nat (digits_value s)) else None)"

definition HasSuffix :: "string \<Rightarrow> string \<Rightarrow> bool" where
  "HasSuffix s suf \<longleftrightarrow> length suf \<le> length s \<and> drop (length s - length suf) s = suf"

definition TrimSuffix :: "string \<Rightarrow> string \<Rightarrow> string" where
  "TrimSuffix s suf = (if HasSuffix s suf then take (length s - length suf) s else s)"

section \<open>Opening a segment\<close>

definition openSegment :: "u64 \<Rightarrow> ('z world_scheme, segment) prog" where
  "openSegment baseOffset =
     and_then (sys_open (log_name baseOffset)) (\<lambda>lf.
     and_then (attempt (sys_open (idx_name baseOffset))) (\<lambda>r.
     case r of
       Inl err \<Rightarrow> and_then (attempt (sys_close lf)) (\<lambda>_. fail err)
     | Inr xf \<Rightarrow>
         and_then (attempt (sys_stat lf)) (\<lambda>r.
         case r of
           Inl err \<Rightarrow> and_then (attempt (sys_close lf)) (\<lambda>_. and_then (attempt (sys_close xf)) (\<lambda>_. fail err))
         | Inr lsize \<Rightarrow>
             and_then (attempt (sys_stat xf)) (\<lambda>r.
             case r of
               Inl err \<Rightarrow> and_then (attempt (sys_close lf)) (\<lambda>_. and_then (attempt (sys_close xf)) (\<lambda>_. fail err))
             | Inr xsize \<Rightarrow>
                 ret \<lparr>BaseOffset = baseOffset, logFile = lf, idxFile = xf,
                      seg_size = lsize, idxSize = xsize\<rparr>))))"

section \<open>Recovery of a segment\<close>

text \<open>
  The header of a record holds two 32-bit lengths, and its size is computed in 32 bits
  before it is widened: \<^verbatim>\<open>int64(1 + 24 + keyLen + valLen + 4)\<close>.
\<close>

definition record_size :: "u32 \<Rightarrow> u32 \<Rightarrow> nat" where
  "record_size keyLen valLen = unat (1 + 24 + keyLen + valLen + 4)"

definition header_size :: "byte list \<Rightarrow> nat" where
  "header_size headerBuf =
     record_size (be_word (take 4 (drop 16 headerBuf))) (be_word (take 4 (drop 20 headerBuf)))"

text \<open>Does the index entry number \<open>cnt\<close> disagree with (or lack) the position \<open>logPos\<close>?\<close>

definition check_entry :: "segment \<Rightarrow> nat \<Rightarrow> nat \<Rightarrow> ('z world_scheme, bool) prog" where
  "check_entry seg logPos cnt =
     (let idxPos = cnt * 8 in
      if idxSize seg < idxPos + 8 then ret True
      else and_then (sys_seek (idxFile seg) (int idxPos)) (\<lambda>pos.
           and_then (sys_read_full (idxFile seg) pos 8) (\<lambda>offsetBuf.
           ret (sint (be_word offsetBuf :: u64) \<noteq> int logPos))))"

text \<open>
  The scanning loop of \<^verbatim>\<open>verifyOrRebuildIndex\<close>; it returns the position it stopped at, the
  number of records and whether the index must be rebuilt. \<open>None\<close> is a loop that never ends.
\<close>

partial_function (option) scan_log ::
    "segment \<Rightarrow> nat \<Rightarrow> nat \<Rightarrow> bool \<Rightarrow> 'z world_scheme
      \<Rightarrow> ((nat \<times> nat \<times> bool) result \<times> 'z world_scheme) option" where
  "scan_log seg logPos cnt rebuildNeeded s =
     (if seg_size seg \<le> logPos then Some (Inr (logPos, cnt, rebuildNeeded), s) else
      case sys_read (logFile seg) logPos 1 s of
        (Inl e, s) \<Rightarrow> if errors_Is e EOF then Some (Inr (logPos, cnt, rebuildNeeded), s) else Some (Inl e, s)
      | (Inr magic, s) \<Rightarrow>
          if magic \<noteq> [MagicByte] then Some (Inr (logPos, cnt, True), s) else
          case sys_read_full (logFile seg) (logPos + 1) 24 s of
            (Inl e, s) \<Rightarrow> Some (Inr (logPos, cnt, True), s)
          | (Inr headerBuf, s) \<Rightarrow>
              (case check_entry seg logPos cnt s of
                 (Inl e, s) \<Rightarrow> Some (Inl e, s)
               | (Inr bad, s) \<Rightarrow>
                   (case sys_seek (logFile seg) (int (logPos + header_size headerBuf)) s of
                      (Inl e, s) \<Rightarrow> Some (Inl e, s)
                    | (Inr pos, s) \<Rightarrow>
                        scan_log seg (logPos + header_size headerBuf) (cnt + 1) (rebuildNeeded \<or> bad) s)))"

text \<open>The rebuilding loop: one index entry, at \<open>idxPos\<close>, for every record from \<open>scanPos\<close> on.\<close>

partial_function (option) rebuild_index ::
    "segment \<Rightarrow> nat \<Rightarrow> nat \<Rightarrow> 'z world_scheme \<Rightarrow> (unit result \<times> 'z world_scheme) option" where
  "rebuild_index seg scanPos idxPos s =
     (if seg_size seg \<le> scanPos then Some (Inr (), s) else
      case sys_read_full (logFile seg) scanPos 25 s of
        (Inl e, s) \<Rightarrow> Some (Inl e, s)
      | (Inr headerBuf, s) \<Rightarrow>
          (case sys_write (idxFile seg) idxPos (be_bytes 8 (of_nat scanPos :: u64)) s of
             (Inl e, s) \<Rightarrow> Some (Inl e, s)
           | (Inr _, s) \<Rightarrow>
               (case sys_seek (logFile seg) (int (scanPos + header_size (drop 1 headerBuf))) s of
                  (Inl e, s) \<Rightarrow> Some (Inl e, s)
                | (Inr pos, s) \<Rightarrow>
                    rebuild_index seg (scanPos + header_size (drop 1 headerBuf)) (idxPos + 8) s)))"

text \<open>Sequencing for programs that may not end.\<close>

type_synonym ('s, 'a) loop = "'s \<Rightarrow> ('a result \<times> 's) option"

definition run :: "('s, 'a) prog \<Rightarrow> ('s, 'a) loop" where
  "run m s = Some (m s)"

definition then_loop :: "('s, 'a) loop \<Rightarrow> ('a \<Rightarrow> ('s, 'b) loop) \<Rightarrow> ('s, 'b) loop" where
  "then_loop m f s =
     (case m s of
        None \<Rightarrow> None
      | Some (Inl e, s') \<Rightarrow> Some (Inl e, s')
      | Some (Inr a, s') \<Rightarrow> f a s')"

definition verifyOrRebuildIndex :: "segment \<Rightarrow> ('z world_scheme, segment) loop" where
  "verifyOrRebuildIndex seg =
     then_loop (run (sys_seek (logFile seg) 0)) (\<lambda>pos.
     then_loop (scan_log seg pos 0 False) (\<lambda>(logPos, recordsCount, rebuildNeeded).
     then_loop (run (if logPos < seg_size seg
                     then and_then (sys_truncate (logFile seg) logPos) (\<lambda>_. ret (seg\<lparr>seg_size := logPos\<rparr>))
                     else ret seg)) (\<lambda>seg.
     if rebuildNeeded \<or> idxSize seg \<noteq> recordsCount * 8
     then then_loop (run (sys_truncate (idxFile seg) 0)) (\<lambda>_.
          then_loop (run (sys_seek (idxFile seg) 0)) (\<lambda>ipos.
          then_loop (run (sys_seek (logFile seg) 0)) (\<lambda>lpos.
          then_loop (rebuild_index seg lpos ipos) (\<lambda>_.
          then_loop (run (sys_sync (idxFile seg))) (\<lambda>_.
          run (ret (seg\<lparr>idxSize := recordsCount * 8\<rparr>)))))))
     else run (ret seg))))"

section \<open>Opening the log\<close>

text \<open>
  \<^verbatim>\<open>loadSegments\<close>: the base offsets are the file names \<^verbatim>\<open><digits>.log\<close>, sorted; each
  segment is opened and verified, and an empty directory gets segment 0.
\<close>

definition base_offsets :: "(string \<times> bool) list \<Rightarrow> u64 list" where
  "base_offsets entries =
     List.map_filter (\<lambda>(name, isDir).
       if isDir then None
       else if HasSuffix name ''.log'' then ParseUint (TrimSuffix name ''.log'') else None) entries"

fun open_segments :: "u64 list \<Rightarrow> ('z wal_scheme, unit) loop" where
  "open_segments [] = run (ret ())"
| "open_segments (bo # bos) =
     then_loop (run (openSegment bo)) (\<lambda>seg.
     then_loop (verifyOrRebuildIndex seg) (\<lambda>seg.
     then_loop (run (modify (\<lambda>w. w\<lparr>segments := segments w @ [seg]\<rparr>))) (\<lambda>_.
     open_segments bos)))"

definition recoverNextOffset :: "('z wal_scheme, unit) prog" where
  "recoverNextOffset =
     and_then (gets active_segment) (\<lambda>seg.
     if idxSize seg = 0 then modify (\<lambda>w. w\<lparr>nextOffset := BaseOffset seg\<rparr>)
     else
       and_then (sys_seek (idxFile seg) (int (idxSize seg) - 8)) (\<lambda>pos.
       and_then (sys_read_full (idxFile seg) pos 8) (\<lambda>posBuf.
       let lastLogPos = be_word posBuf :: u64 in
       and_then (sys_seek (logFile seg) (sint (lastLogPos + 1))) (\<lambda>pos.
       and_then (sys_read_full (logFile seg) pos 8) (\<lambda>offsetBuf.
       let lastOffset = be_word offsetBuf :: u64 in
       modify (\<lambda>w. w\<lparr>nextOffset := lastOffset + 1\<rparr>))))))"

definition loadSegments :: "('z wal_scheme, unit) loop" where
  "loadSegments =
     then_loop (run sys_readdir) (\<lambda>entries.
     then_loop (open_segments (sort (base_offsets entries))) (\<lambda>_.
     then_loop (run (and_then (gets segments) (\<lambda>segs.
       if segs = [] then
         and_then (openSegment 0) (\<lambda>seg. modify (\<lambda>w. w\<lparr>segments := segments w @ [seg]\<rparr>))
       else ret ()))) (\<lambda>_.
     then_loop (run (modify (\<lambda>w. w\<lparr>active := length (segments w) - 1\<rparr>))) (\<lambda>_.
     run recoverNextOffset))))"

text \<open>
  \<^verbatim>\<open>NewWAL\<close> on a directory: the struct starts empty, and the errors of its two steps are
  wrapped. The background \<^verbatim>\<open>flushLoop\<close> is started when writes are not synced.
\<close>

definition new_wal :: "bool \<Rightarrow> int \<Rightarrow> int \<Rightarrow> world \<Rightarrow> wal" where
  "new_wal syncEvery interval maxBytes d =
     world.extend d \<lparr>syncEveryWrite = syncEvery, syncInterval = interval, maxSegmentBytes = maxBytes,
       segments = [], active = 0, nextOffset = 0, closed = False, flushChan = 0\<rparr>"

definition wrap_error :: "string \<Rightarrow> ('s, 'a) prog \<Rightarrow> ('s, 'a) prog" where
  "wrap_error t m s = (case m s of (Inl e, s') \<Rightarrow> (Inl (Wrapped t e), s') | (Inr a, s') \<Rightarrow> (Inr a, s'))"

definition NewWAL :: "bool \<Rightarrow> int \<Rightarrow> int \<Rightarrow> world \<Rightarrow> (unit result \<times> wal) option" where
  "NewWAL syncEvery interval maxBytes d =
     then_loop (run (wrap_error ''failed to create wal dir'' sys_mkdir_all)) (\<lambda>_ w.
       case loadSegments w of
         None \<Rightarrow> None
       | Some (Inl e, w') \<Rightarrow> Some (Inl (Wrapped ''failed to load segments'' e), w')
       | Some (Inr u, w') \<Rightarrow> Some (Inr u, w'))
     (new_wal syncEvery interval maxBytes d)"

definition starts_flushLoop :: "'z wal_scheme \<Rightarrow> bool" where
  "starts_flushLoop w \<longleftrightarrow> \<not> syncEveryWrite w \<and> 0 < syncInterval w"

section \<open>Append\<close>

text \<open>The record as it is laid out in the log, and its checksum.\<close>

definition record_bytes :: "u64 \<Rightarrow> u64 \<Rightarrow> byte list \<Rightarrow> byte list \<Rightarrow> byte list result" where
  "record_bytes offset timestamp key value =
     (let buf = make_bytes (1 + 8 + 8 + 4 + 4 + length key + length value + 4)
      in rbind (set_byte buf 0 MagicByte) (\<lambda>buf.
         rbind (put64 buf 1 9 offset) (\<lambda>buf.
         rbind (put64 buf 9 17 timestamp) (\<lambda>buf.
         rbind (put32 buf 17 21 (of_nat (length key))) (\<lambda>buf.
         rbind (put32 buf 21 25 (of_nat (length value))) (\<lambda>buf.
         rbind (copy_into buf 25 (25 + length key) key) (\<lambda>buf.
         rbind (copy_into buf (25 + length key) (25 + length key + length value) value) (\<lambda>buf.
         let crcIdx = 25 + length key + length value in
         rbind (slice buf 0 crcIdx) (\<lambda>covered.
         put32 buf crcIdx (crcIdx + 4) (ChecksumIEEE covered))))))))))"

definition update_active :: "(segment \<Rightarrow> segment) \<Rightarrow> 'z wal_scheme \<Rightarrow> 'z wal_scheme" where
  "update_active f w = w\<lparr>segments := (segments w)[active w := f (active_segment w)]\<rparr>"

definition roll :: "('z wal_scheme, unit) prog" where
  "roll =
     and_then (gets active_segment) (\<lambda>seg.
     and_then (sys_sync (logFile seg)) (\<lambda>_.
     and_then (sys_sync (idxFile seg)) (\<lambda>_.
     and_then (gets nextOffset) (\<lambda>next.
     and_then (openSegment next) (\<lambda>newSeg.
     modify (\<lambda>w. w\<lparr>segments := segments w @ [newSeg], active := length (segments w)\<rparr>))))))"

text \<open>
  The second half of \<^verbatim>\<open>Append\<close>, under the lock of the active segment: write the record
  behind the log, its position behind the index, count both, and sync or signal.
\<close>

definition write_record :: "u64 \<Rightarrow> byte list \<Rightarrow> ('z wal_scheme, u64) prog" where
  "write_record offset buf =
     and_then (gets active_segment) (\<lambda>seg.
     let logPos = seg_size seg in
     and_then (sys_seek (logFile seg) (int logPos)) (\<lambda>pos.
     and_then (sys_write (logFile seg) pos buf) (\<lambda>_.
     let idxPos = idxSize seg in
     and_then (sys_seek (idxFile seg) (int idxPos)) (\<lambda>pos.
     and_then (sys_write (idxFile seg) pos (be_bytes 8 (of_nat logPos :: u64))) (\<lambda>_.
     and_then (modify (update_active (\<lambda>seg.
       seg\<lparr>seg_size := seg_size seg + length buf, idxSize := idxSize seg + 8\<rparr>))) (\<lambda>_.
     and_then (modify (\<lambda>w. w\<lparr>nextOffset := nextOffset w + 1\<rparr>)) (\<lambda>_.
     and_then (gets syncEveryWrite) (\<lambda>sync.
     and_then (if sync
               then and_then (sys_sync (logFile seg)) (\<lambda>_. sys_sync (idxFile seg))
               else modify (\<lambda>w. w\<lparr>flushChan := 1\<rparr>)) (\<lambda>_.
     ret offset)))))))))"

text \<open>\<^verbatim>\<open>Append\<close> at the time \<open>now\<close> (nanoseconds, as their 64 bits).\<close>

definition Append :: "u64 \<Rightarrow> byte list \<Rightarrow> byte list \<Rightarrow> ('z wal_scheme, u64) prog" where
  "Append now key value =
     and_then (gets closed) (\<lambda>isClosed.
     if isClosed then fail (Errorf ''wal: closed'') else
     and_then (gets (\<lambda>w. maxSegmentBytes w \<le> int (seg_size (active_segment w)))) (\<lambda>full.
     and_then (if full then roll else ret ()) (\<lambda>_.
     and_then (gets nextOffset) (\<lambda>offset.
     and_then (of_result (record_bytes offset now key value)) (\<lambda>buf.
     write_record offset buf)))))"

section \<open>Read\<close>

text \<open>\<^verbatim>\<open>sort.Search(n, f)\<close>: the least index where \<open>f\<close> holds, by bisection.\<close>

function sort_Search :: "(nat \<Rightarrow> bool) \<Rightarrow> nat \<Rightarrow> nat \<Rightarrow> nat" where
  "sort_Search f i j =
     (if i < j then
        (let h = (i + j) div 2
         in if \<not> f h then sort_Search f (h + 1) j else sort_Search f i h)
      else i)"
  by pat_completeness auto
termination
  by (relation "measure (\<lambda>(f, i, j). j - i)") auto

declare sort_Search.simps [simp del]

definition findSegment :: "u64 \<Rightarrow> segment list \<Rightarrow> segment option" where
  "findSegment offset segs =
     (let idx = sort_Search (\<lambda>i. offset < BaseOffset (segs ! i)) 0 (length segs)
      in if 0 < idx then Some (segs ! (idx - 1))
         else if 0 < length segs \<and> BaseOffset (segs ! 0) \<le> offset then Some (segs ! 0)
         else None)"

text \<open>The bytes \<^verbatim>\<open>Read\<close> rebuilds to check a record it has parsed.\<close>

definition crc_buffer :: "u64 \<Rightarrow> u64 \<Rightarrow> u32 \<Rightarrow> u32 \<Rightarrow> byte list \<Rightarrow> byte list \<Rightarrow> byte list result" where
  "crc_buffer recOffset timestamp keyLen valLen key value =
     (let totalLen = 1 + 24 + length key + length value;
          buf = make_bytes totalLen
      in rbind (set_byte buf 0 MagicByte) (\<lambda>buf.
         rbind (put64 buf 1 9 recOffset) (\<lambda>buf.
         rbind (put64 buf 9 17 timestamp) (\<lambda>buf.
         rbind (put32 buf 17 21 keyLen) (\<lambda>buf.
         rbind (put32 buf 21 25 valLen) (\<lambda>buf.
         rbind (copy_into buf 25 (25 + length key) key) (\<lambda>buf.
         copy_into buf (25 + length key) totalLen value)))))))"

text \<open>The record at the position \<open>pos\<close> of the log file, parsed and checked.\<close>

definition read_record :: "segment \<Rightarrow> nat \<Rightarrow> ('z wal_scheme, Record) prog" where
  "read_record seg pos =
     and_then (sys_read (logFile seg) pos 1) (\<lambda>magic.
     if magic \<noteq> [MagicByte] then fail ErrRecordCorrupt else
     and_then (sys_read_full (logFile seg) (pos + 1) 24) (\<lambda>headerBuf.
     let recOffset = be_word (take 8 headerBuf) :: u64;
         timestamp = be_word (take 8 (drop 8 headerBuf)) :: u64;
         keyLen = be_word (take 4 (drop 16 headerBuf)) :: u32;
         valLen = be_word (take 4 (drop 20 headerBuf)) :: u32
     in
     and_then (sys_read_full (logFile seg) (pos + 25) (unat keyLen)) (\<lambda>key.
     and_then (sys_read_full (logFile seg) (pos + 25 + unat keyLen) (unat valLen)) (\<lambda>value.
     and_then (sys_read_full (logFile seg) (pos + 25 + unat keyLen + unat valLen) 4) (\<lambda>crcBuf.
     let checksum = be_word crcBuf :: u32 in
     and_then (of_result (crc_buffer recOffset timestamp keyLen valLen key value)) (\<lambda>bufForCrc.
     if checksum \<noteq> ChecksumIEEE bufForCrc then fail ErrRecordCorrupt else
     ret \<lparr>r_Magic = MagicByte, r_Offset = recOffset, r_Timestamp = timestamp,
          r_Key = key, r_Value = value, r_Checksum = checksum\<rparr>))))))"

definition Read :: "u64 \<Rightarrow> ('z wal_scheme, Record) prog" where
  "Read offset =
     and_then (gets nextOffset) (\<lambda>next.
     if next \<le> offset then fail ErrOffsetNotFound else
     and_then (gets (\<lambda>w. findSegment offset (segments w))) (\<lambda>found.
     case found of None \<Rightarrow> fail ErrOffsetNotFound | Some seg \<Rightarrow>
     let idxOffset = (offset - BaseOffset seg) * 8 in
     if int (idxSize seg) < sint (idxOffset + 8) then fail ErrOffsetNotFound else
     and_then (sys_seek (idxFile seg) (sint idxOffset)) (\<lambda>pos.
     and_then (sys_read_full (idxFile seg) pos 8) (\<lambda>posBuf.
     let logPos = be_word posBuf :: u64 in
     and_then (sys_seek (logFile seg) (sint logPos)) (read_record seg)))))"

definition NextOffset :: "'z wal_scheme \<Rightarrow> u64" where
  "NextOffset w = nextOffset w"

section \<open>Flush and close\<close>

definition Flush :: "('z wal_scheme, unit) prog" where
  "Flush =
     and_then (gets active_segment) (\<lambda>seg.
     and_then (sys_sync (logFile seg)) (\<lambda>_. sys_sync (idxFile seg)))"

text \<open>
  One turn of \<^verbatim>\<open>flushLoop\<close>: its \<^verbatim>\<open>select\<close> was woken by the token of \<^verbatim>\<open>flushChan\<close>, which it
  takes, or by a tick. Does the loop go on?
\<close>

definition flushLoop_turn :: "bool \<Rightarrow> ('z wal_scheme, bool) prog" where
  "flushLoop_turn fromChan =
     and_then (modify (\<lambda>w. if fromChan then w\<lparr>flushChan := 0\<rparr> else w)) (\<lambda>_.
     and_then (gets closed) (\<lambda>isClosed.
     if isClosed then ret False else and_then (attempt Flush) (\<lambda>_. ret True)))"

text \<open>\<^verbatim>\<open>if err := m(); err != nil { lastErr = err }\<close>.\<close>

definition keep_last :: "go_error option \<Rightarrow> ('s, unit) prog \<Rightarrow> ('s, go_error option) prog" where
  "keep_last lastErr m =
     and_then (attempt m) (\<lambda>r. ret (case r of Inl e \<Rightarrow> Some e | Inr _ \<Rightarrow> lastErr))"

definition close_handle :: "handle \<Rightarrow> handle" where
  "close_handle h = h\<lparr>h_open := False\<rparr>"

fun close_segments :: "nat \<Rightarrow> nat \<Rightarrow> go_error option \<Rightarrow> ('z wal_scheme, go_error option) prog" where
  "close_segments 0 i lastErr = ret lastErr"
| "close_segments (Suc n) i lastErr =
     and_then (gets (\<lambda>w. segments w ! i)) (\<lambda>seg.
     and_then (keep_last lastErr (sys_sync (logFile seg))) (\<lambda>lastErr.
     and_then (keep_last lastErr (sys_sync (idxFile seg))) (\<lambda>lastErr.
     and_then (keep_last lastErr (sys_close (logFile seg))) (\<lambda>lastErr.
     and_then (keep_last lastErr (sys_close (idxFile seg))) (\<lambda>lastErr.
     and_then (modify (\<lambda>w. w\<lparr>segments := (segments w)[i :=
       seg\<lparr>logFile := close_handle (logFile seg), idxFile := close_handle (idxFile seg)\<rparr>]\<rparr>)) (\<lambda>_.
     close_segments n (i + 1) lastErr))))))"

definition Close :: "('z wal_scheme, unit) prog" where
  "Close =
     and_then (gets closed) (\<lambda>isClosed.
     if isClosed then ret () else
     and_then (modify (\<lambda>w. w\<lparr>closed := True\<rparr>)) (\<lambda>_.
     and_then (gets (\<lambda>w. length (segments w))) (\<lambda>n.
     and_then (close_segments n 0 None) (\<lambda>lastErr.
     case lastErr of None \<Rightarrow> ret () | Some e \<Rightarrow> fail e))))"

end
