(* ===== verification/Wal_Log.thy ===== *)
theory Wal_Log
  imports Wal
begin

text \<open>
  What the log promises, for every outcome of the system calls: the relation between the
  files on disk with the segments in memory and the abstract log, a list of entries with
  consecutive offsets; \<open>Append\<close> extends it, \<open>Read\<close> returns its entries, and no failing
  call loses one.
\<close>

section \<open>File names\<close>

lemma decimal_digits: "list_all is_digit (decimal n) \<and> decimal n \<noteq> []"
proof (induction n rule: decimal.induct)
  case (1 n)
  have d: "is_digit (digit k)" if "k < 10" for k
    using that by (simp add: is_digit_def digit_def)
  show ?case
  proof (cases "n < 10")
    case True
    then show ?thesis by (subst (1 2) decimal.simps) (simp add: d)
  next
    case False
    with 1 show ?thesis by (subst (1 2) decimal.simps) (simp add: d)
  qed
qed

lemma digits_value_append1: "digits_value (s @ [c]) = 10 * digits_value s + (of_char c - 48)"
  by (simp add: digits_value_def)

lemma digit_value: "k < 10 \<Longrightarrow> (of_char (digit k) :: nat) - 48 = k"
  by (simp add: digit_def)

lemma digits_value_decimal: "digits_value (decimal n) = n"
proof (induction n rule: decimal.induct)
  case (1 n)
  show ?case
  proof (cases "n < 10")
    case True
    then show ?thesis by (subst decimal.simps) (simp add: digits_value_def digit_value)
  next
    case False
    with 1 show ?thesis by (subst decimal.simps) (simp add: digits_value_append1 digit_value)
  qed
qed

lemma digits_value_zeros: "digits_value (replicate k (digit 0) @ s) = digits_value s"
  by (induction k) (simp_all add: digits_value_def digit_def)

lemma digits_value_pad20: "digits_value (pad20 n) = n"
  by (simp add: pad20_def digits_value_zeros digits_value_decimal)

lemma pad20_digits: "list_all is_digit (pad20 n) \<and> pad20 n \<noteq> []"
  using decimal_digits [of n]
  by (auto simp: pad20_def list_all_iff is_digit_def digit_def)

lemma pad20_inj: "pad20 m = pad20 n \<longleftrightarrow> m = n"
  by (metis digits_value_pad20)

lemma log_name_inj [simp]: "log_name a = log_name b \<longleftrightarrow> a = b"
  by (auto simp: log_name_def pad20_inj dest: unsigned_word_eqI)

lemma idx_name_inj [simp]: "idx_name a = idx_name b \<longleftrightarrow> a = b"
  by (auto simp: idx_name_def pad20_inj dest: unsigned_word_eqI)

lemma log_name_idx_name [simp]: "log_name a \<noteq> idx_name b" "idx_name b \<noteq> log_name a"
proof -
  have "last (log_name a) \<noteq> last (idx_name b)" by (simp add: log_name_def idx_name_def)
  then show "log_name a \<noteq> idx_name b" "idx_name b \<noteq> log_name a" by auto
qed

lemma ParseUint_pad20: "ParseUint (pad20 (unat bo)) = Some bo" for bo :: u64
  using pad20_digits [of "unat bo"] unat_u64_bound [of bo]
  by (simp add: ParseUint_def digits_value_pad20)

lemma log_name_suffix:
  "HasSuffix (log_name bo) ''.log''" "TrimSuffix (log_name bo) ''.log'' = pad20 (unat bo)"
  by (simp_all add: log_name_def HasSuffix_def TrimSuffix_def)

lemma idx_name_suffix: "\<not> HasSuffix (idx_name bo) ''.log''"
  by (simp add: idx_name_def HasSuffix_def)

section \<open>Entries and their layout\<close>

record entry =
  e_Offset :: u64
  e_Timestamp :: u64
  e_Key :: "byte list"
  e_Value :: "byte list"

definition enc_head :: "entry \<Rightarrow> byte list" where
  "enc_head e =
     MagicByte # be_bytes 8 (e_Offset e) @ be_bytes 8 (e_Timestamp e) @
     be_bytes 4 (of_nat (length (e_Key e)) :: u32) @
     be_bytes 4 (of_nat (length (e_Value e)) :: u32)"

definition enc_body :: "entry \<Rightarrow> byte list" where
  "enc_body e = enc_head e @ e_Key e @ e_Value e"

definition enc :: "entry \<Rightarrow> byte list" where
  "enc e = enc_body e @ be_bytes 4 (ChecksumIEEE (enc_body e))"

definition enc_log :: "entry list \<Rightarrow> byte list" where
  "enc_log es = concat (map enc es)"

definition entry_fits :: "entry \<Rightarrow> bool" where
  "entry_fits e \<longleftrightarrow> 29 + length (e_Key e) + length (e_Value e) < 2 ^ 32"

definition record_of :: "entry \<Rightarrow> Record" where
  "record_of e =
     \<lparr>r_Magic = MagicByte, r_Offset = e_Offset e, r_Timestamp = e_Timestamp e,
      r_Key = e_Key e, r_Value = e_Value e, r_Checksum = ChecksumIEEE (enc_body e)\<rparr>"

lemma length_enc_head [simp]: "length (enc_head e) = 25"
  by (simp add: enc_head_def)

lemma length_enc: "length (enc e) = 29 + length (e_Key e) + length (e_Value e)"
  by (simp add: enc_def enc_body_def)

lemma enc_log_simps [simp]:
  "enc_log [] = []" "enc_log (e # es) = enc e @ enc_log es"
  "enc_log (es @ fs) = enc_log es @ enc_log fs"
  by (simp_all add: enc_log_def)

lemma slice_wbuf: "j = length w \<Longrightarrow> j \<le> n \<Longrightarrow> slice (wbuf n w) 0 j = Inr w"
  by (simp add: slice_def) (simp add: wbuf_def)

lemma record_bytes_enc:
  "record_bytes off ts k v =
     Inr (enc \<lparr>e_Offset = off, e_Timestamp = ts, e_Key = k, e_Value = v\<rparr>)"
  by (simp add: record_bytes_def enc_def enc_body_def enc_head_def Let_def buf_simps slice_wbuf)

lemma crc_buffer_body:
  "crc_buffer (e_Offset e) (e_Timestamp e) (of_nat (length (e_Key e))) (of_nat (length (e_Value e)))
     (e_Key e) (e_Value e) = Inr (enc_body e)"
  by (simp add: crc_buffer_def enc_body_def enc_head_def Let_def buf_simps)

section \<open>The index\<close>

text \<open>The index of entries that start at \<open>p\<close>: the position of each, 8 bytes wide.\<close>

fun index_from :: "nat \<Rightarrow> entry list \<Rightarrow> byte list" where
  "index_from p [] = []"
| "index_from p (e # es) = be_bytes 8 (of_nat p :: u64) @ index_from (p + length (enc e)) es"

lemma length_index_from [simp]: "length (index_from p es) = 8 * length es"
  by (induction es arbitrary: p) auto

lemma index_from_append:
  "index_from p (es @ fs) = index_from p es @ index_from (p + length (enc_log es)) fs"
  by (induction es arbitrary: p) (simp_all add: add.assoc)

lemma index_from_nth:
  assumes "i < length es"
  shows "take 8 (drop (8 * i) (index_from p es)) = be_bytes 8 (of_nat (p + length (enc_log (take i es))) :: u64)"
proof -
  have es: "es = take i es @ es ! i # drop (Suc i) es" using assms by (rule id_take_nth_drop)
  have "index_from p es = index_from p (take i es)
      @ be_bytes 8 (of_nat (p + length (enc_log (take i es))) :: u64)
      @ index_from (p + length (enc_log (take i es)) + length (enc (es ! i))) (drop (Suc i) es)"
    by (subst es) (simp add: index_from_append)
  moreover have "8 * i = length (index_from p (take i es))" using assms by simp
  ultimately show ?thesis by (simp del: length_index_from)
qed

lemma enc_log_nth:
  assumes "i < length es"
  shows "drop (length (enc_log (take i es))) (enc_log es) = enc (es ! i) @ enc_log (drop (Suc i) es)"
    and "length (enc_log (take i es)) + length (enc (es ! i)) \<le> length (enc_log es)"
proof -
  have "enc_log es = enc_log (take i es) @ enc (es ! i) @ enc_log (drop (Suc i) es)"
    by (subst id_take_nth_drop [OF assms]) simp
  then show "drop (length (enc_log (take i es))) (enc_log es) = enc (es ! i) @ enc_log (drop (Suc i) es)"
    and "length (enc_log (take i es)) + length (enc (es ! i)) \<le> length (enc_log es)"
    by simp_all
qed

section \<open>Segments and the log\<close>

text \<open>
  A segment holds the entries \<open>es\<close>, the first with offset \<open>b\<close>: its files start with their
  records and with the index of them; what lies behind (a write that failed) is not counted
  by the sizes in memory.
\<close>

definition seg_holds :: "(string \<Rightarrow> byte list) \<Rightarrow> nat \<Rightarrow> segment \<Rightarrow> entry list \<Rightarrow> bool" where
  "seg_holds fb b seg es \<longleftrightarrow>
     BaseOffset seg = of_nat b \<and>
     logFile seg = \<lparr>h_path = log_name (of_nat b), h_open = True\<rparr> \<and>
     idxFile seg = \<lparr>h_path = idx_name (of_nat b), h_open = True\<rparr> \<and>
     seg_size seg = length (enc_log es) \<and> idxSize seg = 8 * length es \<and>
     take (length (enc_log es)) (fb (log_name (of_nat b))) = enc_log es \<and>
     take (8 * length es) (fb (idx_name (of_nat b))) = index_from 0 es \<and>
     length (enc_log es) < 2 ^ 63"

text \<open>Consecutive segments: each starts at the offset where the one before ended.\<close>

fun chain :: "(string \<Rightarrow> byte list) \<Rightarrow> nat \<Rightarrow> segment list \<Rightarrow> entry list list \<Rightarrow> bool" where
  "chain fb b [] ess = (ess = [])"
| "chain fb b (seg # segs) [] = False"
| "chain fb b (seg # segs) (es # ess) = (seg_holds fb b seg es \<and> chain fb (b + length es) segs ess)"

text \<open>Nothing stands in the way of the segments still to come.\<close>

definition clean_from :: "'z world_scheme \<Rightarrow> nat \<Rightarrow> bool" where
  "clean_from w n \<longleftrightarrow>
     (\<forall>k. n \<le> k \<and> k < 2 ^ 64 \<longrightarrow>
        map_of (files w) (log_name (of_nat k)) \<in> {None, Some (FileE [])} \<and>
        map_of (files w) (idx_name (of_nat k)) \<in> {None, Some (FileE [])})"

text \<open>
  The parts of a log: closed segments \<open>segs\<close> with the entries \<open>ess\<close>, none of them empty, and
  the active segment \<open>seg\<close> with the entries \<open>es\<close>.
\<close>

definition layout ::
    "nat \<Rightarrow> segment list \<Rightarrow> entry list list \<Rightarrow> segment \<Rightarrow> entry list \<Rightarrow> 'z wal_scheme \<Rightarrow> bool" where
  "layout b segs ess seg es w \<longleftrightarrow>
     segments w = segs @ [seg] \<and> active w = length segs \<and>
     chain (file_bytes w) b segs ess \<and> [] \<notin> set ess \<and>
     seg_holds (file_bytes w) (b + length (concat ess)) seg es \<and>
     clean_from w (b + length (concat ess) + 1)"

definition entries_ok :: "nat \<Rightarrow> entry list \<Rightarrow> bool" where
  "entries_ok b es \<longleftrightarrow>
     b + length es < 2 ^ 64 \<and>
     (\<forall>i < length es. e_Offset (es ! i) = of_nat (b + i) \<and> entry_fits (es ! i))"

definition counters_ok :: "nat \<Rightarrow> entry list \<Rightarrow> 'z wal_scheme \<Rightarrow> bool" where
  "counters_ok b es w \<longleftrightarrow>
     nextOffset w = of_nat (b + length es) \<and> entries_ok b es \<and> 0 < maxSegmentBytes w \<and> \<not> closed w"

text \<open>The log \<open>w\<close> holds the entries \<open>es\<close>, the first with offset \<open>b\<close>.\<close>

definition log_ok :: "nat \<Rightarrow> entry list \<Rightarrow> 'z wal_scheme \<Rightarrow> bool" where
  "log_ok b es w \<longleftrightarrow>
     (\<exists>segs ess seg es1. layout b segs ess seg es1 w \<and> es = concat ess @ es1) \<and> counters_ok b es w"

lemma log_okI:
  "layout b segs ess seg es w \<Longrightarrow> counters_ok b (concat ess @ es) w \<Longrightarrow> log_ok b (concat ess @ es) w"
  unfolding log_ok_def by blast

subsection \<open>Frame lemmas\<close>

lemma of_nat_u64_inj: "m < 2 ^ 64 \<Longrightarrow> n < 2 ^ 64 \<Longrightarrow> (of_nat m = (of_nat n :: u64)) = (m = n)"
  by (metis unat_of_nat_u64)

lemma chain_length: "chain fb b segs ess \<Longrightarrow> length segs = length ess"
  by (induction fb b segs ess rule: chain.induct) auto

lemma chain_append:
  "length segs = length ess \<Longrightarrow> chain fb b (segs @ segs') (ess @ ess') \<longleftrightarrow>
     chain fb b segs ess \<and> chain fb (b + length (concat ess)) segs' ess'"
  by (induction fb b segs ess rule: chain.induct) (auto simp: add.assoc)

lemma seg_holds_frame:
  assumes "seg_holds fb b seg es" and "fb' (log_name (of_nat b)) = fb (log_name (of_nat b))"
    and "fb' (idx_name (of_nat b)) = fb (idx_name (of_nat b))"
  shows "seg_holds fb' b seg es"
  using assms by (simp add: seg_holds_def)

lemma chain_frame:
  assumes "chain fb b segs ess" and "[] \<notin> set ess" and "b + length (concat ess) \<le> n"
    and "\<And>k. k < n \<Longrightarrow>
      fb' (log_name (of_nat k)) = fb (log_name (of_nat k)) \<and> fb' (idx_name (of_nat k)) = fb (idx_name (of_nat k))"
  shows "chain fb' b segs ess"
  using assms
proof (induction fb b segs ess rule: chain.induct)
  case (3 fb b seg segs es ess)
  then have "b < n" by (cases es) auto
  with 3 show ?case by (auto intro: seg_holds_frame)
qed auto

lemma set_file_wal [simp]:
  "segments (set_file p x w) = segments w" "active (set_file p x w) = active w"
  "nextOffset (set_file p x w) = nextOffset w" "closed (set_file p x w) = closed w"
  "maxSegmentBytes (set_file p x w) = maxSegmentBytes w"
  "syncEveryWrite (set_file p x w) = syncEveryWrite w"
  by (simp_all add: set_file_def)

lemma file_bytes_wal [simp]:
  "file_bytes (w\<lparr>flushChan := c\<rparr>) = file_bytes w" "file_bytes (w\<lparr>segments := ss\<rparr>) = file_bytes w"
  "file_bytes (w\<lparr>active := i\<rparr>) = file_bytes w" "file_bytes (w\<lparr>nextOffset := n\<rparr>) = file_bytes w"
  "file_bytes (w\<lparr>closed := cl\<rparr>) = file_bytes w"
  by (simp_all add: file_bytes_def fun_eq_iff)

lemma layout_frame [simp]:
  "layout b segs ess seg es (w\<lparr>flushChan := c\<rparr>) = layout b segs ess seg es w"
  "layout b segs ess seg es (w\<lparr>script := x\<rparr>) = layout b segs ess seg es w"
  "layout b segs ess seg es (w\<lparr>durable := d\<rparr>) = layout b segs ess seg es w"
  by (simp_all add: layout_def clean_from_def)

lemma counters_frame [simp]:
  "counters_ok b es (w\<lparr>flushChan := c\<rparr>) = counters_ok b es w"
  "counters_ok b es (w\<lparr>script := x\<rparr>) = counters_ok b es w"
  "counters_ok b es (w\<lparr>durable := d\<rparr>) = counters_ok b es w"
  "counters_ok b es (set_file p bs w) = counters_ok b es w"
  by (simp_all add: counters_ok_def)

lemma log_ok_frame [simp]:
  "log_ok b es (w\<lparr>flushChan := c\<rparr>) = log_ok b es w"
  "log_ok b es (w\<lparr>script := x\<rparr>) = log_ok b es w"
  "log_ok b es (w\<lparr>durable := d\<rparr>) = log_ok b es w"
  by (simp_all add: log_ok_def)

lemma log_ok_cache_only: "cache_only (log_ok b es)"
  by (simp add: cache_only_def stable_def)

text \<open>A write to the log or index file of the active segment behind its sizes.\<close>

lemma layout_write:
  assumes l: "layout b segs ess seg es w" and m: "m = b + length (concat ess)"
    and bound: "m < 2 ^ 64"
    and p: "p = log_name (of_nat m) \<or> p = idx_name (of_nat m)"
    and keep: "seg_holds ((file_bytes w)(p := x)) m seg es"
  shows "layout b segs ess seg es (set_file p x w)"
proof -
  have other: "file_bytes (set_file p x w) q = file_bytes w q" if "q \<noteq> p" for q
    using that by simp
  have names: "log_name (of_nat k) \<noteq> p \<and> idx_name (of_nat k) \<noteq> p" if "k \<noteq> m" "k < 2 ^ 64" for k
    using p bound that by (auto simp: of_nat_u64_inj)
  have "chain (file_bytes (set_file p x w)) b segs ess"
  proof (rule chain_frame)
    show "chain (file_bytes w) b segs ess" "[] \<notin> set ess" using l by (simp_all add: layout_def)
    show "b + length (concat ess) \<le> m" by (simp add: m)
  next
    fix k assume "k < m"
    then have "log_name (of_nat k) \<noteq> p \<and> idx_name (of_nat k) \<noteq> p" using names [of k] bound by simp
    then show "file_bytes (set_file p x w) (log_name (of_nat k)) = file_bytes w (log_name (of_nat k)) \<and>
        file_bytes (set_file p x w) (idx_name (of_nat k)) = file_bytes w (idx_name (of_nat k))"
      by simp
  qed
  moreover have "clean_from (set_file p x w) (m + 1)"
    unfolding clean_from_def
  proof (intro allI impI)
    fix k assume k: "m + 1 \<le> k \<and> k < 2 ^ 64"
    then have "log_name (of_nat k) \<noteq> p \<and> idx_name (of_nat k) \<noteq> p" using names [of k] by simp
    moreover from l k have
      "map_of (files w) (log_name (of_nat k)) \<in> {None, Some (FileE [])} \<and>
       map_of (files w) (idx_name (of_nat k)) \<in> {None, Some (FileE [])}"
      unfolding layout_def clean_from_def m by blast
    ultimately show "map_of (files (set_file p x w)) (log_name (of_nat k)) \<in> {None, Some (FileE [])} \<and>
       map_of (files (set_file p x w)) (idx_name (of_nat k)) \<in> {None, Some (FileE [])}"
      by (simp add: map_of_set_file)
  qed
  moreover have "file_bytes (set_file p x w) = (file_bytes w)(p := x)" by (simp add: fun_eq_iff)
  ultimately show ?thesis using l keep by (simp add: layout_def m)
qed

section \<open>Append\<close>

definition next_entry :: "nat \<Rightarrow> entry list \<Rightarrow> u64 \<Rightarrow> byte list \<Rightarrow> byte list \<Rightarrow> entry" where
  "next_entry b es now key value =
     \<lparr>e_Offset = of_nat (b + length es), e_Timestamp = now, e_Key = key, e_Value = value\<rparr>"

text \<open>The room one more entry needs: an offset, and a log of less than 2^63 bytes.\<close>

definition room_for :: "nat \<Rightarrow> entry list \<Rightarrow> entry \<Rightarrow> bool" where
  "room_for b es e \<longleftrightarrow>
     b + length es + 1 < 2 ^ 64 \<and> length (enc_log (es @ [e])) < 2 ^ 63 \<and> entry_fits e"

lemma entries_ok_snoc:
  assumes "entries_ok b es" and "room_for b es e" and "e_Offset e = of_nat (b + length es)"
  shows "entries_ok b (es @ [e])"
  using assms by (auto simp: entries_ok_def room_for_def nth_append less_Suc_eq)

lemma take_eq_length: "take n xs = ys \<Longrightarrow> length ys = n \<Longrightarrow> n \<le> length xs"
  by (metis length_take min.cobounded1)

lemma length_files:
  assumes "seg_holds fb m seg es"
  shows "seg_size seg \<le> length (fb (log_name (of_nat m)))" "idxSize seg \<le> length (fb (idx_name (of_nat m)))"
proof -
  from assms have "take (seg_size seg) (fb (log_name (of_nat m))) = enc_log es"
    and "seg_size seg = length (enc_log es)" by (simp_all add: seg_holds_def)
  then show "seg_size seg \<le> length (fb (log_name (of_nat m)))" by (metis take_eq_length)
  from assms have "take (idxSize seg) (fb (idx_name (of_nat m))) = index_from 0 es"
    and "idxSize seg = length (index_from 0 es)" by (simp_all add: seg_holds_def)
  then show "idxSize seg \<le> length (fb (idx_name (of_nat m)))" by (metis take_eq_length)
qed

lemma seg_holds_write:
  assumes "seg_holds fb m seg es"
  shows "seg_holds (fb(log_name (of_nat m) := write_at (seg_size seg) bs (fb (log_name (of_nat m))))) m seg es"
    and "seg_holds (fb(idx_name (of_nat m) := write_at (idxSize seg) bs (fb (idx_name (of_nat m))))) m seg es"
  using assms length_files [OF assms] by (simp_all add: seg_holds_def)

text \<open>The state while a record is being written: its bytes are in the log, then in the index.\<close>

definition logged :: "nat \<Rightarrow> entry list \<Rightarrow> 'z wal_scheme \<Rightarrow> bool" where
  "logged m es w \<longleftrightarrow> take (length (enc_log es)) (file_bytes w (log_name (of_nat m))) = enc_log es"

definition indexed :: "nat \<Rightarrow> entry list \<Rightarrow> 'z wal_scheme \<Rightarrow> bool" where
  "indexed m es w \<longleftrightarrow> take (8 * length es) (file_bytes w (idx_name (of_nat m))) = index_from 0 es"

lemma logged_frame [simp]:
  "logged m es (w\<lparr>script := x\<rparr>) = logged m es w" "logged m es (w\<lparr>durable := d\<rparr>) = logged m es w"
  by (simp_all add: logged_def)

lemma indexed_frame [simp]:
  "indexed m es (w\<lparr>script := x\<rparr>) = indexed m es w" "indexed m es (w\<lparr>durable := d\<rparr>) = indexed m es w"
  by (simp_all add: indexed_def)

text \<open>What the two updates of \<open>write_record\<close> establish once the bytes are there.\<close>

lemma layout_extend:
  assumes l: "layout b segs ess seg es w" and m: "m = b + length (concat ess)"
    and "logged m (es @ [e]) w" and "indexed m (es @ [e]) w"
    and "length (enc_log (es @ [e])) < 2 ^ 63"
  shows "layout b segs ess
      (seg\<lparr>seg_size := seg_size seg + length (enc e), idxSize := idxSize seg + 8\<rparr>) (es @ [e])
      ((update_active (\<lambda>seg. seg\<lparr>seg_size := seg_size seg + length (enc e), idxSize := idxSize seg + 8\<rparr>) w)
        \<lparr>nextOffset := n\<rparr>)"
proof -
  let ?w = "(update_active (\<lambda>seg. seg\<lparr>seg_size := seg_size seg + length (enc e),
      idxSize := idxSize seg + 8\<rparr>) w)\<lparr>nextOffset := n\<rparr>"
  have fb: "file_bytes ?w = file_bytes w" and f: "files ?w = files w"
    by (simp_all add: update_active_def file_bytes_def fun_eq_iff)
  show ?thesis
    using assms unfolding layout_def fb clean_from_def f
    by (simp add: update_active_def active_segment_def seg_holds_def logged_def indexed_def nth_append)
qed

lemma write_record_triple:
  assumes m: "m = b + length (concat ess)" and bound: "m < 2 ^ 64"
    and room: "room_for b (concat ess @ es) e" and off: "e_Offset e = of_nat (b + length (concat ess @ es))"
    and size: "length (enc_log (es @ [e])) < 2 ^ 63"
  shows "triple (\<lambda>w. layout b segs ess seg es w \<and> counters_ok b (concat ess @ es) w)
     (write_record offset (enc e))
     (\<lambda>r w. r = offset \<and> log_ok b (concat ess @ es @ [e]) w)
     (\<lambda>_ w. log_ok b (concat ess @ es) w \<or> log_ok b (concat ess @ es @ [e]) w)"
proof -
  let ?A = "\<lambda>w. layout b segs ess seg es w \<and> counters_ok b (concat ess @ es) w"
  let ?E = "\<lambda>e' :: go_error. \<lambda>w. log_ok b (concat ess @ es) w \<or> log_ok b (concat ess @ es @ [e]) w"
  let ?B = "log_ok b (concat ess @ es @ [e])"
  let ?L = "\<lambda>w. ?A w \<and> logged m (es @ [e]) w" and ?LI = "\<lambda>w. ?A w \<and> logged m (es @ [e]) w \<and> indexed m (es @ [e]) w"
  have A_E: "?A w \<Longrightarrow> ?E x w" for w x by (blast intro: log_okI)
  have L_E: "?L w \<Longrightarrow> ?E x w" for w x using A_E by blast
  have hold: "?A w \<Longrightarrow> seg_holds (file_bytes w) m seg es" for w by (simp add: layout_def m)
  have segE: "h_path (logFile seg) = log_name (of_nat m)" "h_path (idxFile seg) = idx_name (of_nat m)"
    "seg_size seg = length (enc_log es)" "idxSize seg = 8 * length es" if "?A w" for w
    using hold [OF that] by (simp_all add: seg_holds_def)
  have log_write: "?A (set_file (log_name (of_nat m)) (write_at (seg_size seg) bs (file_bytes w (log_name (of_nat m)))) w)"
    if "?A w" for w bs
    using layout_write [OF conjunct1 [OF that] m bound _ seg_holds_write(1) [OF hold [OF that]], of bs] that
    by simp
  have idx_write: "?A (set_file (idx_name (of_nat m)) (write_at (idxSize seg) bs (file_bytes w (idx_name (of_nat m)))) w)"
    if "?A w" for w bs
    using layout_write [OF conjunct1 [OF that] m bound _ seg_holds_write(2) [OF hold [OF that]], of bs] that
    by simp
  have step1: "triple ?A (sys_write (logFile seg) (seg_size seg) (enc e)) (\<lambda>_. ?L) ?E"
  proof (rule triple_write)
    show "stable ?A" by (simp add: stable_def)
    fix s assume A: "?A s"
    let ?s = "\<lambda>bs. set_file (h_path (logFile seg)) (write_at (seg_size seg) bs (file_bytes s (h_path (logFile seg)))) s"
    have A': "?A (?s bs)" for bs using log_write [OF A, of bs] segE(1) [OF A] by simp
    have "logged m (es @ [e]) (?s (enc e))"
      using length_files [OF hold [OF A]] hold [OF A] segE [OF A]
      by (simp add: logged_def take_write_at_all seg_holds_def)
    with A' show "?L (?s (enc e))" by blast
    fix x n show "?E x (?s (take n (enc e)))" using A' A_E by blast
  qed (rule A_E)
  have step2: "triple ?L (sys_write (idxFile seg) (idxSize seg) (be_bytes 8 (of_nat (seg_size seg) :: u64)))
      (\<lambda>_. ?LI) ?E"
  proof (rule triple_write)
    show "stable ?L" by (simp add: stable_def)
    fix s assume L: "?L s"
    then have A: "?A s" by blast
    let ?s = "\<lambda>bs. set_file (h_path (idxFile seg)) (write_at (idxSize seg) bs (file_bytes s (h_path (idxFile seg)))) s"
    have A': "?A (?s bs)" for bs using idx_write [OF A, of bs] segE(2) [OF A] by simp
    have "indexed m (es @ [e]) (?s (be_bytes 8 (of_nat (seg_size seg) :: u64)))"
      using length_files [OF hold [OF A]] hold [OF A] segE [OF A]
      by (simp add: indexed_def take_write_at_all seg_holds_def index_from_append)
    moreover have "logged m (es @ [e]) (?s bs)" for bs
      using L segE(2) [OF A] by (simp add: logged_def)
    ultimately show "?LI (?s (be_bytes 8 (of_nat (seg_size seg) :: u64)))" using A' by blast
    fix x n show "?E x (?s (take n (be_bytes 8 (of_nat (seg_size seg) :: u64))))" using A' A_E by blast
  qed (use A_E in blast)
  have step3: "?B ((update_active (\<lambda>seg. seg\<lparr>seg_size := seg_size seg + length (enc e), idxSize := idxSize seg + 8\<rparr>) w)
      \<lparr>nextOffset := nextOffset w + 1\<rparr>)" if "?LI w" for w
  proof -
    have "counters_ok b (concat ess @ es @ [e]) ((update_active (\<lambda>seg. seg\<lparr>seg_size := seg_size seg + length (enc e),
        idxSize := idxSize seg + 8\<rparr>) w)\<lparr>nextOffset := nextOffset w + 1\<rparr>)"
      using that entries_ok_snoc [OF _ room off] by (simp add: counters_ok_def update_active_def)
    moreover have "layout b segs ess
        (seg\<lparr>seg_size := seg_size seg + length (enc e), idxSize := idxSize seg + 8\<rparr>) (es @ [e])
        ((update_active (\<lambda>seg. seg\<lparr>seg_size := seg_size seg + length (enc e), idxSize := idxSize seg + 8\<rparr>) w)
          \<lparr>nextOffset := nextOffset w + 1\<rparr>)"
      using that by (intro layout_extend [OF _ m _ _ size]) auto
    ultimately show ?thesis using log_okI by fastforce
  qed
  have stable: "stable ?A" "stable ?L" by (simp_all add: stable_def)
  have tail: "triple ?B (and_then (gets syncEveryWrite) (\<lambda>sync.
        and_then (if sync then and_then (sys_sync (logFile seg)) (\<lambda>_. sys_sync (idxFile seg))
                  else modify (\<lambda>w. w\<lparr>flushChan := 1\<rparr>)) (\<lambda>_. ret offset)))
       (\<lambda>r w. r = offset \<and> ?B w) ?E"
    by (rule triple_and_then [where R = "\<lambda>_. ?B"], rule triple_gets, assumption,
        rule triple_and_then [where R = "\<lambda>_. ?B"], rule triple_if,
        rule triple_and_then [where R = "\<lambda>_. ?B"], 
        (rule triple_sync, rule log_ok_cache_only, blast)+, rule triple_modify, simp,
        rule triple_ret, simp)
  show ?thesis
    unfolding write_record_def Let_def
    apply (rule triple_and_then [where R = "\<lambda>a w. ?A w \<and> a = seg"])
     apply (rule triple_gets, simp add: active_segment_def layout_def)
    apply (rule triple_known, hypsubst)
    apply (rule triple_and_then [OF triple_seek [OF stable(1) A_E]], assumption)
    apply (rule triple_known, hypsubst, unfold nat_int)
    apply (rule triple_and_then [OF step1])
    apply (rule triple_and_then [OF triple_seek [OF stable(2) L_E]], assumption)
    apply (rule triple_known, hypsubst, unfold nat_int)
    apply (rule triple_and_then [OF step2])
    apply (rule triple_and_then [where R = "\<lambda>_ w. ?B (w\<lparr>nextOffset := nextOffset w + 1\<rparr>)"])
     apply (rule triple_modify)
     apply (drule step3, simp add: update_active_def)
    apply (rule triple_and_then [where R = "\<lambda>_. ?B"])
     apply (rule triple_modify, assumption)
    apply (rule tail)
    done
qed

lemma layout_touch:
  assumes l: "layout b segs ess seg es w" and n: "b + length (concat ess) < n" "n < 2 ^ 64"
    and p: "p = log_name (of_nat n) \<or> p = idx_name (of_nat n)"
  shows "layout b segs ess seg es (set_file p [] w)"
proof -
  let ?m = "b + length (concat ess)"
  have keep: "file_bytes (set_file p [] w) (log_name (of_nat k)) = file_bytes w (log_name (of_nat k)) \<and>
      file_bytes (set_file p [] w) (idx_name (of_nat k)) = file_bytes w (idx_name (of_nat k))"
    if "k < n" for k
    using p n that by (auto simp: of_nat_u64_inj)
  have "chain (file_bytes (set_file p [] w)) b segs ess"
  proof (rule chain_frame)
    show "chain (file_bytes w) b segs ess" "[] \<notin> set ess" using l by (simp_all add: layout_def)
    show "b + length (concat ess) \<le> ?m" by simp
    fix k assume "k < ?m"
    then show "file_bytes (set_file p [] w) (log_name (of_nat k)) = file_bytes w (log_name (of_nat k)) \<and>
      file_bytes (set_file p [] w) (idx_name (of_nat k)) = file_bytes w (idx_name (of_nat k))"
      using keep n(1) by simp
  qed
  moreover have "seg_holds (file_bytes (set_file p [] w)) ?m seg es"
  proof (rule seg_holds_frame)
    show "seg_holds (file_bytes w) ?m seg es" using l by (simp add: layout_def)
  qed (use keep [OF n(1)] in \<open>simp_all only:\<close>)
  moreover have "clean_from (set_file p [] w) (?m + 1)"
    using l unfolding layout_def clean_from_def map_of_set_file by simp
  ultimately show ?thesis using l by (simp add: layout_def)
qed

lemma layout_ahead:
  assumes "layout b segs ess seg es w" and "b + length (concat ess) < n" "n < 2 ^ 64"
    and "p = log_name (of_nat n) \<or> p = idx_name (of_nat n)"
  shows "map_of (files w) p \<in> {None, Some (FileE [])}" and "file_bytes w p = []"
proof -
  show "map_of (files w) p \<in> {None, Some (FileE [])}"
    using assms unfolding layout_def clean_from_def by (metis Suc_eq_plus1 Suc_leI)
  then show "file_bytes w p = []" by (auto simp: file_bytes_def)
qed

definition fresh_segment :: "nat \<Rightarrow> segment" where
  "fresh_segment n =
     \<lparr>BaseOffset = of_nat n,
      logFile = \<lparr>h_path = log_name (of_nat n), h_open = True\<rparr>,
      idxFile = \<lparr>h_path = idx_name (of_nat n), h_open = True\<rparr>,
      seg_size = 0, idxSize = 0\<rparr>"

lemma openSegment_triple:
  fixes C :: "'z wal_scheme \<Rightarrow> bool"
  assumes n: "b + length (concat ess) < n" "n < 2 ^ 64"
    and C_def: "C = (\<lambda>w. layout b segs ess seg es w \<and> counters_ok b es' w)"
  shows "triple C (openSegment (of_nat n)) (\<lambda>s w. C w \<and> s = fresh_segment n) (\<lambda>_. C)"
proof -
  have stable: "stable C" by (simp add: C_def stable_def)
  have open_ok: "triple C (sys_open p) (\<lambda>h w. C w \<and> h = \<lparr>h_path = p, h_open = True\<rparr>) (\<lambda>_. C)"
    if p: "p = log_name (of_nat n) \<or> p = idx_name (of_nat n)" for p
    unfolding sys_open_def
  proof (rule triple_syscall [OF stable])
    show "triple C (\<lambda>s. case map_of (files s) p of None \<Rightarrow> (Inr \<lparr>h_path = p, h_open = True\<rparr>, set_file p [] s)
        | Some DirE \<Rightarrow> (Inl (OsError ''is a directory''), s)
        | Some (FileE b) \<Rightarrow> (Inr \<lparr>h_path = p, h_open = True\<rparr>, s))
       (\<lambda>h w. C w \<and> h = \<lparr>h_path = p, h_open = True\<rparr>) (\<lambda>_. C)"
    proof (rule tripleI)
      fix s assume C: "C s"
      with layout_ahead(1) [OF _ n p] layout_touch [OF _ n p]
      show "case case map_of (files s) p of None \<Rightarrow> (Inr \<lparr>h_path = p, h_open = True\<rparr>, set_file p [] s)
        | Some DirE \<Rightarrow> (Inl (OsError ''is a directory''), s)
        | Some (FileE b) \<Rightarrow> (Inr \<lparr>h_path = p, h_open = True\<rparr>, s) of
         (Inr a, s') \<Rightarrow> C s' \<and> a = \<lparr>h_path = p, h_open = True\<rparr> | (Inl e, s') \<Rightarrow> C s'"
        by (fastforce simp: C_def)
    qed
  qed
  have zero: "triple C (sys_stat \<lparr>h_path = p, h_open = True\<rparr>) (\<lambda>k w. C w \<and> k = 0) (\<lambda>_. C)"
    if p: "p = log_name (of_nat n) \<or> p = idx_name (of_nat n)" for p
    by (rule triple_post [OF triple_stat [OF stable]])
      (use layout_ahead(2) [OF _ n p] in \<open>auto simp: C_def\<close>)
  have close: "triple C (attempt (sys_close h)) (\<lambda>_. C) E" for h E
    by (rule triple_attempt, rule triple_close [OF stable])
  have giveup: "triple C (and_then (attempt (sys_close h)) (\<lambda>_. fail err)) Q (\<lambda>_. C)"
    "triple C (and_then (attempt (sys_close h)) (\<lambda>_. and_then (attempt (sys_close h')) (\<lambda>_. fail err))) Q (\<lambda>_. C)"
    for h h' err Q
    by (rule triple_and_then [OF close] triple_fail | assumption)+
  have att: "triple C (attempt m) (\<lambda>r w. C w \<and> (\<forall>a. r = Inr a \<longrightarrow> a = v)) E"
    if "triple C m (\<lambda>a w. C w \<and> a = v) (\<lambda>_. C)" for m and v :: 'a and E
    by (rule triple_attempt, rule triple_post [OF that]) auto
  show ?thesis
    unfolding openSegment_def
    apply (rule triple_and_then [OF open_ok], simp, rule triple_known, hypsubst)
    apply (rule triple_and_then [OF att [OF open_ok]], simp)
    apply (rule triple_attempted, rule giveup)
    apply (rule triple_and_then [OF att [OF zero]], simp)
    apply (rule triple_attempted, rule giveup)
    apply (rule triple_and_then [OF att [OF zero]], simp)
    apply (rule triple_attempted, rule giveup)
    apply (rule triple_ret, simp add: fresh_segment_def)
    done
qed

text \<open>Rolling from a full (so not empty) active segment to a new one keeps the log.\<close>

lemma layout_roll:
  assumes l: "layout b segs ess seg es w" and "es \<noteq> []"
    and n: "n = b + length (concat ess @ es)"
  shows "layout b (segs @ [seg]) (ess @ [es]) (fresh_segment n) []
      (w\<lparr>segments := segments w @ [fresh_segment n], active := length (segments w)\<rparr>)"
proof -
  have "clean_from w (n + 1)"
    using l unfolding layout_def clean_from_def n by simp
  moreover have "chain (file_bytes w) b (segs @ [seg]) (ess @ [es])"
    using l chain_length [of "file_bytes w" b segs ess] by (simp add: layout_def chain_append)
  ultimately show ?thesis
    using assms by (simp add: layout_def clean_from_def seg_holds_def fresh_segment_def add.assoc)
qed

lemma roll_triple:
  assumes ne: "es1 \<noteq> []"
  shows "triple (\<lambda>w. layout b segs ess seg es1 w \<and> counters_ok b (concat ess @ es1) w) roll
     (\<lambda>_. log_ok b (concat ess @ es1)) (\<lambda>_. log_ok b (concat ess @ es1))"
proof -
  let ?n = "b + length (concat ess @ es1)"
  let ?C = "\<lambda>w. layout b segs ess seg es1 w \<and> counters_ok b (concat ess @ es1) w"
  have C_ok: "?C w \<Longrightarrow> log_ok b (concat ess @ es1) w" for w by (blast intro: log_okI)
  have cache: "cache_only ?C" by (simp add: cache_only_def stable_def)
  show ?thesis
  proof (cases "?n < 2 ^ 64")
    case False
    then show ?thesis by (simp add: triple_def counters_ok_def entries_ok_def)
  next
    case True
    have gap: "b + length (concat ess) < ?n" using ne by (cases es1) auto
    have rolled: "log_ok b (concat ess @ es1)
        (w\<lparr>segments := segments w @ [fresh_segment ?n], active := length (segments w)\<rparr>)" if "?C w" for w
    proof -
      let ?w = "w\<lparr>segments := segments w @ [fresh_segment ?n], active := length (segments w)\<rparr>"
      have "layout b (segs @ [seg]) (ess @ [es1]) (fresh_segment ?n) [] ?w"
        using that by (intro layout_roll [OF _ ne refl]) auto
      moreover have "counters_ok b (concat (ess @ [es1]) @ []) ?w"
        using that by (simp add: counters_ok_def)
      ultimately have "log_ok b (concat (ess @ [es1]) @ []) ?w" by (rule log_okI)
      then show ?thesis by simp
    qed
    show ?thesis
      unfolding roll_def
      apply (rule triple_and_then [where R = "\<lambda>a w. ?C w \<and> a = seg"])
       apply (rule triple_gets, simp add: active_segment_def layout_def)
      apply (rule triple_known, hypsubst)
      apply (rule triple_and_then [OF triple_sync [OF cache C_ok]], assumption)
      apply (rule triple_and_then [OF triple_sync [OF cache C_ok]], assumption)
      apply (rule triple_and_then [where R = "\<lambda>a w. ?C w \<and> a = of_nat ?n"])
       apply (rule triple_gets, simp add: counters_ok_def)
      apply (rule triple_known, hypsubst)
      apply (rule triple_and_then)
       apply (rule triple_post [OF openSegment_triple [OF gap True refl]], assumption, erule C_ok)
      apply (rule triple_known, hypsubst)
      apply (rule triple_modify, erule rolled)
      done
  qed
qed

lemma length_enc_log_suffix: "length (enc_log es1) \<le> length (enc_log (ess @ es1))"
  by simp

lemma log_ok_ex:
  "log_ok b es =
     (\<lambda>w. \<exists>segs ess seg es1. es = concat ess @ es1 \<and>
        layout b segs ess seg es1 w \<and> counters_ok b (concat ess @ es1) w)"
  by (auto simp: log_ok_def fun_eq_iff)

lemma roll_log_ok:
  "triple (\<lambda>w. log_ok b es w \<and> (True \<longrightarrow> 0 < seg_size (active_segment w))) roll
     (\<lambda>_. log_ok b es) (\<lambda>_. log_ok b es)"
proof (rule triple_pre)
  show "triple (\<lambda>w. \<exists>segs ess seg es1. (es = concat ess @ es1 \<and> es1 \<noteq> []) \<and>
      layout b segs ess seg es1 w \<and> counters_ok b (concat ess @ es1) w) roll
     (\<lambda>_. log_ok b es) (\<lambda>_. log_ok b es)"
    by (intro triple_ex triple_pure) (auto intro: roll_triple)
  fix w assume "log_ok b es w \<and> (True \<longrightarrow> 0 < seg_size (active_segment w))"
  then obtain segs ess seg es1 where l: "layout b segs ess seg es1 w" "es = concat ess @ es1" "counters_ok b es w"
    and z: "0 < seg_size (active_segment w)" by (auto simp: log_ok_def)
  from l(1) z have "es1 \<noteq> []" by (auto simp: layout_def active_segment_def seg_holds_def)
  with l show "\<exists>segs ess seg es1. (es = concat ess @ es1 \<and> es1 \<noteq> []) \<and>
      layout b segs ess seg es1 w \<and> counters_ok b (concat ess @ es1) w" by blast
qed

lemma write_record_log_ok:
  assumes room: "room_for b es e" and off: "e_Offset e = of_nat (b + length es)"
  shows "triple (log_ok b es) (write_record offset (enc e))
     (\<lambda>r w. r = offset \<and> log_ok b (es @ [e]) w) (\<lambda>_ w. log_ok b es w \<or> log_ok b (es @ [e]) w)"
  apply (subst (1) log_ok_ex)
  apply (intro triple_ex triple_pure)
  subgoal for segs ess seg es1
    using write_record_triple [of _ b ess es1 e segs seg offset] room off
    by (simp add: room_for_def)
  done

text \<open>The contract of \<open>Append\<close>, whatever the system calls do.\<close>

lemma Append_triple:
  assumes room: "room_for b es (next_entry b es now key value)"
  shows "triple (log_ok b es) (Append now key value)
     (\<lambda>off w. off = of_nat (b + length es) \<and> log_ok b (es @ [next_entry b es now key value]) w)
     (\<lambda>_ w. log_ok b es w \<or> log_ok b (es @ [next_entry b es now key value]) w)"
proof -
  let ?e = "next_entry b es now key value"
  let ?E = "\<lambda>_ w. log_ok b es w \<or> log_ok b (es @ [?e]) w"
  show ?thesis
    unfolding Append_def
    apply (rule triple_and_then [where R = "\<lambda>a w. log_ok b es w \<and> a = False"])
     apply (rule triple_gets, simp add: log_ok_def counters_ok_def)
    apply (rule triple_known, simp only: if_False)
    apply (rule triple_and_then [where R = "\<lambda>full w. log_ok b es w \<and> (full \<longrightarrow> 0 < seg_size (active_segment w))"])
     apply (rule triple_gets, force simp: log_ok_def counters_ok_def)
    apply (rule triple_and_then [where R = "\<lambda>_. log_ok b es"])
     apply (rule triple_if)
      apply (rule triple_post [OF triple_pre [OF roll_log_ok [of b es]]], simp, assumption, blast)
     apply (rule triple_ret, blast)
    apply (rule triple_and_then [where R = "\<lambda>a w. log_ok b es w \<and> a = of_nat (b + length es)"])
     apply (rule triple_gets, simp add: log_ok_def counters_ok_def)
    apply (rule triple_known, hypsubst)
    apply (simp only: record_bytes_enc of_result_def sum.case)
    apply (rule triple_and_then [where R = "\<lambda>a w. log_ok b es w \<and> a = enc ?e"])
     apply (rule triple_ret, simp add: next_entry_def)
    apply (rule triple_known, hypsubst)
    apply (rule write_record_log_ok [OF room], simp add: next_entry_def)
    done
qed

section \<open>Progress\<close>

text \<open>When no call fails, \<open>Append\<close> succeeds.\<close>

lemmas run_defs = and_then_def gets_def modify_def ret_def Let_def sys_seek_def sys_write_def on_handle_def
  syscall_def next_outcome_def sys_sync_def

lemma write_record_succeeds:
  assumes "h_open (logFile (active_segment w))" "h_open (idxFile (active_segment w))" "script w = []"
  shows "\<exists>w'. write_record off buf w = (Inr off, w') \<and> script w' = []"
  using assms by (simp add: write_record_def run_defs update_active_def)

lemma openSegment_succeeds:
  fixes w :: "'z wal_scheme"
  assumes "map_of (files w) (log_name n) \<noteq> Some DirE" "map_of (files w) (idx_name n) \<noteq> Some DirE" "script w = []"
  shows "\<exists>seg w'. openSegment n w = (Inr seg, w') \<and> h_open (logFile seg) \<and> h_open (idxFile seg) \<and>
    script w' = [] \<and> segments w' = segments w \<and> nextOffset w' = nextOffset w"
  using assms
  by (auto simp: openSegment_def run_defs attempt_def sys_open_def sys_stat_def set_file_def AList.update_conv'
      split: option.splits dirent.splits)

lemma active_open:
  assumes "log_ok b es w"
  shows "h_open (logFile (active_segment w)) \<and> h_open (idxFile (active_segment w))"
  using assms by (auto simp: log_ok_def layout_def active_segment_def seg_holds_def)

lemma next_not_dir:
  assumes "log_ok b es w" and "0 < seg_size (active_segment w)"
  shows "map_of (files w) (log_name (nextOffset w)) \<noteq> Some DirE \<and> map_of (files w) (idx_name (nextOffset w)) \<noteq> Some DirE"
proof -
  from assms(1) obtain segs ess seg es1 where l: "layout b segs ess seg es1 w" and es: "es = concat ess @ es1"
    and c: "counters_ok b es w" by (auto simp: log_ok_def)
  from l assms(2) have "es1 \<noteq> []" by (auto simp: layout_def active_segment_def seg_holds_def)
  then have "b + length (concat ess) + 1 \<le> b + length es" unfolding es by (cases es1) auto
  moreover have "b + length es < 2 ^ 64" "nextOffset w = of_nat (b + length es)"
    using c by (simp_all add: counters_ok_def entries_ok_def)
  moreover have "clean_from w (b + length (concat ess) + 1)" using l by (simp add: layout_def)
  ultimately have "map_of (files w) (log_name (nextOffset w)) \<in> {None, Some (FileE [])} \<and>
      map_of (files w) (idx_name (nextOffset w)) \<in> {None, Some (FileE [])}"
    unfolding clean_from_def by metis
  then show ?thesis by auto
qed

lemma roll_succeeds:
  assumes "log_ok b es w" and "0 < seg_size (active_segment w)" and "script w = []"
  shows "\<exists>w'. roll w = (Inr (), w') \<and> script w' = [] \<and>
    h_open (logFile (active_segment w')) \<and> h_open (idxFile (active_segment w'))"
proof -
  let ?seg = "active_segment w"
  define w1 where "w1 = w\<lparr>durable := AList.update (h_path (idxFile ?seg)) (file_bytes w (h_path (idxFile ?seg)))
     (AList.update (h_path (logFile ?seg)) (file_bytes w (h_path (logFile ?seg))) (durable w))\<rparr>"
  have f: "files w1 = files w" "script w1 = []" "nextOffset w1 = nextOffset w" using assms(3) by (simp_all add: w1_def)
  obtain seg w2 where o: "openSegment (nextOffset w) w1 = (Inr seg, w2)" "h_open (logFile seg)" "h_open (idxFile seg)"
      "script w2 = []" "segments w2 = segments w1"
    using openSegment_succeeds [of w1 "nextOffset w"] next_not_dir [OF assms(1,2)] f by auto
  have "roll w = (Inr (), w2\<lparr>segments := segments w2 @ [seg], active := length (segments w2)\<rparr>)"
    using active_open [OF assms(1)] assms(3) o(1) f(3)
    by (simp add: roll_def run_defs w1_def)
  then show ?thesis using o by (simp add: active_segment_def)
qed

lemma Append_succeeds:
  assumes ok: "log_ok b es w" and s: "script w = []"
  shows "\<exists>off w'. Append now key value w = (Inr off, w') \<and> script w' = []"
proof -
  have open': "\<not> closed w" "0 < maxSegmentBytes w" using ok by (simp_all add: log_ok_def counters_ok_def)
  have "\<exists>w'. (if maxSegmentBytes w \<le> int (seg_size (active_segment w)) then roll else ret ()) w = (Inr (), w') \<and>
      script w' = [] \<and> h_open (logFile (active_segment w')) \<and> h_open (idxFile (active_segment w'))"
    using roll_succeeds [OF ok _ s] active_open [OF ok] s open'(2) by (auto simp: ret_def)
  then obtain w1 where w1: "(if maxSegmentBytes w \<le> int (seg_size (active_segment w)) then roll else ret ()) w = (Inr (), w1)"
      "script w1 = []" "h_open (logFile (active_segment w1))" "h_open (idxFile (active_segment w1))" by blast
  let ?off = "nextOffset w1" and ?roll = "if maxSegmentBytes w \<le> int (seg_size (active_segment w)) then roll else ret ()"
  have "Append now key value w = write_record ?off
      (enc \<lparr>e_Offset = ?off, e_Timestamp = now, e_Key = key, e_Value = value\<rparr>) w1"
    using open'(1) by (simp add: Append_def record_bytes_enc of_result_def prog_simps and_then_Inr [where m = ?roll, OF w1(1)])
  then show ?thesis using write_record_succeeds [OF w1(3,4,2)] by metis
qed

end
