(* ===== verification/Wal_Read.thy ===== *)
theory Wal_Read
  imports Wal_Log
begin

text \<open>
  Reading the log: \<open>Read\<close> finds the segment and the index entry of an offset, and returns the
  record appended at it, whatever outcomes the system calls have before it succeeds; a
  record that was overwritten is refused.
\<close>

section \<open>Finding a segment\<close>

text \<open>\<^verbatim>\<open>sort.Search\<close> finds the least index of a monotone predicate.\<close>

lemma sort_Search_correct:
  assumes "i \<le> j" and "\<And>k l. k \<le> l \<Longrightarrow> l < j \<Longrightarrow> f k \<Longrightarrow> f l"
  shows "i \<le> sort_Search f i j \<and> sort_Search f i j \<le> j \<and>
    (\<forall>k. i \<le> k \<and> k < sort_Search f i j \<longrightarrow> \<not> f k) \<and> (\<forall>k. sort_Search f i j \<le> k \<and> k < j \<longrightarrow> f k)"
  using assms
proof (induction f i j rule: sort_Search.induct)
  case (1 f i j)
  let ?h = "(i + j) div 2"
  show ?case
  proof (cases "i < j")
    case False
    then have "sort_Search f i j = i" by (subst sort_Search.simps) simp
    with False 1(3) show ?thesis by (auto dest: le_less_trans)
  next
    case True
    then have h: "i \<le> ?h" "?h < j" by auto
    show ?thesis
    proof (cases "f ?h")
      case True
      have IH: "i \<le> sort_Search f i ?h \<and> sort_Search f i ?h \<le> ?h \<and>
          (\<forall>k. i \<le> k \<and> k < sort_Search f i ?h \<longrightarrow> \<not> f k) \<and> (\<forall>k. sort_Search f i ?h \<le> k \<and> k < ?h \<longrightarrow> f k)"
        using 1(2) [OF \<open>i < j\<close> refl] True h 1(4) by (meson less_trans)
      moreover have "f k" if "?h \<le> k" "k < j" for k using 1(4) [OF that(1,2) True] .
      moreover have "sort_Search f i j = sort_Search f i ?h"
        using \<open>i < j\<close> True by (simp add: sort_Search.simps [of f i j])
      ultimately show ?thesis using h by (metis le_less_linear less_imp_le order.trans)
    next
      case False
      have IH: "?h + 1 \<le> sort_Search f (?h + 1) j \<and> sort_Search f (?h + 1) j \<le> j \<and>
          (\<forall>k. ?h + 1 \<le> k \<and> k < sort_Search f (?h + 1) j \<longrightarrow> \<not> f k) \<and> (\<forall>k. sort_Search f (?h + 1) j \<le> k \<and> k < j \<longrightarrow> f k)"
        using 1(1) [OF \<open>i < j\<close> refl False] h 1(4) by simp
      moreover have "\<not> f k" if "k \<le> ?h" for k using 1(4) [OF that h(2)] False by blast
      moreover have "sort_Search f i j = sort_Search f (?h + 1) j"
        using \<open>i < j\<close> False by (simp add: sort_Search.simps [of f i j])
      ultimately show ?thesis using h by (metis Suc_eq_plus1 not_less_eq_eq order.trans le_add1)
    qed
  qed
qed

lemma chain_nth:
  assumes "chain fb b segs ess" and "j < length segs"
  shows "seg_holds fb (b + length (concat (take j ess))) (segs ! j) (ess ! j)"
  using assms
proof (induction fb b segs ess arbitrary: j rule: chain.induct)
  case (3 fb b seg segs es ess)
  then show ?case by (cases j) (auto simp: add.assoc)
qed auto

lemma length_concat_take_mono:
  "j \<le> k \<Longrightarrow> length (concat (take j ess)) \<le> length (concat (take k ess))"
  by (metis concat_append le_Suc_ex length_append le_add1 take_add)

lemma length_concat_take_Suc:
  "j < length ess \<Longrightarrow> length (concat (take (Suc j) ess)) = length (concat (take j ess)) + length (ess ! j)"
  by (simp add: take_Suc_conv_app_nth)

lemma concat_nth:
  assumes "j < length ess" and "t < length (ess ! j)"
  shows "concat ess ! (length (concat (take j ess)) + t) = ess ! j ! t"
proof -
  have "concat ess = concat (take j ess) @ ess ! j @ concat (drop (Suc j) ess)"
    by (subst id_take_nth_drop [OF assms(1)]) simp
  with assms(2) show ?thesis by (simp add: nth_append)
qed

lemma of_nat_u64_less: "m < 2 ^ 64 \<Longrightarrow> n < 2 ^ 64 \<Longrightarrow> (of_nat m < (of_nat n :: u64)) = (m < n)"
  by (metis unat_of_nat_u64 word_less_nat_alt)

text \<open>The segment \<open>findSegment\<close> picks holds the entry of the offset.\<close>

lemma findSegment_chain:
  assumes c: "chain fb b segs ess" and i: "i < length (concat ess)" and bound: "b + length (concat ess) < 2 ^ 64"
  obtains j t where "j < length segs" and "findSegment (of_nat (b + i)) segs = Some (segs ! j)"
    and "seg_holds fb (b + length (concat (take j ess))) (segs ! j) (ess ! j)"
    and "t < length (ess ! j)" and "i = length (concat (take j ess)) + t"
    and "concat ess ! i = ess ! j ! t"
proof -
  have len: "length segs = length ess" using c by (rule chain_length)
  let ?s = "\<lambda>k. length (concat (take k ess))"
  let ?f = "\<lambda>k. (of_nat (b + i) :: u64) < BaseOffset (segs ! k)"
  have f: "?f k \<longleftrightarrow> i < ?s k" if "k < length segs" for k
  proof -
    have "?s k \<le> length (concat ess)"
      using length_concat_take_mono [of k "length ess" ess] that len by simp
    moreover have "BaseOffset (segs ! k) = of_nat (b + ?s k)"
      using chain_nth [OF c that] by (simp add: seg_holds_def)
    ultimately show ?thesis using bound i
      by (simp only: of_nat_u64_less nat_add_left_cancel_less)
  qed
  define r where "r = sort_Search ?f 0 (length segs)"
  have "r \<le> length segs \<and> (\<forall>k. k < r \<longrightarrow> \<not> ?f k) \<and> (\<forall>k. r \<le> k \<and> k < length segs \<longrightarrow> ?f k)"
    using sort_Search_correct [of 0 "length segs" ?f] f length_concat_take_mono [of _ _ ess]
    unfolding r_def by (smt (verit) le0 le_less_trans less_le_trans)
  then have r: "r \<le> length segs" "\<And>k. k < r \<Longrightarrow> \<not> i < ?s k" "\<And>k. r \<le> k \<Longrightarrow> k < length segs \<Longrightarrow> i < ?s k"
    using f by auto
  have "0 < length segs" using i len by (cases ess) auto
  then have "0 < r" using r(3) [of 0] by (cases r) auto
  then obtain j where j: "r = Suc j" by (cases r) auto
  then have jl: "j < length segs" using r(1) by simp
  have lo: "?s j \<le> i" using r(2) [of j] j by simp
  have hi: "i < ?s (Suc j)"
  proof (cases "r < length segs")
    case True
    then show ?thesis using r(3) [of r] j by simp
  next
    case False
    then show ?thesis using r(1) j i len by simp
  qed
  show ?thesis
  proof (rule that [of j "i - ?s j"])
    show "findSegment (of_nat (b + i)) segs = Some (segs ! j)"
      unfolding findSegment_def Let_def r_def [symmetric] using j by simp
    show "i - ?s j < length (ess ! j)" using lo hi jl len by (simp add: length_concat_take_Suc)
    then show "concat ess ! i = ess ! j ! (i - ?s j)"
      using concat_nth [of j ess "i - ?s j"] jl len lo by simp
    show "seg_holds fb (b + ?s j) (segs ! j) (ess ! j)" using c jl by (rule chain_nth)
  qed (use jl lo in auto)
qed

section \<open>Read\<close>

lemma sint_of_nat_u64: "n < 2 ^ 63 \<Longrightarrow> sint (of_nat n :: u64) = int n"
  by (simp add: signed_of_nat signed_take_bit_int_eq_self)

lemma take_drop_prefix: "k + n \<le> m \<Longrightarrow> take n (drop k (take m xs)) = take n (drop k xs)"
  by (simp add: drop_take min_def)

lemma enc_log_long: "29 * length es \<le> length (enc_log es)"
  by (induction es) (simp_all add: length_enc)

lemma log_ok_chain:
  assumes "log_ok b es w"
  obtains ess where "chain (file_bytes w) b (segments w) ess" and "concat ess = es"
    and "nextOffset w = of_nat (b + length es)" and "entries_ok b es"
proof -
  from assms obtain segs ess seg es1 where l: "layout b segs ess seg es1 w" and es: "es = concat ess @ es1"
    and c: "counters_ok b es w" unfolding log_ok_def by blast
  have "chain (file_bytes w) b (segs @ [seg]) (ess @ [es1])"
    using l chain_length [of "file_bytes w" b segs ess] by (simp add: layout_def chain_append)
  then show ?thesis
    using that [of "ess @ [es1]"] l c es by (simp add: layout_def counters_ok_def)
qed

text \<open>Bytes of the files of a segment.\<close>

lemma index_entry:
  assumes s: "seg_holds fb m seg es" and t: "t < length es"
  shows "take 8 (drop (8 * t) (fb (h_path (idxFile seg)))) = be_bytes 8 (of_nat (length (enc_log (take t es))) :: u64)"
proof -
  let ?f = "fb (idx_name (of_nat m))"
  have "take 8 (drop (8 * t) ?f) = take 8 (drop (8 * t) (take (8 * length es) ?f))"
    using t by (intro take_drop_prefix [symmetric]) simp
  also have "\<dots> = be_bytes 8 (of_nat (length (enc_log (take t es))) :: u64)"
    using s index_from_nth [OF t, of 0] by (simp add: seg_holds_def)
  finally show ?thesis using s by (simp add: seg_holds_def)
qed

text \<open>The bytes of the record \<open>t\<close> in the log file of its segment.\<close>

lemma log_piece:
  assumes s: "seg_holds fb m seg es" and t: "t < length es"
  shows "take (length (enc (es ! t))) (drop (length (enc_log (take t es))) (fb (h_path (logFile seg)))) = enc (es ! t)"
proof -
  let ?f = "fb (log_name (of_nat m))" and ?p = "length (enc_log (take t es))" and ?n = "length (enc (es ! t))"
  have "take ?n (drop ?p ?f) = take ?n (drop ?p (take (length (enc_log es)) ?f))"
    using enc_log_nth(2) [OF t] by (intro take_drop_prefix [symmetric]) simp
  also have "\<dots> = enc (es ! t)"
    using s by (simp add: seg_holds_def enc_log_nth(1) [OF t])
  finally show ?thesis using s by (simp add: seg_holds_def)
qed

lemma take_drop_piece: "k = length a \<Longrightarrow> n = length b \<Longrightarrow> take n (drop k (a @ b @ c)) = b"
  by simp

text \<open>The pieces of a record with the checksum \<open>c\<close>, right or wrong, that lies at \<open>p\<close>.\<close>

lemma raw_pieces:
  assumes raw: "take (length (enc_body e) + 4) (drop p f) = enc_body e @ be_bytes 4 (c :: u32)"
  shows "take 1 (drop p f) = [MagicByte]"
    and "take 24 (drop (p + 1) f) = drop 1 (enc_head e)"
    and "take (length (e_Key e)) (drop (p + 25) f) = e_Key e"
    and "take (length (e_Value e)) (drop (p + 25 + length (e_Key e)) f) = e_Value e"
    and "take 4 (drop (p + 25 + length (e_Key e) + length (e_Value e)) f) = be_bytes 4 c"
proof -
  let ?crc = "be_bytes 4 c"
  have piece: "take n (drop (p + q) f) = take n (drop q (enc_body e @ ?crc))"
    if "q + n \<le> length (enc_body e) + 4" for q n
    using take_drop_prefix [OF that, of "drop p f"] raw by (simp add: add.commute)
  have len: "length (enc_body e) = 25 + length (e_Key e) + length (e_Value e)" by (simp add: enc_body_def)
  show "take 1 (drop p f) = [MagicByte]" "take 24 (drop (p + 1) f) = drop 1 (enc_head e)"
    using piece [of 0 1] piece [of 1 24] len by (simp_all add: enc_body_def enc_head_def)
  show "take (length (e_Key e)) (drop (p + 25) f) = e_Key e"
    using piece [of 25 "length (e_Key e)"] len
      take_drop_piece [of 25 "enc_head e" _ "e_Key e" "e_Value e @ ?crc"] by (simp add: enc_body_def)
  show "take (length (e_Value e)) (drop (p + 25 + length (e_Key e)) f) = e_Value e"
    using piece [of "25 + length (e_Key e)" "length (e_Value e)"] len
      take_drop_piece [of "25 + length (e_Key e)" "enc_head e @ e_Key e" _ "e_Value e" ?crc]
    by (simp add: enc_body_def add.assoc)
  show "take 4 (drop (p + 25 + length (e_Key e) + length (e_Value e)) f) = ?crc"
    using piece [of "25 + length (e_Key e) + length (e_Value e)" 4] len
      take_drop_piece [of "25 + length (e_Key e) + length (e_Value e)" "enc_body e" 4 ?crc "[]"]
    by (simp add: add.assoc)
qed

lemma enc_head_fields:
  assumes "entry_fits e"
  shows "be_word (take 8 (drop 1 (enc_head e))) = e_Offset e"
    and "be_word (take 8 (drop 8 (drop 1 (enc_head e)))) = e_Timestamp e"
    and "be_word (take 4 (drop 16 (drop 1 (enc_head e)))) = (of_nat (length (e_Key e)) :: u32)"
    and "be_word (take 4 (drop 20 (drop 1 (enc_head e)))) = (of_nat (length (e_Value e)) :: u32)"
    and "unat (of_nat (length (e_Key e)) :: u32) = length (e_Key e)"
    and "unat (of_nat (length (e_Value e)) :: u32) = length (e_Value e)"
  using assms by (simp_all add: enc_head_def entry_fits_def unat_of_nat_u32)

lemma be_word_be_bytes_u64: "be_word (be_bytes 8 v) = (v :: u64)"
  by simp

lemma be_word_be_bytes_u32: "be_word (be_bytes 4 v) = (v :: u32)"
  by simp

lemma reads_read1:
  "h_open h \<Longrightarrow> take 1 (drop pos (file_bytes w (h_path h))) = [c] \<Longrightarrow> reads w (sys_read h pos 1) (Inr [c])"
  using reads_read [of h pos w _ 1] by (metis list.distinct(1) take_Nil)

text \<open>
  \<open>at w off seg p\<close>: the offset is before the next one, and its segment \<open>seg\<close> and its index
  entry are there; the entry says that the record lies at \<open>p\<close>.
\<close>

definition at :: "'z wal_scheme \<Rightarrow> u64 \<Rightarrow> segment \<Rightarrow> nat \<Rightarrow> bool" where
  "at w off seg p \<longleftrightarrow>
     off < nextOffset w \<and> findSegment off (segments w) = Some seg \<and>
     h_open (logFile seg) \<and> h_open (idxFile seg) \<and> p < 2 ^ 63 \<and>
     (\<exists>t. (off - BaseOffset seg) * 8 = of_nat (8 * t) \<and> 8 * t + 8 \<le> idxSize seg \<and> 8 * t + 8 < 2 ^ 63 \<and>
       take 8 (drop (8 * t) (file_bytes w (h_path (idxFile seg)))) = be_bytes 8 (of_nat p :: u64)) \<and>
     (\<exists>bo. h_path (logFile seg) = log_name bo) \<and> (\<exists>bo. h_path (idxFile seg) = idx_name bo)"

lemma Read_at:
  assumes at: "at w off seg p" and rec: "reads w (read_record seg p) r"
  shows "reads w (Read off) r"
proof -
  obtain t where before: "off < nextOffset w" and found: "findSegment off (segments w) = Some seg"
    and opened: "h_open (logFile seg)" "h_open (idxFile seg)" and p: "p < 2 ^ 63"
    and idx: "(off - BaseOffset seg) * 8 = of_nat (8 * t)" and t: "8 * t + 8 \<le> idxSize seg" "8 * t + 8 < 2 ^ 63"
    and entry: "take 8 (drop (8 * t) (file_bytes w (h_path (idxFile seg)))) = be_bytes 8 (of_nat p :: u64)"
    using at unfolding at_def by blast
  have sidx: "sint (of_nat (8 * t) :: u64) = int (8 * t)" "sint ((of_nat (8 * t) :: u64) + 8) = int (8 * t + 8)"
    using t(2) sint_of_nat_u64 [of "8 * t"] sint_of_nat_u64 [of "8 * t + 8"] by simp_all
  have spos: "sint (of_nat p :: u64) = int p" using p by (rule sint_of_nat_u64)
  show ?thesis
    unfolding Read_def Let_def
    apply (rule reads_and_then [OF reads_gets [where a = "nextOffset w"]], simp)
    apply (simp only: not_le [THEN iffD2, OF before] if_False)
    apply (rule reads_and_then [OF reads_gets [where a = "Some seg"]], simp add: found)
    apply (simp only: option.case idx sidx)
    apply (subst if_not_P, use t in simp)
    apply (rule reads_and_then [OF reads_seek [OF opened(2)]], simp, unfold nat_int)
    apply (rule reads_and_then [OF reads_read_full [OF opened(2) entry]], simp)
    apply (simp only: be_word_be_bytes_u64 spos)
    apply (rule reads_and_then [OF reads_seek [OF opened(1)]], simp, unfold nat_int)
    apply (rule rec)
    done
qed

text \<open>What is made of a record with the checksum \<open>c\<close>, right or wrong, and of anything else.\<close>

lemma read_record_raw:
  assumes opened: "h_open (logFile seg)" and fits: "entry_fits e"
    and raw: "take (length (enc_body e) + 4) (drop p (file_bytes w (h_path (logFile seg)))) = enc_body e @ be_bytes 4 c"
  shows "reads w (read_record seg p)
    (if c = ChecksumIEEE (enc_body e) then Inr (record_of e) else Inl ErrRecordCorrupt)"
proof -
  note hs = enc_head_fields [OF fits] and piece = raw_pieces [OF raw]
  show ?thesis
    unfolding read_record_def Let_def
    apply (rule reads_and_then [OF reads_read1 [OF opened piece(1)]])
    apply (simp only: simp_thms if_False)
    apply (rule reads_and_then [OF reads_read_full [OF opened piece(2)]], simp)
    apply (simp only: hs)
    apply (rule reads_and_then [OF reads_read_full [OF opened piece(3)]], simp)
    apply (rule reads_and_then [OF reads_read_full [OF opened piece(4)]], simp)
    apply (rule reads_and_then [OF reads_read_full [OF opened piece(5)]], simp)
    apply (simp only: crc_buffer_body of_result_def sum.case be_word_be_bytes_u32)
    apply (rule reads_and_then [OF reads_ret])
    apply (auto simp: record_of_def intro: reads_ret reads_fail)
    done
qed


text \<open>Where the record of an offset lies: the segment, its index and its log.\<close>

lemma located:
  assumes ok: "log_ok b es w" and i: "i < length es"
  obtains seg p where "at w (of_nat (b + i)) seg p"
    and "take (length (enc (es ! i))) (drop p (file_bytes w (h_path (logFile seg)))) = enc (es ! i)"
proof -
  obtain ess where c: "chain (file_bytes w) b (segments w) ess" and es: "concat ess = es"
    and nxt: "nextOffset w = of_nat (b + length es)" and eok: "entries_ok b es"
    by (rule log_ok_chain [OF ok])
  have bound: "b + length es < 2 ^ 64" using eok by (simp add: entries_ok_def)
  obtain j t where j: "j < length (segments w)" and found: "findSegment (of_nat (b + i)) (segments w) = Some (segments w ! j)"
    and s: "seg_holds (file_bytes w) (b + length (concat (take j ess))) (segments w ! j) (ess ! j)"
    and t: "t < length (ess ! j)" and it: "i = length (concat (take j ess)) + t" and e: "es ! i = ess ! j ! t"
    using findSegment_chain [OF c, of i] i bound unfolding es by metis
  have before: "of_nat (b + i) < nextOffset w"
    unfolding nxt using of_nat_u64_less [of "b + i" "b + length es"] i bound by simp
  have bs: "BaseOffset (segments w ! j) = of_nat (b + length (concat (take j ess)))"
    using s by (simp only: seg_holds_def)
  have idx: "(of_nat (b + i) - BaseOffset (segments w ! j)) * 8 = (of_nat (8 * t) :: u64)"
    by (simp add: bs it)
  have t8: "8 * t + 8 \<le> idxSize (segments w ! j)" "8 * t + 8 < 2 ^ 63"
    using s t enc_log_long [of "ess ! j"] by (simp_all add: seg_holds_def)
  have p: "length (enc_log (take t (ess ! j))) < 2 ^ 63"
    using enc_log_nth(2) [OF t] s by (simp add: seg_holds_def)
  have names: "h_open (logFile (segments w ! j))" "h_open (idxFile (segments w ! j))"
      "\<exists>bo. h_path (logFile (segments w ! j)) = log_name bo" "\<exists>bo. h_path (idxFile (segments w ! j)) = idx_name bo"
    using s by (auto simp: seg_holds_def)
  show ?thesis
  proof (rule that)
    show "at w (of_nat (b + i)) (segments w ! j) (length (enc_log (take t (ess ! j))))"
      unfolding at_def using before found names p idx t8 index_entry [OF s t] by blast
  qed (use log_piece [OF s t] e in simp)
qed

lemma enc_raw: "enc e = enc_body e @ be_bytes 4 (ChecksumIEEE (enc_body e))" "length (enc e) = length (enc_body e) + 4"
  by (simp_all add: enc_def)

lemma log_ok_fits: "log_ok b es w \<Longrightarrow> i < length es \<Longrightarrow> entry_fits (es ! i)"
  by (auto simp: log_ok_def counters_ok_def entries_ok_def)

lemma at_open: "at w off seg p \<Longrightarrow> h_open (logFile seg)"
  by (simp add: at_def)

lemma Read_reads:
  assumes ok: "log_ok b es w" and i: "i < length es"
  shows "reads w (Read (of_nat (b + i))) (Inr (record_of (es ! i)))"
proof (rule located [OF ok i])
  fix seg p
  assume at: "at w (of_nat (b + i)) seg p"
    and raw: "take (length (enc (es ! i))) (drop p (file_bytes w (h_path (logFile seg)))) = enc (es ! i)"
  show ?thesis
    using Read_at [OF at read_record_raw [OF at_open [OF at] log_ok_fits [OF ok i]], of "ChecksumIEEE (enc_body (es ! i))"] raw
    by (simp only: enc_raw(2) enc_raw(1) [symmetric] if_True simp_thms)
qed

lemma Read_past:
  assumes "nextOffset w \<le> off"
  shows "reads w (Read off) (Inl ErrOffsetNotFound)"
  unfolding Read_def
  by (rule reads_and_then [OF reads_gets [where a = "nextOffset w"]]) (simp_all add: assms reads_fail)

lemma Read_before:
  assumes ok: "log_ok b es w" and off: "unat off < b"
  shows "reads w (Read off) (Inl ErrOffsetNotFound)"
proof -
  obtain ess where c: "chain (file_bytes w) b (segments w) ess" and es: "concat ess = es"
    and eok: "entries_ok b es"
    by (rule log_ok_chain [OF ok])
  have len: "length (segments w) = length ess" using c by (rule chain_length)
  have less: "off < BaseOffset (segments w ! k)" if "k < length (segments w)" for k
  proof -
    have "length (concat (take k ess)) \<le> length es"
      using length_concat_take_mono [of k "length ess" ess] that len es by simp
    moreover have "BaseOffset (segments w ! k) = of_nat (b + length (concat (take k ess)))"
      using chain_nth [OF c that] by (simp add: seg_holds_def)
    ultimately show ?thesis
      using eok off by (simp add: word_less_nat_alt unat_of_nat_u64 entries_ok_def del: of_nat_add)
  qed
  let ?r = "sort_Search (\<lambda>k. off < BaseOffset (segments w ! k)) 0 (length (segments w))"
  have r: "?r \<le> length (segments w) \<and> (\<forall>k. k < ?r \<longrightarrow> \<not> off < BaseOffset (segments w ! k))"
    using sort_Search_correct [of 0 "length (segments w)" "\<lambda>k. off < BaseOffset (segments w ! k)"] less by blast
  have "?r = 0"
  proof (rule ccontr)
    assume "?r \<noteq> 0"
    with r have "0 < length (segments w)" "\<not> off < BaseOffset (segments w ! 0)" by (metis le_zero_eq neq0_conv, metis neq0_conv)
    with less [of 0] show False by simp
  qed
  then have "findSegment off (segments w) = None"
    unfolding findSegment_def Let_def using less [of 0] by (auto simp: not_le)
  then show ?thesis
    unfolding Read_def
    apply (intro reads_and_then [OF reads_gets [where a = "nextOffset w"]])
     apply simp
    apply (simp add: reads_fail)
    apply (rule impI, rule reads_and_then [OF reads_gets [where a = "None"]])
     apply simp
    apply (simp add: reads_fail)
    done
qed

lemma Read_triple:
  assumes "i < length es"
  shows "triple (log_ok b es) (Read (of_nat (b + i))) (\<lambda>r w. log_ok b es w \<and> r = record_of (es ! i))
    (\<lambda>e w. log_ok b es w \<and> (\<exists>t. e = OsError t))"
  by (rule triple_post [OF reads_triple [OF Read_reads]])
    (use assms log_ok_cache_only [of b es] in \<open>auto simp: cache_only_def\<close>)

section \<open>Damage\<close>

text \<open>Another log file does not matter to where a record is found.\<close>

lemma at_set_file [simp]: "at (set_file (log_name bo) x w) off seg p = at w off seg p"
  by (auto simp: at_def)








section \<open>A log to instantiate the properties with\<close>

definition sample_entry :: entry where
  "sample_entry = \<lparr>e_Offset = 0, e_Timestamp = 7, e_Key = [1], e_Value = [2, 3]\<rparr>"

definition sample_segment :: segment where
  "sample_segment =
     \<lparr>BaseOffset = 0, logFile = \<lparr>h_path = log_name 0, h_open = True\<rparr>,
      idxFile = \<lparr>h_path = idx_name 0, h_open = True\<rparr>, seg_size = 32, idxSize = 8\<rparr>"

definition sample_log :: wal where
  "sample_log =
     \<lparr>files = [(log_name 0, FileE (enc sample_entry)), (idx_name 0, FileE (be_bytes 8 (0 :: u64)))],
      durable = [], script = [], syncEveryWrite = True, syncInterval = 0, maxSegmentBytes = 32,
      segments = [sample_segment], active = 0, nextOffset = 1, closed = False, flushChan = 0\<rparr>"

lemma sample_log_ok: "log_ok 0 [sample_entry] sample_log"
proof -
  have len: "length (enc sample_entry) = 32" by (simp add: length_enc sample_entry_def)
  have "layout 0 [] [] sample_segment [sample_entry] sample_log"
    unfolding layout_def
  proof (intro conjI)
    show "seg_holds (file_bytes sample_log) (0 + length (concat [])) sample_segment [sample_entry]"
      by (simp add: seg_holds_def sample_segment_def sample_log_def file_bytes_def len del: be_bytes.simps)
    show "clean_from sample_log (0 + length (concat []) + 1)"
      unfolding clean_from_def
    proof (intro allI impI)
      fix k :: nat assume k: "0 + length (concat []) + 1 \<le> k \<and> k < 2 ^ 64"
      then have "(of_nat k :: u64) \<noteq> 0" using of_nat_u64_inj [of k 0] by auto
      then show "map_of (files sample_log) (log_name (of_nat k)) \<in> {None, Some (FileE [])} \<and>
          map_of (files sample_log) (idx_name (of_nat k)) \<in> {None, Some (FileE [])}"
        by (simp add: sample_log_def)
    qed
  qed (simp_all add: sample_log_def)
  moreover have "counters_ok 0 (concat [] @ [sample_entry]) sample_log"
    by (simp add: counters_ok_def entries_ok_def entry_fits_def sample_log_def sample_entry_def)
  ultimately have "log_ok 0 (concat [] @ [sample_entry]) sample_log" by (rule log_okI)
  then show ?thesis by simp
qed

section \<open>Properties\<close>

text \<open>
  C1: \<open>Append\<close> under any outcome of the system calls it makes, full active segments and
  failing or partial writes included: a success gives the next offset and the log is the
  old one with exactly this record behind it; after an error the log is the old one, or the
  record was stored all the same (a failed \<^verbatim>\<open>fsync\<close>). No record before it is ever lost.
\<close>

theorem Append_contract:
  assumes "log_ok b es w"
    and "b + length es + 1 < 2 ^ 64" and "29 + length key + length value < 2 ^ 32"
    and "length (enc_log es) + (29 + length key + length value) < 2 ^ 63"
  shows "case Append now key value w of
      (Inr off, w') \<Rightarrow> off = of_nat (b + length es) \<and>
        log_ok b (es @ [\<lparr>e_Offset = off, e_Timestamp = now, e_Key = key, e_Value = value\<rparr>]) w'
    | (Inl err, w') \<Rightarrow> log_ok b es w' \<or>
        log_ok b (es @ [\<lparr>e_Offset = of_nat (b + length es), e_Timestamp = now, e_Key = key, e_Value = value\<rparr>]) w'"
proof -
  have "room_for b es (next_entry b es now key value)"
    using assms by (simp add: room_for_def next_entry_def entry_fits_def length_enc)
  from Append_triple [OF this] assms(1) show ?thesis
    unfolding triple_def next_entry_def by (fastforce split: prod.splits sum.splits)
qed

theorem Append_contract_witness:
  "case Append 9 [4] [5] (sample_log\<lparr>script := [Succeed, Succeed, Succeed, Succeed, Succeed, Succeed, Succeed, Fault 3 ''disk full'']\<rparr>) of
      (Inr off, w') \<Rightarrow> off = 1 \<and>
        log_ok 0 [sample_entry, \<lparr>e_Offset = off, e_Timestamp = 9, e_Key = [4], e_Value = [5]\<rparr>] w'
    | (Inl err, w') \<Rightarrow> log_ok 0 [sample_entry] w' \<or>
        log_ok 0 [sample_entry, \<lparr>e_Offset = 1, e_Timestamp = 9, e_Key = [4], e_Value = [5]\<rparr>] w'"
proof -
  let ?w = "sample_log\<lparr>script := [Succeed, Succeed, Succeed, Succeed, Succeed, Succeed, Succeed, Fault 3 ''disk full'']\<rparr>"
  have "log_ok 0 [sample_entry] ?w" using sample_log_ok by simp
  from Append_contract [OF this, of "[4]" "[5]" 9] show ?thesis
    by (simp add: length_enc sample_entry_def split: prod.splits sum.splits)
qed

text \<open>
  C2: when no system call fails, \<open>Append\<close> does succeed, and reading any offset of the log
  afterwards gives its record: those from before unchanged, and the new one with the key,
  the value and the time it was appended with, and a checksum that matches.
\<close>

theorem Append_then_Read:
  assumes "log_ok b es w" and "script w = []"
    and "b + length es + 1 < 2 ^ 64" and "29 + length key + length value < 2 ^ 32"
    and "length (enc_log es) + (29 + length key + length value) < 2 ^ 63"
  shows "\<exists>w'. Append now key value w = (Inr (of_nat (b + length es)), w') \<and>
     (\<forall>i < length es. Read (of_nat (b + i)) w' = (Inr (record_of (es ! i)), w')) \<and>
     Read (of_nat (b + length es)) w' =
       (Inr (record_of \<lparr>e_Offset = of_nat (b + length es), e_Timestamp = now, e_Key = key, e_Value = value\<rparr>), w') \<and>
     Read (of_nat (b + length es + 1)) w' = (Inl ErrOffsetNotFound, w')"
proof -
  let ?e = "next_entry b es now key value"
  obtain off w' where w': "Append now key value w = (Inr off, w')" "script w' = []"
    using Append_succeeds [OF assms(1,2)] by blast
  have "room_for b es ?e"
    using assms by (simp add: room_for_def next_entry_def entry_fits_def length_enc)
  from triple_Inr [OF Append_triple [OF this] assms(1) w'(1)]
  have off: "off = of_nat (b + length es)" and ok: "log_ok b (es @ [?e]) w'" by simp_all
  have old: "Read (of_nat (b + i)) w' = (Inr (record_of (es ! i)), w')" if "i < length es" for i
    using reads_Nil [OF Read_reads [OF ok, of i] w'(2)] that by (simp add: nth_append)
  have new: "Read (of_nat (b + length es)) w' = (Inr (record_of ?e), w')"
    using reads_Nil [OF Read_reads [OF ok, of "length es"] w'(2)] by simp
  have "nextOffset w' = of_nat (b + length es + 1)"
    using ok by (simp add: log_ok_def counters_ok_def add.assoc)
  then have "Read (of_nat (b + length es + 1)) w' = (Inl ErrOffsetNotFound, w')"
    using reads_Nil [OF Read_past w'(2)] by simp
  with w'(1) off old new show ?thesis unfolding next_entry_def by blast
qed

theorem Append_then_Read_witness:
  "\<exists>w'. Append 9 [4] [5] sample_log = (Inr 1, w') \<and>
     Read 0 w' = (Inr (record_of sample_entry), w') \<and>
     Read 1 w' = (Inr (record_of \<lparr>e_Offset = 1, e_Timestamp = 9, e_Key = [4], e_Value = [5]\<rparr>), w') \<and>
     Read 2 w' = (Inl ErrOffsetNotFound, w')"
  using Append_then_Read [OF sample_log_ok, of "[4]" "[5]" 9]
  by (simp add: sample_log_def length_enc sample_entry_def)

text \<open>
  C21: a read under any outcome of its system calls: it gives the record of its offset, or the
  error of the call that failed, never another record nor \<open>ErrRecordCorrupt\<close> or
  \<open>ErrOffsetNotFound\<close> for a record that is there, and it leaves the log as it was.
\<close>

theorem Read_contract:
  assumes "log_ok b es w" and "i < length es"
  shows "case Read (of_nat (b + i)) w of
      (Inr r, w') \<Rightarrow> r = \<lparr>r_Magic = MagicByte, r_Offset = of_nat (b + i), r_Timestamp = e_Timestamp (es ! i),
          r_Key = e_Key (es ! i), r_Value = e_Value (es ! i), r_Checksum = ChecksumIEEE (enc_body (es ! i))\<rparr> \<and>
        log_ok b es w'
    | (Inl err, w') \<Rightarrow> (\<exists>t. err = OsError t) \<and> log_ok b es w'"
proof -
  have "e_Offset (es ! i) = of_nat (b + i)"
    using assms by (simp add: log_ok_def counters_ok_def entries_ok_def)
  moreover have "case Read (of_nat (b + i)) w of
      (Inr r, w') \<Rightarrow> log_ok b es w' \<and> r = record_of (es ! i)
    | (Inl err, w') \<Rightarrow> log_ok b es w' \<and> (\<exists>t. err = OsError t)"
    using Read_triple [OF assms(2), of b, unfolded triple_def, rule_format, OF assms(1)] by simp
  ultimately show ?thesis
    by (simp add: record_of_def split: prod.splits sum.splits del: of_nat_add)
qed

theorem Read_contract_witness:
  "case Read 0 (sample_log\<lparr>script := [Succeed, Succeed, Fault 0 ''input/output error'']\<rparr>) of
      (Inr r, w') \<Rightarrow> r_Value r = [2, 3] \<and> log_ok 0 [sample_entry] w'
    | (Inl err, w') \<Rightarrow> (\<exists>t. err = OsError t) \<and> log_ok 0 [sample_entry] w'"
proof -
  let ?w = "sample_log\<lparr>script := [Succeed, Succeed, Fault 0 ''input/output error'']\<rparr>"
  have ok: "log_ok 0 [sample_entry] ?w" using sample_log_ok by simp
  have val: "e_Value sample_entry = [2, 3]" by (simp add: sample_entry_def)
  from Read_contract [OF ok, of 0] show ?thesis
    by (simp add: val split: prod.splits sum.splits)
qed



end
