(* ===== verification/Wal_Recover.thy ===== *)
theory Wal_Recover
  imports Wal_Read "HOL-Library.Multiset"
begin

text \<open>
  Opening a log: the scan of a segment, the repair of its index and of a torn header, and
  the log \<open>NewWAL\<close> makes of a directory; and the two kinds of log files the scan does not
  cope with.
\<close>

section \<open>System calls that succeed\<close>

lemma seek_run: "h_open h \<Longrightarrow> script s = [] \<Longrightarrow> sys_seek h (int n) s = (Inr n, s)"
  using reads_Nil [OF reads_seek [of h "int n" s]] by simp

lemma seek0_run: "h_open h \<Longrightarrow> script s = [] \<Longrightarrow> sys_seek h 0 s = (Inr 0, s)"
  using seek_run [of h s 0] by simp

lemma truncate_run:
  "h_open h \<Longrightarrow> script s = [] \<Longrightarrow> n \<le> length (file_bytes s (h_path h)) \<Longrightarrow>
    sys_truncate h n s = (Inr (), set_file (h_path h) (take n (file_bytes s (h_path h))) s)"
  by (simp add: sys_truncate_def prog_simps Let_def)

lemma write_run:
  "h_open h \<Longrightarrow> script s = [] \<Longrightarrow> pos = length (file_bytes s (h_path h)) \<Longrightarrow>
    sys_write h pos bs s = (Inr (), set_file (h_path h) (file_bytes s (h_path h) @ bs) s)"
  by (simp add: sys_write_def prog_simps and_then_def write_at_def)

lemma sync_run:
  "h_open h \<Longrightarrow> script s = [] \<Longrightarrow> \<exists>d. sys_sync h s = (Inr (), s\<lparr>durable := d\<rparr>)"
  by (auto simp: sys_sync_def prog_simps)

section \<open>Scanning a segment\<close>

text \<open>What stops the scan behind the last record: the end, another byte than the magic one, or
  a header that is not complete.\<close>

definition tail_ok :: "byte list \<Rightarrow> bool" where
  "tail_ok tail \<longleftrightarrow> tail = [] \<or> hd tail \<noteq> MagicByte \<or> length tail < 25"

lemma record_size_enc:
  assumes "entry_fits e"
  shows "record_size (of_nat (length (e_Key e))) (of_nat (length (e_Value e))) = length (enc e)"
proof -
  have "(1 + 24 + of_nat (length (e_Key e)) + of_nat (length (e_Value e)) + 4 :: u32) = of_nat (length (enc e))"
    by (simp add: length_enc)
  moreover have "unat (of_nat (length (enc e)) :: u32) = length (enc e)"
    using assms by (intro unat_of_nat_u32) (simp add: entry_fits_def length_enc)
  ultimately show ?thesis by (simp only: record_size_def)
qed

lemma header_size_enc: "entry_fits e \<Longrightarrow> header_size (drop 1 (enc_head e)) = length (enc e)"
  by (simp only: header_size_def enc_head_fields record_size_enc)

lemma index_word:
  assumes "length bs = 8" and "p < 2 ^ 63"
  shows "sint (be_word bs :: u64) = int p \<longleftrightarrow> bs = be_bytes 8 (of_nat p :: u64)"
proof
  assume "sint (be_word bs :: u64) = int p"
  then have "sint (be_word bs :: u64) = sint (of_nat p :: u64)" using sint_of_nat_u64 [OF assms(2)] by simp
  then have "be_word bs = (of_nat p :: u64)" by (rule signed_word_eqI)
  then show "bs = be_bytes 8 (of_nat p :: u64)"
    using be_bytes_be_word [where 'a = 64, of bs] assms(1) by simp
next
  assume "bs = be_bytes 8 (of_nat p :: u64)"
  then show "sint (be_word bs :: u64) = int p" using sint_of_nat_u64 [OF assms(2)] by simp
qed

lemma check_entry_run:
  assumes "h_open (idxFile seg)" and "script s = []" and "p < 2 ^ 63"
    and "idxSize seg = length (file_bytes s (h_path (idxFile seg)))"
  shows "check_entry seg p cnt s =
    (Inr (take 8 (drop (8 * cnt) (file_bytes s (h_path (idxFile seg)))) \<noteq> be_bytes 8 (of_nat p :: u64)), s)"
proof (cases "idxSize seg < cnt * 8 + 8")
  case True
  then have "length (take 8 (drop (8 * cnt) (file_bytes s (h_path (idxFile seg))))) < 8"
    using assms(4) by simp
  then have "take 8 (drop (8 * cnt) (file_bytes s (h_path (idxFile seg)))) \<noteq> be_bytes 8 (of_nat p :: u64)"
    by (metis length_be_bytes less_irrefl)
  with True show ?thesis by (simp add: check_entry_def prog_simps)
next
  case False
  let ?b = "take 8 (drop (8 * cnt) (file_bytes s (h_path (idxFile seg))))"
  have len: "length ?b = 8" using False assms(4) by simp
  have "sys_read_full (idxFile seg) (cnt * 8) 8 s = (Inr ?b, s)"
    using reads_Nil [OF reads_read_full [OF assms(1), of 8 "cnt * 8" s ?b] assms(2)] len by (simp add: mult.commute)
  then show ?thesis
    using False seek_run [OF assms(1,2), of "cnt * 8"] index_word [OF len assms(3)]
    by (simp add: check_entry_def prog_simps del: of_nat_mult)
qed

text \<open>The calls of one turn of the scan, at the header of a record at \<open>p\<close>, whatever it says of its size.\<close>

lemma scan_calls:
  fixes s :: "'z world_scheme"
  assumes opened: "h_open (logFile seg)" "h_open (idxFile seg)" "script s = []"
    and idx: "idxSize seg = length (file_bytes s (h_path (idxFile seg)))"
    and head: "take 25 (drop p (file_bytes s (h_path (logFile seg)))) = MagicByte # hdr" "length hdr = 24"
    and p: "p < seg_size seg" "seg_size seg < 2 ^ 63"
  shows "sys_read (logFile seg) p 1 s = (Inr [MagicByte], s)"
    and "sys_read_full (logFile seg) (p + 1) 24 s = (Inr hdr, s)"
    and "check_entry seg p cnt s =
      (Inr (take 8 (drop (8 * cnt) (file_bytes s (h_path (idxFile seg)))) \<noteq> be_bytes 8 (of_nat p :: u64)), s)"
    and "sys_seek (logFile seg) (int (p + header_size hdr)) s = (Inr (p + header_size hdr), s)"
    and "(seg_size seg \<le> p) = False"
proof -
  let ?f = "file_bytes s (h_path (logFile seg))"
  have piece: "take n (drop (p + q) ?f) = take n (drop q (MagicByte # hdr))" if "q + n \<le> 25" for q n
    using take_drop_prefix [OF that, of "drop p ?f"] head(1) by (simp add: add.commute)
  show "sys_read (logFile seg) p 1 s = (Inr [MagicByte], s)"
    by (rule reads_Nil [OF reads_read1 [OF opened(1)] opened(3)]) (use piece [of 0 1] in simp)
  have "take 24 (drop (p + 1) ?f) = hdr" using piece [of 1 24] head(2) by simp
  then show "sys_read_full (logFile seg) (p + 1) 24 s = (Inr hdr, s)"
    using reads_Nil [OF reads_read_full [OF opened(1), of 24 "p + 1" s hdr] opened(3)] head(2) by simp
  show "check_entry seg p cnt s =
      (Inr (take 8 (drop (8 * cnt) (file_bytes s (h_path (idxFile seg)))) \<noteq> be_bytes 8 (of_nat p :: u64)), s)"
    using p by (intro check_entry_run opened idx) simp
  show "sys_seek (logFile seg) (int (p + header_size hdr)) s = (Inr (p + header_size hdr), s)"
    by (rule seek_run [OF opened(1,3)])
  show "(seg_size seg \<le> p) = False" using p by simp
qed

lemma scan_step:
  fixes s :: "'z world_scheme"
  assumes "h_open (logFile seg)" "h_open (idxFile seg)" "script s = []"
    and "idxSize seg = length (file_bytes s (h_path (idxFile seg)))"
    and "take 25 (drop p (file_bytes s (h_path (logFile seg)))) = MagicByte # hdr" "length hdr = 24"
    and "p < seg_size seg" "seg_size seg < 2 ^ 63"
  shows "scan_log seg p cnt rb s = scan_log seg (p + header_size hdr) (cnt + 1)
    (rb \<or> take 8 (drop (8 * cnt) (file_bytes s (h_path (idxFile seg)))) \<noteq> be_bytes 8 (of_nat p :: u64)) s"
  by (subst scan_log.simps)
    (simp only: scan_calls [OF assms] if_False if_True prod.case sum.case simp_thms)

text \<open>The scan over whole records, with anything behind them.\<close>

lemma scan_prefix:
  fixes s :: "'z world_scheme"
  assumes opened: "h_open (logFile seg)" "h_open (idxFile seg)" "script s = []"
    and idx: "idxSize seg = length (file_bytes s (h_path (idxFile seg)))"
    and size: "seg_size seg = length (file_bytes s (h_path (logFile seg)))" "seg_size seg < 2 ^ 63"
    and bytes: "drop p (file_bytes s (h_path (logFile seg))) = enc_log es @ rest" "p \<le> seg_size seg"
    and fits: "list_all entry_fits es"
  shows "\<exists>rb'. scan_log seg p cnt rb s = scan_log seg (p + length (enc_log es)) (cnt + length es) rb' s \<and>
    (\<not> rb' \<longrightarrow> \<not> rb \<and> take (8 * length es) (drop (8 * cnt) (file_bytes s (h_path (idxFile seg)))) = index_from p es)"
  using bytes fits
proof (induction es arbitrary: p cnt rb)
  case Nil
  show ?case by (intro exI [of _ rb]) simp
next
  case (Cons e es)
  let ?f = "file_bytes s (h_path (logFile seg))" and ?i = "file_bytes s (h_path (idxFile seg))"
  have fits: "entry_fits e" "list_all entry_fits es" using Cons.prems(3) by simp_all
  have d: "drop p ?f = enc e @ enc_log es @ rest" using Cons.prems(1) by simp
  have len: "length ?f = p + length (enc e) + length (enc_log es) + length rest"
    using arg_cong [where f = length, OF d] Cons.prems(2) size(1) by simp
  have nxt: "drop (p + length (enc e)) ?f = enc_log es @ rest"
    using arg_cong [where f = "drop (length (enc e))", OF d] by (simp add: add.commute)
  have "take 25 (drop p ?f) = MagicByte # drop 1 (enc_head e)"
    unfolding d by (simp add: enc_def enc_body_def) (simp add: enc_head_def)
  note step = scan_step [OF opened idx this, unfolded header_size_enc [OF fits(1)]]
  let ?bad = "take 8 (drop (8 * cnt) ?i) \<noteq> be_bytes 8 (of_nat p :: u64)"
  obtain rb' where IH: "scan_log seg (p + length (enc e)) (cnt + 1) (rb \<or> ?bad) s =
        scan_log seg (p + length (enc e) + length (enc_log es)) (cnt + 1 + length es) rb' s"
      "\<not> rb' \<longrightarrow> \<not> (rb \<or> ?bad) \<and> take (8 * length es) (drop (8 * (cnt + 1)) ?i) = index_from (p + length (enc e)) es"
    using Cons.IH [OF nxt _ fits(2), of "cnt + 1" "rb \<or> ?bad"] len size by auto
  have "take (8 * length (e # es)) (drop (8 * cnt) ?i) =
      take 8 (drop (8 * cnt) ?i) @ take (8 * length es) (drop (8 * (cnt + 1)) ?i)"
    by (simp add: take_add [of 8 "8 * length es"] add.commute)
  moreover have "scan_log seg p cnt rb s = scan_log seg (p + length (enc e)) (cnt + 1) (rb \<or> ?bad) s"
    by (rule step) (use len size in \<open>simp_all add: length_enc\<close>)
  ultimately show ?case using IH by (intro exI [of _ rb']) (simp add: add.assoc)
qed

lemma scan_log_run:
  fixes s :: "'z world_scheme"
  assumes opened: "h_open (logFile seg)" "h_open (idxFile seg)" "script s = []"
    and idx: "idxSize seg = length (file_bytes s (h_path (idxFile seg)))"
    and size: "seg_size seg = length (file_bytes s (h_path (logFile seg)))" "seg_size seg < 2 ^ 63"
    and bytes: "file_bytes s (h_path (logFile seg)) = enc_log es @ tail"
    and fits: "list_all entry_fits es" and tail: "tail_ok tail"
  shows "\<exists>rb'. scan_log seg 0 0 False s = Some (Inr (length (enc_log es), length es, rb'), s) \<and>
    (\<not> rb' \<longrightarrow> take (8 * length es) (file_bytes s (h_path (idxFile seg))) = index_from 0 es)"
proof -
  let ?f = "file_bytes s (h_path (logFile seg))" and ?p = "length (enc_log es)"
  obtain rb where pre: "scan_log seg 0 0 False s = scan_log seg ?p (length es) rb s"
    and rb: "\<not> rb \<longrightarrow> take (8 * length es) (file_bytes s (h_path (idxFile seg))) = index_from 0 es"
    using scan_prefix [OF opened idx size, of 0 es tail 0 False] bytes fits by auto
  have t: "drop ?p ?f = tail" and len: "length ?f = ?p + length tail" using bytes by simp_all
  have "\<exists>rb'. scan_log seg ?p (length es) rb s = Some (Inr (?p, length es, rb'), s) \<and> (\<not> rb' \<longrightarrow> \<not> rb)"
  proof (cases "tail = []")
    case True
    then show ?thesis using len size by (subst scan_log.simps) simp
  next
    case False
    then have r: "sys_read (logFile seg) ?p 1 s = (Inr [hd tail], s)"
      using reads_Nil [OF reads_read [OF opened(1) t False, of 1] opened(3)] by (cases tail) auto
    show ?thesis
    proof (cases "hd tail = MagicByte")
      case False
      then show ?thesis using r len size \<open>tail \<noteq> []\<close> by (subst scan_log.simps) (auto intro: exI [of _ True])
    next
      case True
      then have short: "length tail < 25" using tail \<open>tail \<noteq> []\<close> by (simp add: tail_ok_def)
      then have "\<exists>e. sys_read_full (logFile seg) (?p + 1) 24 s = (Inl e, s)"
        using len opened by (simp add: sys_read_full_def prog_simps Let_def) arith
      then show ?thesis using r len size True \<open>tail \<noteq> []\<close> by (subst scan_log.simps) (auto intro: exI [of _ True])
    qed
  qed
  with pre rb show ?thesis by auto
qed

section \<open>A scan that stands still\<close>

text \<open>
  A header whose two lengths make the 32-bit size wrap to zero: the scan never advances.
\<close>

lemma scan_log_stuck:
  fixes s :: "'z world_scheme"
  assumes opened: "h_open (logFile seg)" "h_open (idxFile seg)" "script s = []"
    and idx: "idxSize seg = length (file_bytes s (h_path (idxFile seg)))"
    and head: "take 25 (drop p (file_bytes s (h_path (logFile seg)))) = MagicByte # hdr" "length hdr = 24"
    and p: "p < seg_size seg" "seg_size seg < 2 ^ 63" and zero: "header_size hdr = 0"
  shows "scan_log seg p cnt rb s = None"
proof -
  have "\<not> (seg' = seg \<and> p' = p \<and> s' = s)" if "scan_log seg' p' cnt rb s' = Some r" for seg' p' cnt rb s' r
    using that
  proof (rule scan_log.raw_induct [rotated, where P = "\<lambda>seg' p' cnt rb s' r. \<not> (seg' = seg \<and> p' = p \<and> s' = s)"])
    fix scan seg' p' cnt rb s' r
    assume IH: "\<And>seg' p' cnt rb s' r. scan seg' p' cnt rb s' = Some r \<Longrightarrow> \<not> (seg' = seg \<and> p' = p \<and> s' = s)"
      and body: "(if seg_size seg' \<le> p' then Some (Inr (p', cnt, rb), s') else
      case sys_read (logFile seg') p' 1 s' of
        (Inl e, s) \<Rightarrow> if errors_Is e EOF then Some (Inr (p', cnt, rb), s) else Some (Inl e, s)
      | (Inr magic, s) \<Rightarrow>
          if magic \<noteq> [MagicByte] then Some (Inr (p', cnt, True), s) else
          case sys_read_full (logFile seg') (p' + 1) 24 s of
            (Inl e, s) \<Rightarrow> Some (Inr (p', cnt, True), s)
          | (Inr headerBuf, s) \<Rightarrow>
              (case check_entry seg' p' cnt s of
                 (Inl e, s) \<Rightarrow> Some (Inl e, s)
               | (Inr bad, s) \<Rightarrow>
                   (case sys_seek (logFile seg') (int (p' + header_size headerBuf)) s of
                      (Inl e, s) \<Rightarrow> Some (Inl e, s)
                    | (Inr pos, s) \<Rightarrow>
                        scan seg' (p' + header_size headerBuf) (cnt + 1) (rb \<or> bad) s))) = Some r"
    show "\<not> (seg' = seg \<and> p' = p \<and> s' = s)"
    proof
      assume "seg' = seg \<and> p' = p \<and> s' = s"
      then have eq: "seg' = seg" "p' = p" "s' = s" by simp_all
      have "\<exists>rb'. scan seg p (cnt + 1) rb' s = Some r"
        using body unfolding eq
        by (simp only: scan_calls [OF assms(1-8)] scan_calls(4) [OF assms(1-8), unfolded zero add_0_right] zero add_0_right if_False if_True prod.case sum.case simp_thms) blast
      then show False using IH by blast
    qed
  qed
  from this [of seg p cnt rb s] show ?thesis by (cases "scan_log seg p cnt rb s") auto
qed

section \<open>Changing only some files\<close>

definition same_but :: "string set \<Rightarrow> 'z world_scheme \<Rightarrow> 'z world_scheme \<Rightarrow> bool" where
  "same_but X s s' \<longleftrightarrow>
     s'\<lparr>files := [], durable := []\<rparr> = s\<lparr>files := [], durable := []\<rparr> \<and>
     (\<forall>p. p \<notin> X \<longrightarrow> map_of (files s') p = map_of (files s) p)"

lemma same_but_refl: "same_but X s s"
  by (simp add: same_but_def)

lemma same_but_set_file: "p \<in> X \<Longrightarrow> same_but X s (set_file p b s)"
  unfolding same_but_def by (auto simp: map_of_set_file set_file_def AList.update_conv')

lemma same_but_durable: "same_but X s (s\<lparr>durable := d\<rparr>)"
  by (simp add: same_but_def)

lemma same_but_trans: "same_but X s s' \<Longrightarrow> same_but X s' s'' \<Longrightarrow> same_but X s s''"
  by (simp add: same_but_def)

lemma same_but_mono: "same_but X s s' \<Longrightarrow> X \<subseteq> Y \<Longrightarrow> same_but Y s s'"
  unfolding same_but_def by blast

lemma same_but_field:
  assumes "same_but X s s'" and "\<And>s f d. g (s\<lparr>files := f, durable := d\<rparr>) = g s"
  shows "g s' = g s"
  using assms unfolding same_but_def by metis

lemma same_but_script: "same_but X s s' \<Longrightarrow> script s' = script s"
  by (erule same_but_field) simp

lemma same_but_file: "same_but X s s' \<Longrightarrow> p \<notin> X \<Longrightarrow> file_bytes s' p = file_bytes s p"
  by (simp add: same_but_def file_bytes_def)

section \<open>Rebuilding the index\<close>

lemma rebuild_step:
  fixes s :: "'z world_scheme"
  assumes opened: "h_open (logFile seg)" "h_open (idxFile seg)" "script s = []"
    and head: "take 25 (drop p (file_bytes s (h_path (logFile seg)))) = enc_head e" "entry_fits e"
    and ip: "ip = length (file_bytes s (h_path (idxFile seg)))" and p: "p < seg_size seg"
  shows "rebuild_index seg p ip s = rebuild_index seg (p + length (enc e)) (ip + 8)
    (set_file (h_path (idxFile seg)) (file_bytes s (h_path (idxFile seg)) @ be_bytes 8 (of_nat p :: u64)) s)"
    (is "_ = rebuild_index seg ?q _ ?s")
proof -
  have "sys_read_full (logFile seg) p 25 s = (Inr (enc_head e), s)"
    using reads_Nil [OF reads_read_full [OF opened(1) head(1)] opened(3)] by simp
  moreover have "sys_write (idxFile seg) ip (be_bytes 8 (of_nat p :: u64)) s = (Inr (), ?s)"
    by (rule write_run) (use opened ip in simp_all)
  moreover have "sys_seek (logFile seg) (int ?q) ?s = (Inr ?q, ?s)"
    by (rule seek_run) (use opened in simp_all)
  moreover have "\<not> seg_size seg \<le> p" using p by simp
  ultimately show ?thesis
    by (subst rebuild_index.simps) (simp only: header_size_enc [OF head(2)] if_False prod.case sum.case)
qed

lemma rebuild_index_run:
  fixes s :: "'z world_scheme"
  assumes opened: "h_open (logFile seg)" "h_open (idxFile seg)" "script s = []"
    and other: "h_path (logFile seg) \<noteq> h_path (idxFile seg)"
    and bytes: "drop p (file_bytes s (h_path (logFile seg))) = enc_log es"
    and size: "p + length (enc_log es) = seg_size seg"
    and ip: "ip = length (file_bytes s (h_path (idxFile seg)))"
    and fits: "list_all entry_fits es"
  shows "\<exists>s'. rebuild_index seg p ip s = Some (Inr (), s') \<and> same_but {h_path (idxFile seg)} s s' \<and>
    file_bytes s' (h_path (idxFile seg)) = file_bytes s (h_path (idxFile seg)) @ index_from p es"
  using assms
proof (induction es arbitrary: p ip s)
  case Nil
  then show ?case by (subst rebuild_index.simps) (auto intro: same_but_refl)
next
  case (Cons e es)
  let ?x = "h_path (idxFile seg)" and ?f = "file_bytes s (h_path (logFile seg))"
  define s1 where "s1 = set_file ?x (file_bytes s ?x @ be_bytes 8 (of_nat p :: u64)) s"
  have d: "drop p ?f = enc e @ enc_log es" using Cons.prems by simp
  have nxt: "drop (p + length (enc e)) ?f = enc_log es"
    using arg_cong [where f = "drop (length (enc e))", OF d] by (simp add: add.commute)
  have step: "rebuild_index seg p ip s = rebuild_index seg (p + length (enc e)) (ip + 8) s1"
    unfolding s1_def by (rule rebuild_step) (use Cons.prems d in \<open>simp_all add: enc_def enc_body_def\<close>)
  have s1: "script s1 = []" "file_bytes s1 (h_path (logFile seg)) = ?f"
      "file_bytes s1 ?x = file_bytes s ?x @ be_bytes 8 (of_nat p :: u64)"
    using Cons.prems by (simp_all add: s1_def)
  obtain s' where "rebuild_index seg (p + length (enc e)) (ip + 8) s1 = Some (Inr (), s')"
      "same_but {?x} s1 s'" "file_bytes s' ?x = file_bytes s1 ?x @ index_from (p + length (enc e)) es"
    using Cons.IH [of s1 "p + length (enc e)" "ip + 8"] Cons.prems s1 nxt by (auto simp: add.assoc)
  moreover have "same_but {?x} s s1" unfolding s1_def by (rule same_but_set_file) simp
  ultimately show ?case using step s1 by (auto intro: same_but_trans)
qed

section \<open>Verifying a segment\<close>

lemma run_loop:
  "then_loop (run m) f s = (case m s of (Inl e, s') \<Rightarrow> Some (Inl e, s') | (Inr a, s') \<Rightarrow> f a s')"
  by (simp add: then_loop_def run_def split: prod.splits sum.splits)

lemma then_loop_eq:
  "then_loop m f s = (case m s of None \<Rightarrow> None | Some (Inl e, s') \<Rightarrow> Some (Inl e, s') | Some (Inr a, s') \<Rightarrow> f a s')"
  by (simp add: then_loop_def)

text \<open>
  From what the scan found to what is left on disk: the log is cut at \<open>q\<close>, and the index is \<open>ix\<close>,
  because it was already or because it is rebuilt.
\<close>

lemma verify_scanned:
  fixes s :: "'z world_scheme" and seg :: segment
  defines "l \<equiv> h_path (logFile seg)" and "x \<equiv> h_path (idxFile seg)"
  assumes opened: "h_open (logFile seg)" "h_open (idxFile seg)" "script s = []"
    and other: "h_path (logFile seg) \<noteq> h_path (idxFile seg)"
    and idx: "idxSize seg = length (file_bytes s (h_path (idxFile seg)))"
    and size: "seg_size seg = length (file_bytes s (h_path (logFile seg)))"
    and scan: "scan_log seg 0 0 False s = Some (Inr (q, cnt, rb), s)"
    and rb: "\<not> rb \<longrightarrow> take (8 * cnt) (file_bytes s (h_path (idxFile seg))) = ix"
    and rebuild: "\<And>s2 :: 'z world_scheme. script s2 = [] \<Longrightarrow>
      file_bytes s2 (h_path (logFile seg)) = take q (file_bytes s (h_path (logFile seg))) \<Longrightarrow>
      file_bytes s2 (h_path (idxFile seg)) = [] \<Longrightarrow>
      \<exists>s3. rebuild_index (seg\<lparr>seg_size := min q (seg_size seg)\<rparr>) 0 0 s2 = Some (Inr (), s3) \<and>
        same_but {h_path (idxFile seg)} s2 s3 \<and> file_bytes s3 (h_path (idxFile seg)) = ix"
  shows "\<exists>s'. verifyOrRebuildIndex seg s =
      Some (Inr (seg\<lparr>seg_size := min q (seg_size seg), idxSize := 8 * cnt\<rparr>), s') \<and>
    same_but {l, x} s s' \<and> file_bytes s' l = take q (file_bytes s l) \<and> file_bytes s' x = ix"
proof -
  let ?f = "file_bytes s l" and ?seg = "seg\<lparr>seg_size := min q (seg_size seg)\<rparr>"
  define cut :: "('z world_scheme, segment) prog" where "cut = (if q < seg_size seg
      then and_then (sys_truncate (logFile seg) q) (\<lambda>_. ret (seg\<lparr>seg_size := q\<rparr>)) else ret seg)"
  obtain s1 where s1: "cut s = (Inr ?seg, s1)" "same_but {l, x} s s1"
      "file_bytes s1 l = take q ?f" "file_bytes s1 x = file_bytes s x" "script s1 = []"
  proof (cases "q < seg_size seg")
    case True
    show thesis
    proof (rule that)
      show "cut s = (Inr ?seg, set_file l (take q ?f) s)"
        using True truncate_run [OF opened(1,3), of q] size
        by (simp add: cut_def prog_simps and_then_Inr l_def)
      show "same_but {l, x} s (set_file l (take q ?f) s)" by (rule same_but_set_file) simp
    qed (use other opened in \<open>simp_all add: l_def x_def\<close>)
  next
    case False
    with that [of s] opened size show thesis by (simp add: cut_def prog_simps l_def same_but_refl)
  qed
  have start: "verifyOrRebuildIndex seg s =
     (if rb \<or> idxSize ?seg \<noteq> cnt * 8
      then then_loop (run (sys_truncate (idxFile ?seg) 0)) (\<lambda>_.
          then_loop (run (sys_seek (idxFile ?seg) 0)) (\<lambda>ipos.
          then_loop (run (sys_seek (logFile ?seg) 0)) (\<lambda>lpos.
          then_loop (rebuild_index ?seg lpos ipos) (\<lambda>_.
          then_loop (run (sys_sync (idxFile ?seg))) (\<lambda>_.
          run (ret (?seg\<lparr>idxSize := cnt * 8\<rparr>)))))))
      else run (ret ?seg)) s1"
    unfolding verifyOrRebuildIndex_def
    by (subst run_loop, simp only: seek0_run [OF opened(1,3)] prod.case sum.case)
      (subst then_loop_eq, simp only: scan option.case prod.case sum.case cut_def [symmetric],
       subst run_loop, simp only: s1(1) prod.case sum.case)
  show ?thesis
  proof (cases "rb \<or> idxSize ?seg \<noteq> cnt * 8")
    case False
    then have "file_bytes s x = ix" using rb idx by (simp add: x_def mult.commute)
    with False start s1 show ?thesis
      by (intro exI [of _ s1]) (simp add: run_def prog_simps mult.commute)
  next
    case True
    define s2 where "s2 = set_file x [] s1"
    have o2: "script s2 = []" "file_bytes s2 l = take q ?f" "file_bytes s2 x = []"
      using s1 other by (simp_all add: s2_def l_def x_def)
    have t: "sys_truncate (idxFile ?seg) 0 s1 = (Inr (), s2)"
      using truncate_run [of "idxFile seg" s1 0] opened s1(5) by (simp add: s2_def x_def)
    have sk: "sys_seek (idxFile ?seg) 0 s2 = (Inr 0, s2)" "sys_seek (logFile ?seg) 0 s2 = (Inr 0, s2)"
      using seek0_run opened o2(1) by simp_all
    obtain s3 where s3: "rebuild_index ?seg 0 0 s2 = Some (Inr (), s3)" "same_but {x} s2 s3" "file_bytes s3 x = ix"
      using rebuild [of s2] o2 by (auto simp: l_def x_def)
    have o3: "script s3 = []" "file_bytes s3 l = take q ?f"
      using same_but_script [OF s3(2)] same_but_file [OF s3(2), of l] o2 other by (simp_all add: l_def x_def)
    obtain d where d: "sys_sync (idxFile ?seg) s3 = (Inr (), s3\<lparr>durable := d\<rparr>)"
      using sync_run [of "idxFile seg" s3] opened o3(1) by auto
    have "verifyOrRebuildIndex seg s = Some (Inr (?seg\<lparr>idxSize := cnt * 8\<rparr>), s3\<lparr>durable := d\<rparr>)"
      unfolding start using True
      by (simp only: if_True run_def t sk then_loop_eq s3(1) d option.case prod.case sum.case ret_def)
    moreover have "same_but {l, x} s (s3\<lparr>durable := d\<rparr>)"
    proof -
      have "same_but {l, x} s1 s2" unfolding s2_def by (rule same_but_set_file) simp
      moreover have "same_but {l, x} s2 s3" by (rule same_but_mono [OF s3(2)]) simp
      ultimately show ?thesis using s1(2) same_but_durable by (blast intro: same_but_trans)
    qed
    ultimately show ?thesis
      using o3 s3(3) by (intro exI [of _ "s3\<lparr>durable := d\<rparr>"]) (simp add: mult.commute)
  qed
qed

lemma verify_run:
  fixes s :: "'z world_scheme" and seg :: segment
  defines "l \<equiv> h_path (logFile seg)" and "x \<equiv> h_path (idxFile seg)"
  assumes opened: "h_open (logFile seg)" "h_open (idxFile seg)" "script s = []"
    and other: "h_path (logFile seg) \<noteq> h_path (idxFile seg)"
    and idx: "idxSize seg = length (file_bytes s (h_path (idxFile seg)))"
    and size: "seg_size seg = length (file_bytes s (h_path (logFile seg)))" "seg_size seg < 2 ^ 63"
    and bytes: "file_bytes s (h_path (logFile seg)) = enc_log es @ tail"
    and fits: "list_all entry_fits es" and tail: "tail_ok tail"
  shows "\<exists>s'. verifyOrRebuildIndex seg s =
      Some (Inr (seg\<lparr>seg_size := length (enc_log es), idxSize := 8 * length es\<rparr>), s') \<and>
    same_but {l, x} s s' \<and> file_bytes s' l = enc_log es \<and> file_bytes s' x = index_from 0 es"
proof -
  let ?n = "length (enc_log es)"
  obtain rb where scan: "scan_log seg 0 0 False s = Some (Inr (?n, length es, rb), s)"
    and rb: "\<not> rb \<longrightarrow> take (8 * length es) (file_bytes s (h_path (idxFile seg))) = index_from 0 es"
    using scan_log_run [OF opened idx size bytes fits tail] by auto
  have min: "min ?n (seg_size seg) = ?n" using size bytes by simp
  have "\<exists>s3. rebuild_index (seg\<lparr>seg_size := ?n\<rparr>) 0 0 s2 = Some (Inr (), s3) \<and>
      same_but {h_path (idxFile seg)} s2 s3 \<and> file_bytes s3 (h_path (idxFile seg)) = index_from 0 es"
    if "script s2 = []" "file_bytes s2 (h_path (logFile seg)) = take ?n (file_bytes s (h_path (logFile seg)))"
      "file_bytes s2 (h_path (idxFile seg)) = []" for s2 :: "'z world_scheme"
    using rebuild_index_run [of "seg\<lparr>seg_size := ?n\<rparr>" s2 0 es 0] opened that other fits bytes by auto
  note run = verify_scanned [OF opened other idx size(1) scan rb, unfolded min, OF this]
  have "take ?n (enc_log es @ tail) = enc_log es" by simp
  then show ?thesis using run unfolding l_def x_def bytes by presburger
qed

section \<open>Opening a segment\<close>

lemma sys_open_run:
  fixes w :: "'z world_scheme"
  assumes "map_of (files w) p \<noteq> Some DirE" and "script w = []"
  shows "\<exists>w'. sys_open p w = (Inr \<lparr>h_path = p, h_open = True\<rparr>, w') \<and> same_but {p} w w' \<and> file_bytes w' = file_bytes w"
proof (cases "map_of (files w) p")
  case None
  then have "file_bytes (set_file p [] w) = file_bytes w" by (simp add: fun_eq_iff) (simp add: file_bytes_def)
  with None assms show ?thesis
    by (auto simp: sys_open_def prog_simps intro: same_but_set_file)
next
  case (Some d)
  with assms show ?thesis by (cases d) (auto simp: sys_open_def prog_simps same_but_refl)
qed

lemma sys_stat_run: "h_open h \<Longrightarrow> script w = [] \<Longrightarrow> sys_stat h w = (Inr (length (file_bytes w (h_path h))), w)"
  by (simp add: sys_stat_def prog_simps)

definition opened_segment :: "(string \<Rightarrow> byte list) \<Rightarrow> u64 \<Rightarrow> segment" where
  "opened_segment fb n =
     \<lparr>BaseOffset = n, logFile = \<lparr>h_path = log_name n, h_open = True\<rparr>,
      idxFile = \<lparr>h_path = idx_name n, h_open = True\<rparr>,
      seg_size = length (fb (log_name n)), idxSize = length (fb (idx_name n))\<rparr>"

lemma openSegment_run:
  fixes w :: "'z world_scheme"
  assumes "map_of (files w) (log_name n) \<noteq> Some DirE" and "map_of (files w) (idx_name n) \<noteq> Some DirE"
    and "script w = []"
  shows "\<exists>w'. openSegment n w = (Inr (opened_segment (file_bytes w) n), w') \<and>
    same_but {log_name n, idx_name n} w w' \<and> file_bytes w' = file_bytes w"
proof -
  obtain w1 where w1: "sys_open (log_name n) w = (Inr \<lparr>h_path = log_name n, h_open = True\<rparr>, w1)"
      "same_but {log_name n} w w1" "file_bytes w1 = file_bytes w"
    using sys_open_run [OF assms(1,3)] by blast
  have s1: "script w1 = []" using same_but_script [OF w1(2)] assms(3) by simp
  have "map_of (files w1) (idx_name n) \<noteq> Some DirE" using w1(2) assms(2) by (simp add: same_but_def)
  then obtain w2 where w2: "sys_open (idx_name n) w1 = (Inr \<lparr>h_path = idx_name n, h_open = True\<rparr>, w2)"
      "same_but {idx_name n} w1 w2" "file_bytes w2 = file_bytes w1"
    using sys_open_run s1 by blast
  have s2: "script w2 = []" using same_but_script [OF w2(2)] s1 by simp
  have "openSegment n w = (Inr (opened_segment (file_bytes w) n), w2)"
    using s2 w1(3) w2(3)
    by (simp add: openSegment_def and_then_def attempt_def w1(1) w2(1) opened_segment_def ret_def sys_stat_run)
  moreover have "same_but {log_name n, idx_name n} w w2"
    using same_but_mono [OF w1(2)] same_but_mono [OF w2(2)] by (blast intro: same_but_trans)
  ultimately show ?thesis using w1(3) w2(3) by auto
qed

section \<open>Opening the log\<close>

fun bases :: "nat \<Rightarrow> entry list list \<Rightarrow> u64 list" where
  "bases b [] = []"
| "bases b (es # ess) = of_nat b # bases (b + length es) ess"

text \<open>
  What the directory must hold of a log: every log file starts with the records of its
  segment, behind them at most what stops the scan; the index files may be missing, too
  short, too long or wrong.
\<close>

fun stored :: "nat \<Rightarrow> entry list list \<Rightarrow> 'z world_scheme \<Rightarrow> bool" where
  "stored b [] w = True"
| "stored b (es # ess) w =
     ((\<exists>tail. map_of (files w) (log_name (of_nat b)) = Some (FileE (enc_log es @ tail)) \<and>
         tail_ok tail \<and> length (enc_log es @ tail) < 2 ^ 63) \<and>
      map_of (files w) (idx_name (of_nat b)) \<noteq> Some DirE \<and>
      stored (b + length es) ess w)"

definition names_from :: "nat \<Rightarrow> nat \<Rightarrow> string set" where
  "names_from b n = (\<Union>k \<in> {b..n}. {log_name (of_nat k), idx_name (of_nat k)})"

lemma names_below:
  assumes "k < b \<or> n < k" and "k < 2 ^ 64" and "n < 2 ^ 64"
  shows "log_name (of_nat k) \<notin> names_from b n \<and> idx_name (of_nat k) \<notin> names_from b n"
  using assms by (auto simp: names_from_def of_nat_u64_inj)

lemma stored_frame:
  assumes "stored b ess w" and "[] \<notin> set (butlast ess)" and "b + length (concat (butlast ess)) < 2 ^ 64"
    and "\<And>k. b \<le> k \<Longrightarrow> k < 2 ^ 64 \<Longrightarrow>
      map_of (files w') (log_name (of_nat k)) = map_of (files w) (log_name (of_nat k)) \<and>
      map_of (files w') (idx_name (of_nat k)) = map_of (files w) (idx_name (of_nat k))"
  shows "stored b ess w'"
  using assms
proof (induction b ess w rule: stored.induct)
  case (2 b es ess w)
  have "b < 2 ^ 64" using 2(4) by simp
  moreover have "stored (b + length es) ess w'"
  proof (cases "ess = []")
    case False
    then show ?thesis using 2(2-5) by (intro 2(1)) (auto simp: add.assoc)
  qed simp
  ultimately show ?case using 2(2) 2(5) [of b] by simp
qed simp

lemma seg_holds_verified:
  assumes "fb (log_name (of_nat b)) = enc_log es" and "fb (idx_name (of_nat b)) = index_from 0 es"
    and "length (enc_log es) < 2 ^ 63"
  shows "seg_holds fb b ((opened_segment fb0 (of_nat b))\<lparr>seg_size := length (enc_log es), idxSize := 8 * length es\<rparr>) es"
  using assms by (simp add: seg_holds_def opened_segment_def)

lemma open_segments_run:
  fixes w :: "'z wal_scheme"
  assumes "stored b ess w" and "[] \<notin> set (butlast ess)" and "script w = []"
    and "n = b + length (concat (butlast ess))" and "n < 2 ^ 64"
    and "list_all (list_all entry_fits) ess"
  shows "\<exists>segs w'. open_segments (bases b ess) w = Some (Inr (), w') \<and>
    same_but (names_from b n) (w\<lparr>segments := segments w @ segs\<rparr>) w' \<and> chain (file_bytes w') b segs ess"
  using assms
proof (induction ess arbitrary: b w)
  case Nil
  then show ?case by (intro exI [of _ "[]"] exI [of _ w]) (simp add: run_def ret_def same_but_refl)
next
  case (Cons es ess)
  obtain tail where log: "map_of (files w) (log_name (of_nat b)) = Some (FileE (enc_log es @ tail))"
      "tail_ok tail" "length (enc_log es @ tail) < 2 ^ 63"
    and idx: "map_of (files w) (idx_name (of_nat b)) \<noteq> Some DirE" and rest: "stored (b + length es) ess w"
    using Cons.prems(1) by auto
  have b: "b \<le> n" using Cons.prems(4) by simp
  let ?X = "{log_name (of_nat b), idx_name (of_nat b)}"
  obtain w1 where w1: "openSegment (of_nat b) w = (Inr (opened_segment (file_bytes w) (of_nat b)), w1)"
      "same_but ?X w w1" "file_bytes w1 = file_bytes w"
    using openSegment_run [of w "of_nat b"] log(1) idx Cons.prems(3) by auto
  have s1: "script w1 = []" using same_but_script [OF w1(2)] Cons.prems(3) by simp
  let ?seg = "opened_segment (file_bytes w) (of_nat b)"
  let ?seg' = "?seg\<lparr>seg_size := length (enc_log es), idxSize := 8 * length es\<rparr>"
  have bytes: "file_bytes w1 (log_name (of_nat b)) = enc_log es @ tail"
    using log(1) by (simp add: w1(3) file_bytes_def)
  obtain w2 where w2: "verifyOrRebuildIndex ?seg w1 = Some (Inr ?seg', w2)" "same_but ?X w1 w2"
      "file_bytes w2 (log_name (of_nat b)) = enc_log es" "file_bytes w2 (idx_name (of_nat b)) = index_from 0 es"
    using verify_run [of ?seg w1 es tail] s1 bytes log Cons.prems(6) w1(3)
    by (auto simp: opened_segment_def)
  define w3 where "w3 = w2\<lparr>segments := segments w2 @ [?seg']\<rparr>"
  have same2: "same_but ?X w w2" using w1(2) w2(2) by (rule same_but_trans)
  have segs2: "segments w2 = segments w" by (rule same_but_field [OF same2]) simp
  have s3: "script w3 = []" using same_but_script [OF same2] Cons.prems(3) by (simp add: w3_def)
  have X: "?X \<subseteq> names_from b n" using b by (auto simp: names_from_def)
  have step: "open_segments (bases b (es # ess)) w = open_segments (bases (b + length es) ess) w3"
    by (simp only: bases.simps open_segments.simps)
      (simp only: then_loop_eq run_def w1(1) w2(1) modify_eval w3_def [symmetric] option.case prod.case sum.case)
  show ?case
  proof (cases "ess = []")
    case True
    have "same_but (names_from b n) (w\<lparr>segments := segments w @ [?seg']\<rparr>) w3"
      using same_but_mono [OF same2 X] segs2 unfolding w3_def same_but_def by (cases w, cases w2) simp
    moreover have "chain (file_bytes w3) b [?seg'] [es]"
      using seg_holds_verified [OF w2(3,4)] log(3) by (simp add: w3_def)
    ultimately show ?thesis
      unfolding step using True by (intro exI [of _ "[?seg']"] exI [of _ w3]) (simp add: run_def ret_def)
  next
    case False
    then have ne: "es \<noteq> []" "[] \<notin> set (butlast ess)" and n: "n = (b + length es) + length (concat (butlast ess))"
      using Cons.prems(2,4) by auto
    have "stored (b + length es) ess w3"
    proof (rule stored_frame [OF rest ne(2)])
      show "b + length es + length (concat (butlast ess)) < 2 ^ 64" using n Cons.prems(5) by simp
      fix k assume k: "b + length es \<le> k" "k < 2 ^ 64"
      then have "k \<noteq> b" using ne(1) by (cases es) auto
      moreover have "b < 2 ^ 64" using b Cons.prems(5) by simp
      ultimately have "log_name (of_nat k) \<notin> ?X \<and> idx_name (of_nat k) \<notin> ?X"
        using k(2) of_nat_u64_inj [of k b] by auto
      then show "map_of (files w3) (log_name (of_nat k)) = map_of (files w) (log_name (of_nat k)) \<and>
          map_of (files w3) (idx_name (of_nat k)) = map_of (files w) (idx_name (of_nat k))"
        using same2 by (simp add: same_but_def w3_def)
    qed
    then obtain segs w4 where w4: "open_segments (bases (b + length es) ess) w3 = Some (Inr (), w4)"
        "same_but (names_from (b + length es) n) (w3\<lparr>segments := segments w3 @ segs\<rparr>) w4"
        "chain (file_bytes w4) (b + length es) segs ess"
      using Cons.IH [OF _ ne(2) s3 n Cons.prems(5)] Cons.prems(6) by auto
    have lt: "b < b + length es" using ne(1) by simp
    have "seg_holds (file_bytes w4) b ?seg' es"
    proof (rule seg_holds_verified)
      have "log_name (of_nat b) \<notin> names_from (b + length es) n \<and> idx_name (of_nat b) \<notin> names_from (b + length es) n"
        using lt b Cons.prems(5) by (intro names_below) auto
      then show "file_bytes w4 (log_name (of_nat b)) = enc_log es" "file_bytes w4 (idx_name (of_nat b)) = index_from 0 es"
        using same_but_file [OF w4(2)] w2(3,4) by (simp_all add: w3_def)
    qed (use log(3) in simp)
    moreover have "same_but (names_from b n) (w\<lparr>segments := segments w @ ?seg' # segs\<rparr>) w4"
    proof -
      have "names_from (b + length es) n \<subseteq> names_from b n" unfolding names_from_def by (rule UN_mono) auto
      from same_but_mono [OF w4(2) this] same_but_mono [OF same2 X] segs2 show ?thesis
        unfolding w3_def same_but_def by (cases w, cases w2) simp
    qed
    ultimately show ?thesis
      unfolding step using w4(1,3) by (intro exI [of _ "?seg' # segs"] exI [of _ w4]) simp
  qed
qed


lemma bases_above:
  assumes "x \<in> set (bases b ess)" and "b + length (concat (butlast ess)) < 2 ^ 64"
  shows "of_nat b \<le> x"
  using assms
proof (induction b ess rule: bases.induct)
  case (2 b es ess)
  show ?case
  proof (cases "x = of_nat b")
    case False
    then have x: "x \<in> set (bases (b + length es) ess)" and ne: "ess \<noteq> []" using 2(2) by auto
    have "of_nat (b + length es) \<le> x" using 2(1) [OF x] 2(3) ne by (simp add: add.assoc)
    moreover have "(of_nat b :: u64) \<le> of_nat (b + length es)"
      using 2(3) ne by (simp add: word_le_nat_alt unat_of_nat_u64 del: of_nat_add)
    ultimately show ?thesis by (rule order_trans [rotated])
  qed simp
qed simp

lemma sorted_bases:
  assumes "b + length (concat (butlast ess)) < 2 ^ 64"
  shows "sorted (bases b ess)"
  using assms
proof (induction b ess rule: bases.induct)
  case (2 b es ess)
  show ?case
  proof (cases "ess = []")
    case False
    then have bound: "(b + length es) + length (concat (butlast ess)) < 2 ^ 64" using 2(2) by (simp add: add.assoc)
    have "(of_nat b :: u64) \<le> of_nat (b + length es)"
      using bound by (simp add: word_le_nat_alt unat_of_nat_u64 del: of_nat_add)
    then have "\<forall>x \<in> set (bases (b + length es) ess). of_nat b \<le> x"
      using bases_above [OF _ bound] order_trans by blast
    with 2(1) [OF bound] show ?thesis by simp
  qed simp
qed simp

definition dir_entries :: "'z world_scheme \<Rightarrow> (string \<times> bool) list" where
  "dir_entries d = map (\<lambda>(p, e). (p, e = DirE)) (files d)"

text \<open>
  A directory that holds the log with the entries of \<open>ess\<close>, a segment each: its log files,
  in the order it lists them in, are those of the segments, and only the last may be empty.
\<close>

definition log_dir :: "nat \<Rightarrow> entry list list \<Rightarrow> 'z world_scheme \<Rightarrow> bool" where
  "log_dir b ess d \<longleftrightarrow>
     ess \<noteq> [] \<and> [] \<notin> set (butlast ess) \<and>
     mset (base_offsets (dir_entries d)) = mset (bases b ess) \<and> stored b ess d \<and>
     clean_from d (b + length (concat (butlast ess)) + 1)"

text \<open>The next offset is read off the header of the last record the index knows.\<close>

lemma recover_last:
  fixes w :: "'z wal_scheme"
  defines "seg \<equiv> active_segment w"
  assumes opened: "h_open (logFile (active_segment w))" "h_open (idxFile (active_segment w))" "script w = []"
    and idx: "idxSize (active_segment w) = 8 * Suc t"
      "take 8 (drop (8 * t) (file_bytes w (h_path (idxFile (active_segment w))))) = be_bytes 8 (of_nat p :: u64)"
    and head: "take 25 (drop p (file_bytes w (h_path (logFile (active_segment w))))) = enc_head e" "p + 1 < 2 ^ 63"
  shows "recoverNextOffset w = (Inr (), w\<lparr>nextOffset := e_Offset e + 1\<rparr>)"
proof -
  let ?f = "file_bytes w (h_path (logFile seg))"
  note op = opened [folded seg_def] and ix = idx [folded seg_def]
  have sk1: "sys_seek (idxFile seg) (int (idxSize seg) - 8) w = (Inr (8 * t), w)"
    using seek_run [OF op(2,3), of "8 * t"] ix(1) by simp
  have rd1: "sys_read_full (idxFile seg) (8 * t) 8 w = (Inr (be_bytes 8 (of_nat p :: u64)), w)"
    using reads_Nil [OF reads_read_full [OF op(2) ix(2)] op(3)] by simp
  have "sint ((of_nat p :: u64) + 1) = int (p + 1)" using sint_of_nat_u64 [OF head(2)] by (simp add: add.commute)
  then have sk2: "sys_seek (logFile seg) (sint ((of_nat p :: u64) + 1)) w = (Inr (p + 1), w)"
    using seek_run [OF op(1,3), of "p + 1"] by simp
  have "take 8 (drop (p + 1) ?f) = take 8 (drop 1 (take 25 (drop p ?f)))"
    by (simp add: drop_take min_def add.commute)
  then have "take 8 (drop (p + 1) ?f) = be_bytes 8 (e_Offset e)"
    unfolding seg_def head(1) by (simp add: enc_head_def)
  then have rd2: "sys_read_full (logFile seg) (p + 1) 8 w = (Inr (be_bytes 8 (e_Offset e)), w)"
    using reads_Nil [OF reads_read_full [OF op(1), of 8 "p + 1" w] op(3)] by simp
  have ne: "(idxSize seg = 0) = False" using ix(1) by simp
  show ?thesis
    by (simp only: recoverNextOffset_def and_then_def gets_eval seg_def [symmetric] ne if_False sk1 rd1 sk2 rd2 Let_def
        be_word_be_bytes_u64 modify_eval prod.case sum.case)
qed

lemma recoverNextOffset_run:
  fixes w :: "'z wal_scheme"
  assumes seg: "seg_holds (file_bytes w) m (active_segment w) es" and s: "script w = []"
    and offs: "\<And>i. i < length es \<Longrightarrow> e_Offset (es ! i) = of_nat (m + i)"
  shows "recoverNextOffset w = (Inr (), w\<lparr>nextOffset := of_nat (m + length es)\<rparr>)"
proof (cases "es = []")
  case True
  then show ?thesis using seg by (simp add: recoverNextOffset_def prog_simps seg_holds_def)
next
  case False
  let ?seg = "active_segment w" and ?t = "length es - 1"
  let ?p = "length (enc_log (take ?t es))" and ?f = "file_bytes w (h_path (logFile (active_segment w)))"
  have t: "?t < length es" "length es = Suc ?t" using False by simp_all
  have "take 25 (drop ?p ?f) = take 25 (take (length (enc (es ! ?t))) (drop ?p ?f))"
    by (simp add: length_enc min_def)
  then have "take 25 (drop ?p ?f) = enc_head (es ! ?t)"
    unfolding log_piece [OF seg t(1)] by (simp add: enc_def enc_body_def)
  moreover have "?p + length (enc (es ! ?t)) < 2 ^ 63"
    using enc_log_nth(2) [OF t(1)] seg by (simp add: seg_holds_def)
  then have "?p + 1 < 2 ^ 63" by (simp add: length_enc)
  moreover have "h_open (logFile ?seg)" "h_open (idxFile ?seg)" "idxSize ?seg = 8 * Suc ?t"
    using seg t(2) by (simp_all add: seg_holds_def)
  ultimately have "recoverNextOffset w = (Inr (), w\<lparr>nextOffset := e_Offset (es ! ?t) + 1\<rparr>)"
    using s index_entry [OF seg t(1)] by (intro recover_last)
  moreover have "e_Offset (es ! ?t) + 1 = of_nat (m + length es)"
    using offs [OF t(1)] False by (cases es) (simp_all add: add.commute)
  ultimately show ?thesis by simp
qed

lemma loadSegments_run:
  fixes w :: "'z wal_scheme"
  assumes dir: "log_dir b ess w" and ok: "entries_ok b (concat ess)"
    and w: "script w = []" "segments w = []" "0 < maxSegmentBytes w" "\<not> closed w"
  shows "\<exists>w'. loadSegments w = Some (Inr (), w') \<and> log_ok b (concat ess) w' \<and> script w' = [] \<and>
    maxSegmentBytes w' = maxSegmentBytes w \<and> syncEveryWrite w' = syncEveryWrite w"
proof -
  obtain ess1 es where split: "ess = ess1 @ [es]" using dir by (cases ess rule: rev_cases) (auto simp: log_dir_def)
  have ne: "[] \<notin> set ess1" and st: "stored b ess w" and clean: "clean_from w (b + length (concat ess1) + 1)"
    and ms: "mset (base_offsets (dir_entries w)) = mset (bases b ess)"
    using dir by (simp_all add: log_dir_def split)
  let ?n = "b + length (concat ess1)"
  have bound: "?n + length es < 2 ^ 64" using ok by (simp add: entries_ok_def split)
  have "sorted (bases b ess)" using bound by (intro sorted_bases) (simp add: split)
  then have sort: "sort (base_offsets (dir_entries w)) = bases b ess"
    using ms by (metis properties_for_sort)
  have fits: "list_all (list_all entry_fits) ess"
    using ok unfolding entries_ok_def list_all_iff by (metis concat.simps in_set_conv_nth UN_I set_concat)
  obtain segs w1 where w1: "open_segments (bases b ess) w = Some (Inr (), w1)"
      "same_but (names_from b ?n) (w\<lparr>segments := segments w @ segs\<rparr>) w1" "chain (file_bytes w1) b segs ess"
    using open_segments_run [OF st _ w(1), of ?n] ne bound fits by (auto simp: split)
  obtain segs1 seg where segs: "segs = segs1 @ [seg]" "length segs1 = length ess1"
    using chain_length [OF w1(3)] by (cases segs rule: rev_cases) (auto simp: split)
  have c: "chain (file_bytes w1) b segs1 ess1" "seg_holds (file_bytes w1) ?n seg es"
    using w1(3) segs(2) by (simp_all add: segs(1) split chain_append)
  have f1: "script w1 = []" "segments w1 = segs" "maxSegmentBytes w1 = maxSegmentBytes w" "closed w1 = closed w"
      "syncEveryWrite w1 = syncEveryWrite w"
    using same_but_field [OF w1(2), of script] same_but_field [OF w1(2), of segments]
      same_but_field [OF w1(2), of maxSegmentBytes] same_but_field [OF w1(2), of closed]
      same_but_field [OF w1(2), of syncEveryWrite] w by simp_all
  define w2 where "w2 = w1\<lparr>active := length segs1\<rparr>"
  define w3 where "w3 = w2\<lparr>nextOffset := of_nat (?n + length es)\<rparr>"
  have act: "active_segment w2 = seg" by (simp add: w2_def active_segment_def f1 segs(1))
  have rec: "recoverNextOffset w2 = (Inr (), w3)"
    unfolding w3_def
  proof (rule recoverNextOffset_run)
    show "seg_holds (file_bytes w2) ?n (active_segment w2) es" using c(2) act by (simp add: w2_def)
    show "script w2 = []" using f1 by (simp add: w2_def)
    fix i assume "i < length es"
    then show "e_Offset (es ! i) = of_nat (?n + i)"
      using ok by (auto simp: entries_ok_def split nth_append add.assoc dest!: spec [of _ "length (concat ess1) + i"])
  qed
  have "sys_readdir w = (Inr (dir_entries w), w)"
    by (simp add: sys_readdir_def prog_simps w dir_entries_def)
  moreover have "segments w1 \<noteq> []" "length (segments w1) - 1 = length segs1" using f1 segs by simp_all
  ultimately have "loadSegments w = Some (Inr (), w3)"
    by (simp add: loadSegments_def then_loop_eq run_def sort w1(1) and_then_def gets_eval ret_def modify_eval
        rec flip: w2_def)
  moreover have "layout b segs1 ess1 seg es w3"
    unfolding layout_def
  proof (intro conjI)
    show "clean_from w3 (?n + 1)"
      unfolding clean_from_def
    proof (intro allI impI)
      fix k assume k: "?n + 1 \<le> k \<and> k < 2 ^ 64"
      then have "log_name (of_nat k) \<notin> names_from b ?n \<and> idx_name (of_nat k) \<notin> names_from b ?n"
        using bound by (intro names_below) auto
      then have "map_of (files w3) (log_name (of_nat k)) = map_of (files w) (log_name (of_nat k)) \<and>
          map_of (files w3) (idx_name (of_nat k)) = map_of (files w) (idx_name (of_nat k))"
        using w1(2) by (simp add: same_but_def w2_def w3_def)
      with clean k show "map_of (files w3) (log_name (of_nat k)) \<in> {None, Some (FileE [])} \<and>
          map_of (files w3) (idx_name (of_nat k)) \<in> {None, Some (FileE [])}"
        unfolding clean_from_def by metis
    qed
  qed (use c ne f1 segs in \<open>simp_all add: w2_def w3_def\<close>)
  then have "log_ok b (concat ess1 @ es) w3"
    using ok f1 w by (intro log_okI) (simp_all add: counters_ok_def w2_def w3_def split add.assoc)
  ultimately show ?thesis
    using f1 by (intro exI [of _ w3]) (simp add: split w2_def w3_def)
qed

lemma files_new_wal: "files (new_wal sync interval maxBytes d) = files d"
  by (simp add: new_wal_def world.defs)

lemma NewWAL_run:
  assumes dir: "log_dir b ess d" and ok: "entries_ok b (concat ess)" and "script d = []" "0 < maxBytes"
  shows "\<exists>w. NewWAL sync interval maxBytes d = Some (Inr (), w) \<and> log_ok b (concat ess) w \<and>
    script w = [] \<and> maxSegmentBytes w = maxBytes \<and> syncEveryWrite w = sync"
proof -
  let ?w = "new_wal sync interval maxBytes d"
  have f: "files ?w = files d" "script ?w = []" "segments ?w = []" "maxSegmentBytes ?w = maxBytes" "\<not> closed ?w"
      "syncEveryWrite ?w = sync"
    using assms by (simp_all add: new_wal_def world.defs)
  have st: "stored b ess ?w" if "stored b ess d" for b ess
    using that by (induction b ess d rule: stored.induct) (auto simp: files_new_wal)
  have "log_dir b ess ?w"
    using dir st by (simp add: log_dir_def dir_entries_def clean_from_def f)
  from loadSegments_run [OF this ok f(2,3)] f assms obtain w' where
    "loadSegments ?w = Some (Inr (), w')" "log_ok b (concat ess) w'" "script w' = []"
    "maxSegmentBytes w' = maxBytes" "syncEveryWrite w' = sync" by auto
  moreover have "sys_mkdir_all ?w = (Inr (), ?w)" by (simp add: sys_mkdir_all_def prog_simps f)
  ultimately show ?thesis
    by (simp add: NewWAL_def then_loop_eq run_def wrap_error_def)
qed


section \<open>Properties\<close>

text \<open>
  C3: recovery: from a directory with the log files of a log, in any listing order, with an
  incomplete header or foreign bytes behind the last record of a segment, and with index
  files that are missing, truncated, too long or plainly wrong, \<open>NewWAL\<close> returns the log with
  exactly the records of the files: each is read back at its offset and the next append
  continues behind the last.
\<close>

theorem recovery_restores_log:
  assumes "log_dir b ess d" and "entries_ok b (concat ess)" and "script d = []" and "0 < maxBytes"
  shows "\<exists>w. NewWAL sync interval maxBytes d = Some (Inr (), w) \<and>
     log_ok b (concat ess) w \<and> NextOffset w = of_nat (b + length (concat ess)) \<and>
     (\<forall>i < length (concat ess). Read (of_nat (b + i)) w = (Inr (record_of (concat ess ! i)), w))"
proof -
  obtain w where w: "NewWAL sync interval maxBytes d = Some (Inr (), w)" "log_ok b (concat ess) w" "script w = []"
    using NewWAL_run [OF assms] by blast
  have "nextOffset w = of_nat (b + length (concat ess))" using w(2) by (simp add: log_ok_def counters_ok_def)
  moreover have "Read (of_nat (b + i)) w = (Inr (record_of (concat ess ! i)), w)" if "i < length (concat ess)" for i
    using reads_Nil [OF Read_reads [OF w(2) that] w(3)] .
  ultimately show ?thesis using w(1,2) unfolding NextOffset_def by blast
qed

lemma ParseUint_first: "ParseUint (pad20 0) = Some 0"
  using ParseUint_pad20 [of 0] by simp

definition sample_dir :: world where
  "sample_dir =
     \<lparr>files = [(''notes.txt'', FileE []), (log_name 0, FileE (enc sample_entry @ [MagicByte, 1])),
        (idx_name 0, FileE [1, 2, 3])], durable = [], script = []\<rparr>"

lemma sample_dir_log: "log_dir 0 [[sample_entry]] sample_dir"
proof -
  have others: "log_name bo \<noteq> ''notes.txt'' \<and> idx_name bo \<noteq> ''notes.txt''" for bo
  proof -
    have "last (log_name bo) = CHR ''g''" "last (idx_name bo) = CHR ''x''" by (simp_all add: log_name_def idx_name_def)
    then show ?thesis by auto
  qed
  have "base_offsets (dir_entries sample_dir) = [0]"
    by (simp add: base_offsets_def dir_entries_def sample_dir_def map_filter_simps log_name_suffix idx_name_suffix
        ParseUint_first) (simp add: HasSuffix_def)
  moreover have "stored 0 [[sample_entry]] sample_dir"
    using others by (auto simp: sample_dir_def tail_ok_def length_enc sample_entry_def intro!: exI [of _ "[MagicByte, 1]"])
  moreover have "clean_from sample_dir 1"
    unfolding clean_from_def
  proof (intro allI impI)
    fix k :: nat assume k: "1 \<le> k \<and> k < 2 ^ 64"
    then have "(of_nat k :: u64) \<noteq> 0" using of_nat_u64_inj [of k 0] by auto
    then show "map_of (files sample_dir) (log_name (of_nat k)) \<in> {None, Some (FileE [])} \<and>
        map_of (files sample_dir) (idx_name (of_nat k)) \<in> {None, Some (FileE [])}"
      by (simp add: sample_dir_def)
  qed
  ultimately show ?thesis by (simp add: log_dir_def)
qed

theorem recovery_restores_log_witness:
  "\<exists>w. NewWAL True 0 1024 sample_dir = Some (Inr (), w) \<and> log_ok 0 [sample_entry] w \<and>
     NextOffset w = 1 \<and> Read 0 w = (Inr (record_of sample_entry), w)"
proof -
  have "entries_ok 0 (concat [[sample_entry]])"
    by (simp add: entries_ok_def entry_fits_def sample_entry_def)
  from recovery_restores_log [OF sample_dir_log this, of 1024 True 0] show ?thesis
    by (auto simp: sample_dir_def)
qed

text \<open>
  C23: a record of \<open>2 ^ 32\<close> bytes, which \<open>Append\<close> lays out without complaint (and which fits in a
  produce request), makes its log impossible to open: its size is computed in 32 bits and
  is 0, so the scan of \<open>NewWAL\<close> stays at it forever.
\<close>

theorem huge_record_blocks_recovery:
  assumes "length key + length value + 29 = 2 ^ 32"
    and "record_bytes offset now key value = Inr buf"
    and "map_of (files d) (log_name bo) = Some (FileE buf)" and "map_of (files d) (idx_name bo) \<noteq> Some DirE"
    and "base_offsets (dir_entries d) = [bo]" and "script d = []"
  shows "NewWAL sync interval maxBytes d = None"
proof -
  let ?e = "\<lparr>e_Offset = offset, e_Timestamp = now, e_Key = key, e_Value = value\<rparr>"
  let ?w = "new_wal sync interval maxBytes d"
  have buf: "buf = enc ?e" using assms(2) by (simp add: record_bytes_enc)
  have f: "files ?w = files d" "script ?w = []" using assms(6) by (simp_all add: new_wal_def world.defs)
  obtain w1 where w1: "openSegment bo ?w = (Inr (opened_segment (file_bytes ?w) bo), w1)"
      "same_but {log_name bo, idx_name bo} ?w w1" "file_bytes w1 = file_bytes ?w"
    using openSegment_run [of ?w bo] assms f by auto
  let ?seg = "opened_segment (file_bytes ?w) bo" and ?hdr = "drop 1 (enc_head ?e)"
  have s1: "script w1 = []" using same_but_script [OF w1(2)] f by simp
  have bytes: "file_bytes w1 (log_name bo) = enc ?e" using assms(3) f by (simp add: w1(3) file_bytes_def buf)
  have len: "length (enc ?e) = 2 ^ 32" using assms(1) by (simp add: length_enc)
  have "header_size ?hdr = 0"
  proof -
    have "(1 + 24 + of_nat (length key) + of_nat (length value) + 4 :: u32) = of_nat (length key + length value + 29)"
      by simp
    then have "(1 + 24 + of_nat (length key) + of_nat (length value) + 4 :: u32) = 0"
      unfolding assms(1) by simp
    then show ?thesis by (simp add: header_size_def record_size_def enc_head_def)
  qed
  moreover have "take 25 (enc ?e) = MagicByte # ?hdr"
    by (simp add: enc_def enc_body_def) (simp add: enc_head_def)
  ultimately have scan: "scan_log ?seg 0 0 False w1 = None"
    using s1 bytes len w1(3) by (intro scan_log_stuck [where hdr = ?hdr]) (simp_all add: opened_segment_def)
  have "verifyOrRebuildIndex ?seg w1 = None"
  proof -
    have "h_open (logFile ?seg)" by (simp add: opened_segment_def)
    from seek0_run [OF this s1] show ?thesis
      by (simp only: verifyOrRebuildIndex_def then_loop_eq run_def scan option.case prod.case sum.case)
  qed
  moreover have "sys_mkdir_all ?w = (Inr (), ?w)" "sys_readdir ?w = (Inr (dir_entries d), ?w)"
    by (simp_all add: sys_mkdir_all_def sys_readdir_def prog_simps f dir_entries_def)
  ultimately show ?thesis
    by (simp add: NewWAL_def loadSegments_def then_loop_eq run_def wrap_error_def assms(5) w1(1))
qed

theorem huge_record_blocks_recovery_witness:
  "NewWAL True 0 1024 \<lparr>files = [(log_name 0, FileE (enc \<lparr>e_Offset = 0, e_Timestamp = 7, e_Key = [],
       e_Value = replicate (2 ^ 32 - 29) 0\<rparr>))], durable = [], script = []\<rparr> = None"
proof (rule huge_record_blocks_recovery)
  show "length ([] :: byte list) + length (replicate (2 ^ 32 - 29) (0 :: byte)) + 29 = 2 ^ 32" by simp
  show "record_bytes 0 7 [] (replicate (2 ^ 32 - 29) 0) =
      Inr (enc \<lparr>e_Offset = 0, e_Timestamp = 7, e_Key = [], e_Value = replicate (2 ^ 32 - 29) 0\<rparr>)"
    by (rule record_bytes_enc)
qed (simp_all add: base_offsets_def dir_entries_def map_filter_simps log_name_suffix ParseUint_first)

end
