(* ===== verification/Wal_Torn.thy ===== *)
theory Wal_Torn
  imports Wal_Recover
begin

text \<open>
  What recovery makes of a log whose last record is incomplete behind its header, as a crash
  in the middle of \<^verbatim>\<open>Append\<close> leaves it.
\<close>

section \<open>A header without its record\<close>

text \<open>
  The bytes \<open>y\<close> start with the header of \<open>e\<close>, and behind the size the header announces there is
  nothing, or something that is not a record.
\<close>

definition headed :: "byte list \<Rightarrow> entry \<Rightarrow> bool" where
  "headed y e \<longleftrightarrow> take 25 y = enc_head e \<and> entry_fits e \<and>
     (length y \<le> length (enc e) \<or> y ! length (enc e) \<noteq> MagicByte)"

lemma headed_head: "headed y e \<Longrightarrow> take 25 y = MagicByte # drop 1 (enc_head e)"
  unfolding headed_def by (simp add: enc_head_def)

lemma headed_long: "headed y e \<Longrightarrow> 25 \<le> length y"
  unfolding headed_def by (metis length_enc_head length_take min.absorb_iff2 min.commute)

text \<open>The bytes recovery leaves of them.\<close>

definition kept :: "entry list \<Rightarrow> byte list \<Rightarrow> entry \<Rightarrow> byte list" where
  "kept es y e = enc_log es @ take (length (enc e)) y"

lemma scan_headed:
  fixes s :: "'z world_scheme"
  assumes opened: "h_open (logFile seg)" "h_open (idxFile seg)" "script s = []"
    and idx: "idxSize seg = length (file_bytes s (h_path (idxFile seg)))"
    and size: "seg_size seg = length (file_bytes s (h_path (logFile seg)))" "seg_size seg < 2 ^ 63"
    and bytes: "file_bytes s (h_path (logFile seg)) = enc_log es @ y"
    and fits: "list_all entry_fits es" and y: "headed y e"
  shows "\<exists>rb'. scan_log seg 0 0 False s =
      Some (Inr (length (enc_log es) + length (enc e), length es + 1, rb'), s) \<and>
    (\<not> rb' \<longrightarrow> take (8 * length (es @ [e])) (file_bytes s (h_path (idxFile seg))) = index_from 0 (es @ [e]))"
proof -
  let ?f = "file_bytes s (h_path (logFile seg))" and ?i = "file_bytes s (h_path (idxFile seg))"
  let ?p = "length (enc_log es)" and ?q = "length (enc_log es) + length (enc e)"
  obtain rb where pre: "scan_log seg 0 0 False s = scan_log seg ?p (length es) rb s"
    and rb: "\<not> rb \<longrightarrow> take (8 * length es) ?i = index_from 0 es"
    using scan_prefix [OF opened idx size, of 0 es y 0 False] bytes fits by auto
  have len: "length ?f = ?p + length y" using bytes by simp
  let ?bad = "take 8 (drop (8 * length es) ?i) \<noteq> be_bytes 8 (of_nat ?p :: u64)"
  have "take 25 (drop ?p ?f) = MagicByte # drop 1 (enc_head e)" using bytes headed_head [OF y] by simp
  note step = scan_step [OF opened idx this, unfolded header_size_enc [OF y [unfolded headed_def, THEN conjunct2, THEN conjunct1]]]
  have "scan_log seg ?p (length es) rb s = scan_log seg ?q (length es + 1) (rb \<or> ?bad) s"
    by (rule step) (use len size headed_long [OF y] in auto)
  moreover have "\<exists>rb'. scan_log seg ?q (length es + 1) (rb \<or> ?bad) s = Some (Inr (?q, length es + 1, rb'), s) \<and>
      (\<not> rb' \<longrightarrow> \<not> (rb \<or> ?bad))"
  proof (cases "length y \<le> length (enc e)")
    case True
    then show ?thesis using len size by (subst scan_log.simps) simp
  next
    case False
    then have other: "y ! length (enc e) \<noteq> MagicByte" using y by (simp add: headed_def)
    have d: "drop ?q ?f = drop (length (enc e)) y" using bytes by simp
    have "sys_read (logFile seg) ?q 1 s = (Inr [y ! length (enc e)], s)"
      using reads_Nil [OF reads_read [OF opened(1) d, of 1] opened(3)] False
      by (simp add: take_Suc_conv_app_nth hd_drop_conv_nth take_Suc)
    then show ?thesis using len size other False by (subst scan_log.simps) (auto intro: exI [of _ True])
  qed
  moreover have "take (8 * length (es @ [e])) ?i = index_from 0 (es @ [e])" if "\<not> (rb \<or> ?bad)"
  proof -
    have "8 * length (es @ [e]) = 8 * length es + 8" by simp
    then show ?thesis using that rb by (simp only: take_add index_from_append) simp
  qed
  ultimately show ?thesis using pre by auto
qed

lemma rebuild_headed:
  fixes s :: "'z world_scheme"
  assumes opened: "h_open (logFile seg)" "h_open (idxFile seg)" "script s = []"
    and other: "h_path (logFile seg) \<noteq> h_path (idxFile seg)"
    and bytes: "drop p (file_bytes s (h_path (logFile seg))) = enc_log es @ y" "take 25 y = enc_head e"
    and size: "p + length (enc_log es) < seg_size seg" "seg_size seg \<le> p + length (enc_log es) + length (enc e)"
    and ip: "ip = length (file_bytes s (h_path (idxFile seg)))"
    and fits: "list_all entry_fits es" "entry_fits e"
  shows "\<exists>s'. rebuild_index seg p ip s = Some (Inr (), s') \<and> same_but {h_path (idxFile seg)} s s' \<and>
    file_bytes s' (h_path (idxFile seg)) = file_bytes s (h_path (idxFile seg)) @ index_from p (es @ [e])"
  using assms
proof (induction es arbitrary: p ip s)
  case Nil
  have "rebuild_index seg p ip s = rebuild_index seg (p + length (enc e)) (ip + 8)
    (set_file (h_path (idxFile seg)) (file_bytes s (h_path (idxFile seg)) @ be_bytes 8 (of_nat p :: u64)) s)"
    by (rule rebuild_step) (use Nil.prems in simp_all)
  then show ?case using Nil.prems by (subst (asm) (2) rebuild_index.simps) (auto intro: same_but_set_file)
next
  case (Cons e1 es)
  let ?x = "h_path (idxFile seg)" and ?f = "file_bytes s (h_path (logFile seg))"
  define s1 where "s1 = set_file ?x (file_bytes s ?x @ be_bytes 8 (of_nat p :: u64)) s"
  have d: "drop p ?f = enc e1 @ enc_log es @ y" using Cons.prems by simp
  have nxt: "drop (p + length (enc e1)) ?f = enc_log es @ y"
    using arg_cong [where f = "drop (length (enc e1))", OF d] by (simp add: add.commute)
  have step: "rebuild_index seg p ip s = rebuild_index seg (p + length (enc e1)) (ip + 8) s1"
    unfolding s1_def by (rule rebuild_step) (use Cons.prems d in \<open>simp_all add: enc_def enc_body_def\<close>)
  have s1: "script s1 = []" "file_bytes s1 (h_path (logFile seg)) = ?f"
      "file_bytes s1 ?x = file_bytes s ?x @ be_bytes 8 (of_nat p :: u64)"
    using Cons.prems by (simp_all add: s1_def)
  obtain s' where "rebuild_index seg (p + length (enc e1)) (ip + 8) s1 = Some (Inr (), s')"
      "same_but {?x} s1 s'" "file_bytes s' ?x = file_bytes s1 ?x @ index_from (p + length (enc e1)) (es @ [e])"
    using Cons.IH [of s1 "p + length (enc e1)" "ip + 8"] Cons.prems s1 nxt by (auto simp: add.assoc)
  moreover have "same_but {?x} s s1" unfolding s1_def by (rule same_but_set_file) simp
  ultimately show ?case using step s1 by (auto intro: same_but_trans)
qed


lemma verify_headed:
  fixes s :: "'z world_scheme" and seg :: segment
  defines "l \<equiv> h_path (logFile seg)" and "x \<equiv> h_path (idxFile seg)"
  assumes opened: "h_open (logFile seg)" "h_open (idxFile seg)" "script s = []"
    and other: "h_path (logFile seg) \<noteq> h_path (idxFile seg)"
    and idx: "idxSize seg = length (file_bytes s (h_path (idxFile seg)))"
    and size: "seg_size seg = length (file_bytes s (h_path (logFile seg)))" "seg_size seg < 2 ^ 63"
    and bytes: "file_bytes s (h_path (logFile seg)) = enc_log es @ y"
    and fits: "list_all entry_fits es" and y: "headed y e"
  shows "\<exists>s'. verifyOrRebuildIndex seg s =
      Some (Inr (seg\<lparr>seg_size := length (kept es y e), idxSize := 8 * length (es @ [e])\<rparr>), s') \<and>
    same_but {l, x} s s' \<and> file_bytes s' l = kept es y e \<and> file_bytes s' x = index_from 0 (es @ [e])"
proof -
  let ?q = "length (enc_log es) + length (enc e)"
  obtain rb where scan: "scan_log seg 0 0 False s = Some (Inr (?q, length (es @ [e]), rb), s)"
    and rb: "\<not> rb \<longrightarrow> take (8 * length (es @ [e])) (file_bytes s (h_path (idxFile seg))) = index_from 0 (es @ [e])"
    using scan_headed [OF opened idx size bytes fits y] by auto
  have k: "take ?q (enc_log es @ y) = kept es y e" by (simp add: kept_def)
  have min: "min ?q (seg_size seg) = length (kept es y e)" using size bytes by (simp add: kept_def)
  have hd: "take 25 (take (length (enc e)) y) = enc_head e" "entry_fits e" "y \<noteq> []"
    using y headed_long [OF y] by (auto simp: headed_def length_enc min_def)
  have "\<exists>s3. rebuild_index (seg\<lparr>seg_size := length (kept es y e)\<rparr>) 0 0 s2 = Some (Inr (), s3) \<and>
      same_but {h_path (idxFile seg)} s2 s3 \<and> file_bytes s3 (h_path (idxFile seg)) = index_from 0 (es @ [e])"
    if "script s2 = []" "file_bytes s2 (h_path (logFile seg)) = take ?q (file_bytes s (h_path (logFile seg)))"
      "file_bytes s2 (h_path (idxFile seg)) = []" for s2 :: "'z world_scheme"
    using rebuild_headed [of "seg\<lparr>seg_size := length (kept es y e)\<rparr>" s2 0 es "take (length (enc e)) y" e 0]
      opened that other fits bytes hd by (simp add: k) (simp add: kept_def length_enc)
  note run = verify_scanned [OF opened other idx size(1) scan rb, unfolded min, OF this]
  then show ?thesis unfolding l_def x_def bytes k by assumption
qed


section \<open>Opening the log\<close>

text \<open>
  A directory with one segment, the records \<open>es\<close> and what is left of \<open>e\<close> behind them; what its
  index file holds, or whether it is there, does not matter.
\<close>

definition torn_dir :: "u64 \<Rightarrow> entry list \<Rightarrow> byte list \<Rightarrow> entry \<Rightarrow> 'z world_scheme \<Rightarrow> bool" where
  "torn_dir bo es y e d \<longleftrightarrow>
     base_offsets (dir_entries d) = [bo] \<and> map_of (files d) (log_name bo) = Some (FileE (enc_log es @ y)) \<and>
     map_of (files d) (idx_name bo) \<noteq> Some DirE \<and> length (enc_log es @ y) < 2 ^ 63 \<and>
     list_all entry_fits es \<and> headed y e"

text \<open>The log recovery makes of it: the offset of \<open>e\<close> counts as taken.\<close>

definition torn_log :: "u64 \<Rightarrow> entry list \<Rightarrow> byte list \<Rightarrow> entry \<Rightarrow> 'z wal_scheme \<Rightarrow> bool" where
  "torn_log bo es y e w \<longleftrightarrow>
     segments w = [\<lparr>BaseOffset = bo, logFile = \<lparr>h_path = log_name bo, h_open = True\<rparr>,
       idxFile = \<lparr>h_path = idx_name bo, h_open = True\<rparr>,
       seg_size = length (kept es y e), idxSize = 8 * length (es @ [e])\<rparr>] \<and>
     active w = 0 \<and> nextOffset w = e_Offset e + 1 \<and> \<not> closed w \<and> script w = [] \<and>
     file_bytes w (log_name bo) = kept es y e \<and> file_bytes w (idx_name bo) = index_from 0 (es @ [e])"

lemma recover_headed:
  fixes w :: "'z wal_scheme" and es :: "entry list"
  assumes opened: "h_open (logFile (active_segment w))" "h_open (idxFile (active_segment w))" "script w = []"
    and idx: "idxSize (active_segment w) = 8 * length (es @ [e])"
      "file_bytes w (h_path (idxFile (active_segment w))) = index_from 0 (es @ [e])"
    and log: "file_bytes w (h_path (logFile (active_segment w))) = kept es y e" "length (kept es y e) < 2 ^ 63"
    and y: "headed y e"
  shows "recoverNextOffset w = (Inr (), w\<lparr>nextOffset := e_Offset e + 1\<rparr>)"
proof (rule recover_last)
  show "take 8 (drop (8 * length es) (file_bytes w (h_path (idxFile (active_segment w))))) =
      be_bytes 8 (of_nat (length (enc_log es)) :: u64)"
    unfolding idx(2) by (simp add: index_from_append)
  show "take 25 (drop (length (enc_log es)) (file_bytes w (h_path (logFile (active_segment w))))) = enc_head e"
    using y unfolding log(1) by (simp add: kept_def headed_def length_enc min_def)
  show "length (enc_log es) + 1 < 2 ^ 63" using log(2) headed_long [OF y] by (simp add: kept_def length_enc)
qed (use opened idx(1) in simp_all)

lemma NewWAL_torn:
  assumes dir: "torn_dir bo es y e d" and s: "script d = []"
  shows "\<exists>w. NewWAL sync interval maxBytes d = Some (Inr (), w) \<and> torn_log bo es y e w \<and>
    maxSegmentBytes w = maxBytes \<and> syncEveryWrite w = sync"
proof -
  let ?w = "new_wal sync interval maxBytes d" and ?y = "headed y e"
  have f: "files ?w = files d" "script ?w = []" "segments ?w = []" "maxSegmentBytes ?w = maxBytes" "\<not> closed ?w"
      "syncEveryWrite ?w = sync"
    using s by (simp_all add: new_wal_def world.defs)
  obtain w1 where w1: "openSegment bo ?w = (Inr (opened_segment (file_bytes ?w) bo), w1)"
      "same_but {log_name bo, idx_name bo} ?w w1" "file_bytes w1 = file_bytes ?w"
    using openSegment_run [of ?w bo] dir f by (auto simp: torn_dir_def)
  let ?seg = "opened_segment (file_bytes ?w) bo"
  have log: "file_bytes ?w (log_name bo) = enc_log es @ y" using dir f(1) by (simp add: file_bytes_def torn_dir_def)
  let ?seg' = "?seg\<lparr>seg_size := length (kept es y e), idxSize := 8 * length (es @ [e])\<rparr>"
  obtain w2 where w2: "verifyOrRebuildIndex ?seg w1 = Some (Inr ?seg', w2)"
      "same_but {log_name bo, idx_name bo} w1 w2"
      "file_bytes w2 (log_name bo) = kept es y e" "file_bytes w2 (idx_name bo) = index_from 0 (es @ [e])"
    using verify_headed [of ?seg w1 es y e] same_but_script [OF w1(2)] f(2) dir w1(3) log
    by (auto simp: opened_segment_def torn_dir_def)
  have same: "same_but {log_name bo, idx_name bo} ?w w2" using w1(2) w2(2) by (rule same_but_trans)
  have g: "segments w2 = []" "script w2 = []" "maxSegmentBytes w2 = maxBytes" "\<not> closed w2" "syncEveryWrite w2 = sync"
    using same_but_field [OF same, of script] same_but_field [OF same, of segments]
      same_but_field [OF same, of maxSegmentBytes] same_but_field [OF same, of closed]
      same_but_field [OF same, of syncEveryWrite] f by simp_all
  define w3 where "w3 = w2\<lparr>segments := [?seg'], active := 0\<rparr>"
  have len: "length (kept es y e) < 2 ^ 63" using dir by (auto simp: torn_dir_def kept_def)
  have "recoverNextOffset w3 = (Inr (), w3\<lparr>nextOffset := e_Offset e + 1\<rparr>)"
    by (rule recover_headed) (use dir g w2 len in \<open>auto simp: w3_def active_segment_def opened_segment_def torn_dir_def\<close>)
  moreover have "sys_mkdir_all ?w = (Inr (), ?w)" "sys_readdir ?w = (Inr (dir_entries d), ?w)"
    by (simp_all add: sys_mkdir_all_def sys_readdir_def prog_simps f dir_entries_def)
  moreover have "base_offsets (dir_entries d) = [bo]" using dir by (simp add: torn_dir_def)
  ultimately have "NewWAL sync interval maxBytes d = Some (Inr (), w3\<lparr>nextOffset := e_Offset e + 1\<rparr>)"
    using g(1)
    by (simp add: NewWAL_def loadSegments_def then_loop_eq run_def wrap_error_def w1(1) w2(1) prog_simps and_then_def w3_def)
  moreover have "torn_log bo es y e (w3\<lparr>nextOffset := e_Offset e + 1\<rparr>)"
    using g w2 by (simp add: torn_log_def w3_def opened_segment_def)
  ultimately show ?thesis using g by (auto simp: w3_def)
qed


section \<open>Reading and appending\<close>

text \<open>A read that runs into the end of the file.\<close>

lemma read_full_short:
  assumes "h_open h" and "script s = []" and "length (file_bytes s (h_path h)) < pos + n" and "0 < n"
  shows "fst (sys_read_full h pos n s) \<in> {Inl EOF, Inl UnexpectedEOF}"
  using assms by (auto simp: sys_read_full_def prog_simps Let_def)

lemma and_then_fails:
  assumes "fst (m s) \<in> Inl ` E"
  shows "fst (and_then m f s) \<in> Inl ` E"
  using assms by (auto simp: and_then_def split: prod.splits)

lemma read_torn_record:
  fixes w :: "'z wal_scheme"
  assumes opened: "h_open (logFile seg)" "script w = []"
    and bytes: "file_bytes w (h_path (logFile seg)) = enc_log es @ take n (enc e)"
    and n: "25 \<le> n" "n < length (enc e)" and fits: "entry_fits e"
  shows "fst (read_record seg (length (enc_log es)) w) \<in> Inl ` {EOF, UnexpectedEOF}"
proof -
  let ?p = "length (enc_log es)" and ?f = "file_bytes w (h_path (logFile seg))" and ?h = "drop 1 (enc_head e)"
  let ?k = "length (e_Key e)" and ?v = "length (e_Value e)"
  have len: "length ?f = ?p + n" using bytes n by simp
  have piece: "take m (drop (?p + q) ?f) = take m (drop q (enc e))" if "q + m \<le> n" for q m
    using that by (simp add: bytes drop_take min_def)
  have "take 1 (enc e) = [MagicByte]" "take 24 (drop 1 (enc e)) = ?h"
    by (simp_all add: enc_def enc_body_def enc_head_def)
  then have magic: "sys_read (logFile seg) ?p 1 w = (Inr [MagicByte], w)"
    and head: "sys_read_full (logFile seg) (?p + 1) 24 w = (Inr ?h, w)"
    using reads_Nil [OF reads_read1 [OF opened(1), of ?p w MagicByte] opened(2)] piece [of 0 1]
      reads_Nil [OF reads_read_full [OF opened(1), of 24 "?p + 1" w ?h] opened(2)] piece [of 1 24] n by auto
  note hs = enc_head_fields [OF fits]
  have short: "fst (sys_read_full (logFile seg) pos m w) \<in> Inl ` {EOF, UnexpectedEOF}"
    if "?p + n < pos + m" "0 < m" for pos m
    using read_full_short [OF opened, of pos m] that len by simp
  have key: "sys_read_full (logFile seg) (?p + 25) ?k w = (Inr (e_Key e), w)" if "25 + ?k \<le> n"
    using reads_Nil [OF reads_read_full [OF opened(1), of ?k "?p + 25" w "e_Key e"] opened(2)] piece [of 25 ?k] that
    by (simp add: enc_def enc_body_def)
  have val: "sys_read_full (logFile seg) (?p + 25 + ?k) ?v w = (Inr (e_Value e), w)" if "25 + ?k + ?v \<le> n"
    using reads_Nil [OF reads_read_full [OF opened(1), of ?v "?p + 25 + ?k" w "e_Value e"] opened(2)]
      piece [of "25 + ?k" ?v] that by (simp add: enc_def enc_body_def add.assoc)
  have body: "read_record seg ?p w =
     (and_then (sys_read_full (logFile seg) (?p + 25) ?k) (\<lambda>key.
      and_then (sys_read_full (logFile seg) (?p + 25 + ?k) ?v) (\<lambda>value.
      and_then (sys_read_full (logFile seg) (?p + 25 + ?k + ?v) 4) (\<lambda>crcBuf.
      and_then (of_result (crc_buffer (e_Offset e) (e_Timestamp e) (of_nat ?k) (of_nat ?v) key value)) (\<lambda>bufForCrc.
      if (be_word crcBuf :: u32) \<noteq> ChecksumIEEE bufForCrc then fail ErrRecordCorrupt else
      ret \<lparr>r_Magic = MagicByte, r_Offset = e_Offset e, r_Timestamp = e_Timestamp e,
          r_Key = key, r_Value = value, r_Checksum = be_word crcBuf\<rparr>))))) w"
    unfolding read_record_def
    by (simp only: and_then_Inr [where m = "sys_read (logFile seg) ?p 1", OF magic] simp_thms if_False
        and_then_Inr [where m = "sys_read_full (logFile seg) (?p + 1) 24", OF head] Let_def hs)
  show ?thesis
  proof (cases "25 + ?k \<le> n")
    case False
    then show ?thesis unfolding body by (intro and_then_fails short) (use n in auto)
  next
    case k: True
    note key' = and_then_Inr [where m = "sys_read_full (logFile seg) (?p + 25) ?k", OF key [OF k]]
    show ?thesis
    proof (cases "25 + ?k + ?v \<le> n")
      case False
      then show ?thesis unfolding body key' by (intro and_then_fails short) (use k in auto)
    next
      case v: True
      note val' = and_then_Inr [where m = "sys_read_full (logFile seg) (?p + 25 + ?k) ?v", OF val [OF v]]
      show ?thesis unfolding body key' val' by (intro and_then_fails short) (use n in \<open>auto simp: length_enc\<close>)
    qed
  qed
qed

text \<open>Without faults, \<open>Read\<close> goes through the index to the record.\<close>

lemma Read_at_run:
  assumes at: "at w off seg p" and s: "script w = []"
  shows "Read off w = read_record seg p w"
proof -
  obtain t where before: "off < nextOffset w" and found: "findSegment off (segments w) = Some seg"
    and opened: "h_open (logFile seg)" "h_open (idxFile seg)" and p: "p < 2 ^ 63"
    and idx: "(off - BaseOffset seg) * 8 = of_nat (8 * t)" and t: "8 * t + 8 \<le> idxSize seg" "8 * t + 8 < 2 ^ 63"
    and entry: "take 8 (drop (8 * t) (file_bytes w (h_path (idxFile seg)))) = be_bytes 8 (of_nat p :: u64)"
    using at unfolding at_def by blast
  have sidx: "sint (of_nat (8 * t) :: u64) = int (8 * t)" "sint ((of_nat (8 * t) :: u64) + 8) = int (8 * t + 8)"
    using t(2) sint_of_nat_u64 [of "8 * t"] sint_of_nat_u64 [of "8 * t + 8"] by simp_all
  have calls: "sys_seek (idxFile seg) (int (8 * t)) w = (Inr (8 * t), w)"
      "sys_read_full (idxFile seg) (8 * t) 8 w = (Inr (be_bytes 8 (of_nat p :: u64)), w)"
      "sys_seek (logFile seg) (int p) w = (Inr p, w)"
    using seek_run [OF opened(2) s] seek_run [OF opened(1) s]
      reads_Nil [OF reads_read_full [OF opened(2) entry length_be_bytes] s] by blast+
  have no: "(nextOffset w \<le> off) = False" "(int (idxSize seg) < int (8 * t + 8)) = False"
    using before t(1) by auto
  show ?thesis
    by (simp only: Read_def and_then_def gets_eval found idx sidx no calls be_word_be_bytes_u64 sint_of_nat_u64 [OF p]
        Let_def if_False option.case prod.case sum.case)
qed

lemma torn_at:
  assumes t: "torn_log bo es y e w" and len: "length (kept es y e) < 2 ^ 63" and y: "headed y e"
    and off: "e_Offset e = bo + of_nat (length es)" "unat bo + length es + 1 < 2 ^ 64"
  shows "at w (e_Offset e) (active_segment w) (length (enc_log es))"
proof -
  let ?seg = "active_segment w" and ?p = "length (enc_log es)"
  have seg: "segments w = [?seg]" "BaseOffset ?seg = bo" "h_open (logFile ?seg)" "h_open (idxFile ?seg)"
      "idxSize ?seg = 8 * length (es @ [e])" "h_path (logFile ?seg) = log_name bo" "h_path (idxFile ?seg) = idx_name bo"
    using t by (simp_all add: torn_log_def active_segment_def)
  have u: "unat (e_Offset e) = unat bo + length es"
    using off by (simp add: unat_word_ariths unat_of_nat take_bit_eq_mod)
  have "e_Offset e < e_Offset e + 1"
    using off(2) u by (simp add: word_less_nat_alt unat_word_ariths)
  moreover have "bo \<le> e_Offset e" using u by (simp add: word_le_nat_alt)
  then have "findSegment (e_Offset e) [?seg] = Some ?seg"
    using seg(2) by (simp add: findSegment_def sort_Search.simps)
  moreover have "(e_Offset e - bo) * 8 = of_nat (8 * length es)" by (simp add: off(1))
  moreover have "8 * length es + 8 < 2 ^ 63"
    using enc_log_long [of es] len headed_long [OF y] by (simp add: kept_def length_enc)
  moreover have "take 8 (drop (8 * length es) (index_from 0 (es @ [e]))) = be_bytes 8 (of_nat ?p :: u64)"
    by (simp add: index_from_append)
  moreover have "?p < 2 ^ 63" using len by (simp add: kept_def)
  ultimately show ?thesis
    using t seg unfolding at_def torn_log_def by (auto intro!: exI [of _ "length es"])
qed


lemma Append_torn:
  fixes w :: "'z wal_scheme"
  assumes t: "torn_log bo es y e w" and room: "int (length (kept es y e)) < maxSegmentBytes w"
  shows "\<exists>w'. Append now key val w = (Inr (e_Offset e + 1), w') \<and>
    map_of (files w') (log_name bo) = Some (FileE (kept es y e @
      enc \<lparr>e_Offset = e_Offset e + 1, e_Timestamp = now, e_Key = key, e_Value = val\<rparr>)) \<and>
    (\<exists>x. map_of (files w') (idx_name bo) = Some (FileE x))"
proof -
  let ?buf = "enc \<lparr>e_Offset = e_Offset e + 1, e_Timestamp = now, e_Key = key, e_Value = val\<rparr>"
  let ?seg = "active_segment w" and ?n = "length (kept es y e)" and ?m = "8 * length (es @ [e])"
  have seg: "h_open (logFile ?seg)" "h_open (idxFile ?seg)" "h_path (logFile ?seg) = log_name bo"
      "h_path (idxFile ?seg) = idx_name bo" "seg_size ?seg = ?n" "idxSize ?seg = ?m"
    using t by (simp_all add: torn_log_def active_segment_def)
  have f: "script w = []" "file_bytes w (log_name bo) = kept es y e" "file_bytes w (idx_name bo) = index_from 0 (es @ [e])"
    using t by (simp_all add: torn_log_def)
  define w1 where "w1 = set_file (log_name bo) (kept es y e @ ?buf) w"
  define w2 where "w2 = set_file (idx_name bo) (index_from 0 (es @ [e]) @ be_bytes 8 (of_nat ?n :: u64)) w1"
  have "sys_seek (logFile ?seg) (int ?n) w = (Inr ?n, w)" by (rule seek_run [OF seg(1) f(1)])
  moreover have "sys_write (logFile ?seg) ?n ?buf w = (Inr (), w1)"
    using write_run [OF seg(1) f(1), of ?n ?buf] seg f by (simp add: w1_def)
  moreover have "sys_seek (idxFile ?seg) (int ?m) w1 = (Inr ?m, w1)"
    by (rule seek_run [OF seg(2)]) (use f(1) in \<open>simp add: w1_def\<close>)
  moreover have "sys_write (idxFile ?seg) ?m (be_bytes 8 (of_nat ?n :: u64)) w1 = (Inr (), w2)"
    using write_run [OF seg(2), of w1 ?m] seg f by (simp add: w1_def w2_def)
  ultimately have calls: "write_record off ?buf w =
      (and_then (modify (update_active (\<lambda>seg. seg\<lparr>seg_size := seg_size seg + length ?buf, idxSize := idxSize seg + 8\<rparr>))) (\<lambda>_.
       and_then (modify (\<lambda>w. w\<lparr>nextOffset := nextOffset w + 1\<rparr>)) (\<lambda>_.
       and_then (gets syncEveryWrite) (\<lambda>sync.
       and_then (if sync then and_then (sys_sync (logFile ?seg)) (\<lambda>_. sys_sync (idxFile ?seg))
                 else modify (\<lambda>w. w\<lparr>flushChan := 1\<rparr>)) (\<lambda>_. ret off)))) w2)" for off
    unfolding write_record_def and_then_def gets_eval Let_def seg(5,6) prod.case sum.case
    by (simp only: prod.case sum.case)
  have "script w2 = []" using f by (simp add: w1_def w2_def)
  then have "\<exists>w'. write_record off ?buf w = (Inr off, w') \<and> files w' = files w2" for off
    unfolding calls using seg by (simp add: run_defs update_active_def)
  moreover have "Append now key val w = write_record (e_Offset e + 1) ?buf w"
    using t room seg(5) by (simp add: Append_def record_bytes_enc of_result_def prog_simps torn_log_def)
  moreover have "map_of (files w2) (log_name bo) = Some (FileE (kept es y e @ ?buf))"
      "\<exists>x. map_of (files w2) (idx_name bo) = Some (FileE x)"
    by (simp_all add: w2_def w1_def map_of_set_file)
  ultimately show ?thesis by metis
qed

section \<open>Properties\<close>

text \<open>The directories that hold the files \<open>w\<close> left of the segment \<open>bo\<close>.\<close>

definition left_by :: "'z wal_scheme \<Rightarrow> u64 \<Rightarrow> world \<Rightarrow> bool" where
  "left_by w bo d \<longleftrightarrow> script d = [] \<and> base_offsets (dir_entries d) = [bo] \<and>
     (\<forall>f \<in> {log_name bo, idx_name bo}. map_of (files d) f = map_of (files w) f)"

lemma left_by_ex:
  assumes "map_of (files w) (log_name bo) = Some (FileE a)" and "map_of (files w) (idx_name bo) = Some (FileE x)"
  shows "\<exists>d. left_by w bo d"
proof
  show "left_by w bo \<lparr>files = [(log_name bo, FileE a), (idx_name bo, FileE x)], durable = [], script = []\<rparr>"
    using assms by (simp add: left_by_def base_offsets_def dir_entries_def map_filter_simps log_name_suffix idx_name_suffix
        ParseUint_pad20)
qed

definition torn_sample :: world where
  "torn_sample =
     \<lparr>files = [(log_name 0, FileE (enc sample_entry @
        take 26 (enc \<lparr>e_Offset = 1, e_Timestamp = 8, e_Key = [], e_Value = [1, 2, 3, 4, 5]\<rparr>)))],
      durable = [], script = []\<rparr>"

text \<open>
  C24: a log whose last record was cut off behind its header, by a crash in the middle of the
  write: recovery does not cut the rest off but counts it as a record. It cannot be read, and
  the next append, which succeeds, is written into its missing part: when the process
  starts again the new record is gone, its offset is the next one once more (unless the byte
  at which the missing part would end happens to be a magic byte).
\<close>

theorem torn_record_counted:
  assumes dir: "torn_dir bo es (take n (enc e)) e d" "script d = []" and n: "25 \<le> n" "n < length (enc e)"
    and off: "e_Offset e = bo + of_nat (length es)" "unat bo + length es + 1 < 2 ^ 64"
    and room: "int (length (enc_log es) + n) < maxBytes"
    and new: "new = \<lparr>e_Offset = e_Offset e + 1, e_Timestamp = now, e_Key = key, e_Value = val\<rparr>"
      "length (enc e) - n < length (enc new)" "enc new ! (length (enc e) - n) \<noteq> MagicByte"
      "length (enc_log es) + n + length (enc new) < 2 ^ 63"
  shows "\<exists>w w'. NewWAL sync interval maxBytes d = Some (Inr (), w) \<and> NextOffset w = e_Offset e + 1 \<and>
     fst (Read (e_Offset e) w) \<in> Inl ` {EOF, UnexpectedEOF} \<and>
     Append now key val w = (Inr (e_Offset e + 1), w') \<and>
     (\<exists>d'. left_by w' bo d') \<and>
     (\<forall>d'. left_by w' bo d' \<longrightarrow> (\<exists>w''. NewWAL sync interval maxBytes d' = Some (Inr (), w'') \<and>
        NextOffset w'' = e_Offset e + 1 \<and> Read (e_Offset e + 1) w'' = (Inl ErrOffsetNotFound, w'')))"
proof -
  let ?y = "take n (enc e)"
  have y: "headed ?y e" and fits: "list_all entry_fits es" "entry_fits e" using dir(1) by (simp_all add: torn_dir_def headed_def)
  have kept: "kept es ?y e = enc_log es @ ?y" using n by (simp add: kept_def)
  obtain w where w: "NewWAL sync interval maxBytes d = Some (Inr (), w)" "torn_log bo es ?y e w" "maxSegmentBytes w = maxBytes"
    using NewWAL_torn [OF dir] by blast
  obtain w' where w': "Append now key val w = (Inr (e_Offset e + 1), w')"
      "map_of (files w') (log_name bo) = Some (FileE (enc_log es @ ?y @ enc new))"
      "\<exists>x. map_of (files w') (idx_name bo) = Some (FileE x)"
    using Append_torn [OF w(2), of now key val] room n w(3) unfolding kept new(1) by auto
  have len: "length (kept es ?y e) < 2 ^ 63" using dir(1) by (simp add: torn_dir_def kept)
  have sw: "script w = []" using w(2) by (simp add: torn_log_def)
  note at = torn_at [OF w(2) len y off]
  have "h_open (logFile (active_segment w))" "h_path (logFile (active_segment w)) = log_name bo"
      "file_bytes w (log_name bo) = enc_log es @ ?y"
    using w(2) by (simp_all add: torn_log_def active_segment_def kept)
  then have r: "fst (Read (e_Offset e) w) \<in> Inl ` {EOF, UnexpectedEOF}"
    unfolding Read_at_run [OF at sw] using read_torn_record [OF _ sw _ n fits(2)] by simp
  have again: "\<exists>w''. NewWAL sync interval maxBytes d' = Some (Inr (), w'') \<and>
        NextOffset w'' = e_Offset e + 1 \<and> Read (e_Offset e + 1) w'' = (Inl ErrOffsetNotFound, w'')"
    if d': "left_by w' bo d'" for d'
  proof -
    have "headed (?y @ enc new) e"
      using y n new(2,3) by (auto simp: headed_def nth_append min_def)
    then have "torn_dir bo es (?y @ enc new) e d'"
      using d' w'(2,3) fits new(4) n by (auto simp: torn_dir_def left_by_def)
    moreover have "script d' = []" using d' by (simp add: left_by_def)
    ultimately obtain w'' where w'': "NewWAL sync interval maxBytes d' = Some (Inr (), w'')" "torn_log bo es (?y @ enc new) e w''"
      using NewWAL_torn by blast
    have nxt: "nextOffset w'' = e_Offset e + 1" "script w'' = []" using w''(2) by (simp_all add: torn_log_def)
    then have "Read (e_Offset e + 1) w'' = (Inl ErrOffsetNotFound, w'')"
      using reads_Nil [OF Read_past [of w'' "e_Offset e + 1"]] by simp
    with w''(1) nxt(1) show ?thesis by (auto simp: NextOffset_def)
  qed
  have "NextOffset w = e_Offset e + 1" using w(2) by (simp add: NextOffset_def torn_log_def)
  moreover have "\<exists>d'. left_by w' bo d'" using left_by_ex w'(2,3) by blast
  ultimately show ?thesis using w(1) w'(1) r again by blast
qed

theorem torn_record_counted_witness:
  "\<exists>w w'. NewWAL True 0 1024 torn_sample = Some (Inr (), w) \<and> NextOffset w = 2 \<and>
     fst (Read 1 w) \<in> Inl ` {EOF, UnexpectedEOF} \<and> Append 0 [] [5] w = (Inr 2, w') \<and>
     (\<exists>d'. left_by w' 0 d') \<and>
     (\<forall>d'. left_by w' 0 d' \<longrightarrow> (\<exists>w''. NewWAL True 0 1024 d' = Some (Inr (), w'') \<and>
        NextOffset w'' = 2 \<and> Read 2 w'' = (Inl ErrOffsetNotFound, w'')))"
proof -
  let ?e = "\<lparr>e_Offset = 1, e_Timestamp = 8, e_Key = [], e_Value = [1, 2, 3, 4, 5]\<rparr>"
  let ?new = "\<lparr>e_Offset = 2, e_Timestamp = 0, e_Key = [], e_Value = [5]\<rparr>"
  have "base_offsets (dir_entries torn_sample) = [0]"
    by (simp add: base_offsets_def dir_entries_def torn_sample_def map_filter_simps log_name_suffix ParseUint_first)
  then have dir: "torn_dir 0 [sample_entry] (take 26 (enc ?e)) ?e torn_sample"
    by (simp add: torn_dir_def torn_sample_def headed_def entry_fits_def sample_entry_def length_enc)
      (simp add: enc_def enc_body_def)
  have byte: "enc ?new ! 8 \<noteq> MagicByte"
    by (simp add: enc_def enc_body_def enc_head_def nth_append be_bytes_def MagicByte_def)
  show ?thesis
    using torn_record_counted [OF dir _ _ _ _ _ _ refl, of 1024 0 "[]" "[5]" True 0] byte
    by (simp add: torn_sample_def length_enc sample_entry_def)
qed

end
