(* ===== verification/Config.thy ===== *)
theory Config
  imports Prelude
begin

text \<open>
  The configuration, \<^verbatim>\<open>pkg/config/config.go\<close>, and what the flags of \<^verbatim>\<open>cmd/tumbleweed/main.go\<close>
  make of it. A \<^verbatim>\<open>time.Duration\<close> is its nanoseconds.
\<close>

definition Millisecond :: int where "Millisecond = 1000000"
definition Second :: int where "Second = 1000000000"

record Config =
  DataDir :: string
  BindAddr :: string
  SyncEveryWrite :: bool
  SyncInterval :: int
  MaxSegmentBytes :: int
  DefaultLeaseTimeout :: int
  MaxRedeliveries :: int
  LeaseCheckInterval :: int

definition DefaultConfig :: Config where
  "DefaultConfig =
     \<lparr>DataDir = ''data'', BindAddr = '':8765'', SyncEveryWrite = True,
      SyncInterval = 200 * Millisecond, MaxSegmentBytes = 64 * 1024 * 1024,
      DefaultLeaseTimeout = 30 * Second, MaxRedeliveries = 5,
      LeaseCheckInterval = 200 * Millisecond\<rparr>"

text \<open>
  The values of the command-line flags; the defaults the program registers them with; and
  the configuration of \<^verbatim>\<open>main\<close>, with the 64-bit products it computes (\<open>signed 64\<close> wraps).
\<close>

record Flags =
  dataDir :: string
  bindAddr :: string
  syncEvery :: bool
  syncInt :: int
  maxSegMB :: int
  leaseSec :: int
  maxRedeliv :: int

definition signed64 :: "int \<Rightarrow> int" where
  "signed64 n = (n + 2 ^ 63) mod 2 ^ 64 - 2 ^ 63"

definition default_flags :: Flags where
  "default_flags =
     \<lparr>dataDir = DataDir DefaultConfig, bindAddr = BindAddr DefaultConfig,
      syncEvery = SyncEveryWrite DefaultConfig, syncInt = SyncInterval DefaultConfig,
      maxSegMB = MaxSegmentBytes DefaultConfig div (1024 * 1024),
      leaseSec = DefaultLeaseTimeout DefaultConfig div Second,
      maxRedeliv = MaxRedeliveries DefaultConfig\<rparr>"

definition main_config :: "Flags \<Rightarrow> Config" where
  "main_config fl =
     DefaultConfig\<lparr>DataDir := dataDir fl, BindAddr := bindAddr fl, SyncEveryWrite := syncEvery fl,
       SyncInterval := syncInt fl, MaxSegmentBytes := signed64 (signed64 (maxSegMB fl * 1024) * 1024),
       DefaultLeaseTimeout := signed64 (leaseSec fl * Second), MaxRedeliveries := maxRedeliv fl\<rparr>"

end
