(* ===== verification/Broker.thy ===== *)
theory Broker
  imports Config Protocol Wal
begin

text \<open>
  The broker, \<^verbatim>\<open>pkg/broker/coordinator.go\<close>: topics with their log, consumer groups with their
  leases, long polls, redelivery and the dead-letter topics, and the persisted group
  state. An operation runs while the other goroutines stand still, at one reading \<open>now\<close> of
  the clock; a blocking one is cut into the steps between which others run. The mutex of a
  topic is part of the state: locking it again in the same operation never returns, which
  is the result \<open>None\<close>. The other two mutexes are not taken twice in any operation.
\<close>

section \<open>State\<close>

record LeaseState =
  l_Offset :: u64
  l_ConsumerID :: string
  l_Expiry :: int
  l_Redeliveries :: int
  l_Acked :: bool

text \<open>\<open>g_Leases\<close> is the map \<^verbatim>\<open>Leases\<close>, in the order a \<^verbatim>\<open>range\<close> over it happens to take.\<close>

record ConsumerGroup =
  g_Name :: string
  g_TopicName :: string
  g_CommittedOffset :: u64
  g_Leases :: "(u64 \<times> LeaseState) list"

text \<open>
  \<open>pf_id\<close> names the \<^verbatim>\<open>PendingFetch\<close> (its pointer) and the channel \<^verbatim>\<open>RespChan\<close> of capacity 1,
  which \<open>b_chans\<close> holds.
\<close>

record PendingFetch =
  pf_id :: nat
  pf_ConsumerID :: string
  pf_MaxMessages :: u32
  pf_AckTimeout :: int
  pf_Expiry :: int

text \<open>
  \<open>t_states\<close> is the directory \<^verbatim>\<open>groups\<close>: a name, whether it is a directory, and the committed
  offset \<^verbatim>\<open>encoding/json\<close> decodes from the file (\<open>None\<close>: it gives an error). The temporary
  files, whose names end in \<^verbatim>\<open>.tmp\<close>, are never loaded and left out. The system calls on it
  take their outcomes from the same script as those on the log.
\<close>

record Topic =
  t_Name :: string
  t_wal :: wal
  t_groups :: "(string \<times> ConsumerGroup) list"
  t_pending :: "(string \<times> PendingFetch list) list"
  t_states :: "(string \<times> bool \<times> u64 option) list"
  t_mu :: bool

text \<open>What is on disk of a topic, and the broker; its \<open>files\<close> are the directory \<^verbatim>\<open>topics\<close>.\<close>

record topic_dir =
  td_wal :: world
  td_states :: "(string \<times> bool \<times> u64 option) list"

record Broker = world +
  b_cfg :: Config
  b_topics :: "(string \<times> Topic) list"
  b_dirs :: "(string \<times> topic_dir) list"
  b_closed :: bool
  b_chans :: "nat \<Rightarrow> Message list option"
  b_fetches :: nat

section \<open>Running on a part of the state\<close>

text \<open>A nil pointer is a panic; the topics and groups the code holds pointers to are there.\<close>

definition in_topic :: "string \<Rightarrow> (Topic, 'a) loop \<Rightarrow> (Broker, 'a) loop" where
  "in_topic tn m b =
     (case map_of (b_topics b) tn of
        None \<Rightarrow> Some (Inl Panic, b)
      | Some t \<Rightarrow>
          (case m t of
             None \<Rightarrow> None
           | Some (r, t') \<Rightarrow> Some (r, b\<lparr>b_topics := AList.update tn t' (b_topics b)\<rparr>)))"

definition in_wal :: "(wal, 'a) prog \<Rightarrow> (Topic, 'a) prog" where
  "in_wal m t = (case m (t_wal t) of (r, w) \<Rightarrow> (r, t\<lparr>t_wal := w\<rparr>))"

definition in_group :: "string \<Rightarrow> (ConsumerGroup, 'a) prog \<Rightarrow> (Topic, 'a) prog" where
  "in_group gn m t =
     (case map_of (t_groups t) gn of
        None \<Rightarrow> (Inl Panic, t)
      | Some g \<Rightarrow> (case m g of (r, g') \<Rightarrow> (r, t\<lparr>t_groups := AList.update gn g' (t_groups t)\<rparr>)))"

text \<open>The outcome as a value, for an error that is looked at or ignored; a panic goes on.\<close>

definition try_loop :: "('s, 'a) loop \<Rightarrow> ('s, 'a result) loop" where
  "try_loop m s =
     (case m s of
        None \<Rightarrow> None
      | Some (r, s') \<Rightarrow> if r = Inl Panic then Some (Inl Panic, s') else Some (Inr r, s'))"

definition lock_topic :: "(Topic, unit) loop" where
  "lock_topic t = (if t_mu t then None else Some (Inr (), t\<lparr>t_mu := True\<rparr>))"

definition unlock_topic :: "(Topic, unit) loop" where
  "unlock_topic t = Some (Inr (), t\<lparr>t_mu := False\<rparr>)"

section \<open>Consumer groups\<close>

definition new_group :: "string \<Rightarrow> string \<Rightarrow> u64 \<Rightarrow> ConsumerGroup" where
  "new_group gn tn committed =
     \<lparr>g_Name = gn, g_TopicName = tn, g_CommittedOffset = committed, g_Leases = []\<rparr>"

text \<open>
  \<^verbatim>\<open>persistState\<close>: the calls that make the directory, open, write and sync the temporary
  file, and the rename, which puts the state in place.
\<close>

definition persistState :: "string \<Rightarrow> (Topic, unit) prog" where
  "persistState gn =
     and_then (in_wal sys_mkdir_all) (\<lambda>_.
     and_then (in_wal (syscall (ret ()))) (\<lambda>_.
     and_then (in_group gn (gets g_CommittedOffset)) (\<lambda>committed.
     and_then (in_wal (syscall (ret ()))) (\<lambda>_.
     and_then (in_wal (syscall (ret ()))) (\<lambda>_.
     and_then (in_wal (syscall (ret ()))) (\<lambda>_.
     modify (\<lambda>t. t\<lparr>t_states := AList.update (gn @ ''.state'') (False, Some committed) (t_states t)\<rparr>)))))))"

definition getOrCreateGroup :: "string \<Rightarrow> (Topic, unit) loop" where
  "getOrCreateGroup gn =
     then_loop lock_topic (\<lambda>_.
     then_loop (run (and_then (gets (\<lambda>t. map_of (t_groups t) gn)) (\<lambda>found.
       case found of
         Some g \<Rightarrow> ret ()
       | None \<Rightarrow>
           and_then (modify (\<lambda>t. t\<lparr>t_groups := AList.update gn (new_group gn (t_Name t) 0) (t_groups t)\<rparr>)) (\<lambda>_.
           and_then (attempt (persistState gn)) (\<lambda>_. ret ()))))) (\<lambda>_.
     unlock_topic))"

text \<open>\<^verbatim>\<open>slideWindow\<close>: the loop, and whether it advanced.\<close>

lemma length_delete: "map_of xs k = Some v \<Longrightarrow> length (AList.delete k xs) < length xs"
  by (induction xs) (auto simp: AList.delete_eq less_Suc_eq_le split: if_splits)

function slide :: "ConsumerGroup \<Rightarrow> bool \<Rightarrow> ConsumerGroup \<times> bool" where
  "slide g advanced =
     (case map_of (g_Leases g) (g_CommittedOffset g) of
        None \<Rightarrow> (g, advanced)
      | Some lease \<Rightarrow>
          if l_Acked lease
          then slide (g\<lparr>g_Leases := AList.delete (g_CommittedOffset g) (g_Leases g),
                       g_CommittedOffset := g_CommittedOffset g + 1\<rparr>) True
          else (g, advanced))"
  by pat_completeness auto
termination
  by (relation "measure (\<lambda>(g, _). length (g_Leases g))") (auto intro: length_delete)

declare slide.simps [simp del]

definition slideWindow :: "string \<Rightarrow> (Topic, unit) prog" where
  "slideWindow gn =
     and_then (in_group gn (\<lambda>g. case slide g False of (g', advanced) \<Rightarrow> (Inr advanced, g'))) (\<lambda>advanced.
     if advanced then and_then (attempt (persistState gn)) (\<lambda>_. ret ()) else ret ())"

definition put_lease :: "u64 \<Rightarrow> LeaseState \<Rightarrow> ConsumerGroup \<Rightarrow> ConsumerGroup" where
  "put_lease off l g = g\<lparr>g_Leases := AList.update off l (g_Leases g)\<rparr>"

definition new_lease :: "u64 \<Rightarrow> string \<Rightarrow> int \<Rightarrow> LeaseState" where
  "new_lease off consumer expiry =
     \<lparr>l_Offset = off, l_ConsumerID = consumer, l_Expiry = expiry, l_Redeliveries = 0, l_Acked = False\<rparr>"

definition release :: "string \<Rightarrow> int \<Rightarrow> LeaseState \<Rightarrow> LeaseState" where
  "release consumer expiry l =
     l\<lparr>l_ConsumerID := consumer, l_Expiry := expiry, l_Redeliveries := l_Redeliveries l + 1\<rparr>"

definition is_expired :: "int \<Rightarrow> LeaseState \<Rightarrow> bool" where
  "is_expired now l \<longleftrightarrow> \<not> l_Acked l \<and> l_Expiry l < now"

text \<open>The first offset behind the window of leases.\<close>

definition next_expected :: "ConsumerGroup \<Rightarrow> u64" where
  "next_expected g =
     foldl (\<lambda>next off. if next \<le> off then off + 1 else next) (g_CommittedOffset g) (map fst (g_Leases g))"

section \<open>Opening a topic\<close>

text \<open>\<^verbatim>\<open>filepath.Ext\<close> of a name: from its last dot on.\<close>

definition Ext :: "string \<Rightarrow> string" where
  "Ext s = (if CHR ''.'' \<in> set s then CHR ''.'' # rev (takeWhile (\<lambda>c. c \<noteq> CHR ''.'') (rev s)) else [])"

fun load_states :: "(string \<times> bool \<times> u64 option) list \<Rightarrow> (Topic, unit) prog" where
  "load_states [] = ret ()"
| "load_states ((name, isDir, decoded) # entries) =
     and_then
       (if \<not> isDir \<and> Ext name = ''.state'' then
          and_then (attempt (in_wal (syscall (ret ())))) (\<lambda>opened.
          case opened of Inl _ \<Rightarrow> ret () | Inr _ \<Rightarrow>
          and_then (attempt (in_wal (syscall (ret ())))) (\<lambda>read.
          case (read, decoded) of
            (Inr _, Some committed) \<Rightarrow>
              let gn = TrimSuffix name ''.state'' in
              modify (\<lambda>t. t\<lparr>t_groups := AList.update gn (new_group gn (t_Name t) committed) (t_groups t)\<rparr>)
          | _ \<Rightarrow> ret ()))
        else ret ())
       (\<lambda>_. load_states entries)"

definition loadGroups :: "(Topic, unit) prog" where
  "loadGroups =
     and_then (in_wal sys_mkdir_all) (\<lambda>_.
     and_then (in_wal (syscall (ret ()))) (\<lambda>_.
     and_then (gets t_states) (\<lambda>entries. load_states entries)))"

text \<open>
  \<^verbatim>\<open>CreateTopic\<close>: what the topic's directory holds goes into the opened topic, or stays on
  disk as the failed calls left it.
\<close>

definition dir_of :: "Broker \<Rightarrow> string \<Rightarrow> topic_dir" where
  "dir_of b name =
     (case map_of (b_dirs b) name of
        Some td \<Rightarrow> td
      | None \<Rightarrow> \<lparr>td_wal = \<lparr>files = [], durable = [], script = []\<rparr>, td_states = []\<rparr>)"

definition left_behind :: "string \<Rightarrow> wal \<Rightarrow> (string \<times> bool \<times> u64 option) list \<Rightarrow> Broker \<Rightarrow> Broker" where
  "left_behind name w states b =
     b\<lparr>files := AList.update name DirE (files b),
       b_dirs := AList.update name \<lparr>td_wal = world.truncate w, td_states = states\<rparr> (b_dirs b)\<rparr>"

definition new_topic :: "string \<Rightarrow> wal \<Rightarrow> (string \<times> bool \<times> u64 option) list \<Rightarrow> Topic" where
  "new_topic name w states =
     \<lparr>t_Name = name, t_wal = w, t_groups = [], t_pending = [], t_states = states, t_mu = False\<rparr>"

definition CreateTopic :: "string \<Rightarrow> (Broker, unit) loop" where
  "CreateTopic name b =
     (case map_of (b_topics b) name of
        Some t \<Rightarrow> Some (Inr (), b)
      | None \<Rightarrow>
          (let td = dir_of b name; cfg = b_cfg b in
           case NewWAL (SyncEveryWrite cfg) (SyncInterval cfg) (MaxSegmentBytes cfg) (td_wal td) of
             None \<Rightarrow> None
           | Some (Inl e, w) \<Rightarrow> Some (Inl e, left_behind name w (td_states td) b)
           | Some (Inr _, w) \<Rightarrow>
               (case loadGroups (new_topic name w (td_states td)) of
                  (Inl e, t) \<Rightarrow>
                    (case Close (t_wal t) of (_, w') \<Rightarrow> Some (Inl e, left_behind name w' (t_states t) b))
                | (Inr _, t) \<Rightarrow>
                    Some (Inr (), b\<lparr>files := AList.update name DirE (files b),
                                    b_topics := AList.update name t (b_topics b)\<rparr>))))"

section \<open>Produce\<close>

definition message_of :: "Record \<Rightarrow> Message" where
  "message_of rec =
     \<lparr>m_Offset = r_Offset rec, m_Timestamp = r_Timestamp rec, m_Key = r_Key rec, m_Value = r_Value rec\<rparr>"

text \<open>\<^verbatim>\<open>select { case ch <- msgs: default: }\<close>.\<close>

definition try_send :: "nat \<Rightarrow> Message list \<Rightarrow> Broker \<Rightarrow> Broker" where
  "try_send ch msgs b =
     (case b_chans b ch of None \<Rightarrow> b\<lparr>b_chans := (b_chans b)(ch := Some msgs)\<rparr> | Some _ \<Rightarrow> b)"

definition pending_of :: "Topic \<Rightarrow> string \<Rightarrow> PendingFetch list" where
  "pending_of t gn = (case map_of (t_pending t) gn of None \<Rightarrow> [] | Some pfs \<Rightarrow> pfs)"

definition set_pending :: "string \<Rightarrow> PendingFetch list \<Rightarrow> Topic \<Rightarrow> Topic" where
  "set_pending gn pfs t = t\<lparr>t_pending := AList.update gn pfs (t_pending t)\<rparr>"

text \<open>The loop of \<^verbatim>\<open>dispatchMessage\<close> over the groups with an entry in \<^verbatim>\<open>pendingFetches\<close>.\<close>

fun dispatch_groups :: "string \<Rightarrow> Message \<Rightarrow> int \<Rightarrow> string list \<Rightarrow> (Broker, unit) loop" where
  "dispatch_groups tn msg now [] = run (ret ())"
| "dispatch_groups tn msg now (gn # gns) =
     then_loop (in_topic tn (run (gets (\<lambda>t. pending_of t gn)))) (\<lambda>fetches.
     if fetches = [] then dispatch_groups tn msg now gns else
     then_loop (in_topic tn (getOrCreateGroup gn)) (\<lambda>_.
     then_loop (in_topic tn (run (in_group gn (gets next_expected)))) (\<lambda>nextExpectedOffset.
     if m_Offset msg = nextExpectedOffset then
       let pf = hd fetches in
       then_loop (in_topic tn (run (and_then (modify (set_pending gn (tl fetches))) (\<lambda>_.
         in_group gn (modify (put_lease (m_Offset msg)
           (new_lease (m_Offset msg) (pf_ConsumerID pf) (now + pf_AckTimeout pf)))))))) (\<lambda>_.
       then_loop (run (modify (try_send (pf_id pf) [msg]))) (\<lambda>_.
       dispatch_groups tn msg now gns))
     else dispatch_groups tn msg now gns)))"

definition dispatchMessage :: "string \<Rightarrow> Message \<Rightarrow> int \<Rightarrow> (Broker, unit) loop" where
  "dispatchMessage tn msg now =
     then_loop (in_topic tn lock_topic) (\<lambda>_.
     then_loop (in_topic tn (run (gets (\<lambda>t. map fst (t_pending t))))) (\<lambda>gns.
     then_loop (dispatch_groups tn msg now gns) (\<lambda>_.
     in_topic tn unlock_topic)))"

definition Produce :: "string \<Rightarrow> byte list \<Rightarrow> byte list \<Rightarrow> int \<Rightarrow> (Broker, u64) loop" where
  "Produce topicName key val now =
     then_loop (CreateTopic topicName) (\<lambda>_.
     then_loop (in_topic topicName (run (in_wal (Append (of_int now) key val)))) (\<lambda>offset.
     then_loop (try_loop (in_topic topicName (run (in_wal (Read offset))))) (\<lambda>rec.
     case rec of
       Inl _ \<Rightarrow> run (ret offset)
     | Inr rec \<Rightarrow>
         then_loop (dispatchMessage topicName (message_of rec) now) (\<lambda>_.
         run (ret offset)))))"

section \<open>Fetch\<close>

text \<open>The exchange sort of \<^verbatim>\<open>fetchAvailable\<close>: its inner and its outer loop.\<close>

function exchange_from :: "u64 list \<Rightarrow> nat \<Rightarrow> nat \<Rightarrow> u64 list" where
  "exchange_from xs i j =
     (if j < length xs
      then exchange_from (if xs ! j < xs ! i then xs[i := xs ! j, j := xs ! i] else xs) i (j + 1)
      else xs)"
  by pat_completeness auto
termination
  by (relation "measure (\<lambda>(xs, i, j). length xs - j)") auto

declare exchange_from.simps [simp del]

lemma length_exchange_from [simp]: "length (exchange_from xs i j) = length xs"
proof (induction xs i j rule: exchange_from.induct)
  case (1 xs i j)
  then show ?case by (subst exchange_from.simps) (simp split: if_splits)
qed

function exchange_sort :: "u64 list \<Rightarrow> nat \<Rightarrow> u64 list" where
  "exchange_sort xs i = (if i < length xs then exchange_sort (exchange_from xs i (i + 1)) (i + 1) else xs)"
  by pat_completeness auto
termination
  by (relation "measure (\<lambda>(xs, i). length xs - i)") auto

declare exchange_sort.simps [simp del]

definition expired_offsets :: "int \<Rightarrow> ConsumerGroup \<Rightarrow> u64 list" where
  "expired_offsets now g = map fst (filter (\<lambda>(off, l). is_expired now l) (g_Leases g))"

text \<open>The dead-letter branch: copy the message to the other topic if it can be read, count it
  as acknowledged.\<close>

definition to_dlq :: "string \<Rightarrow> string \<Rightarrow> u64 \<Rightarrow> int \<Rightarrow> (Broker, unit) loop" where
  "to_dlq tn gn off now =
     then_loop (try_loop (in_topic tn (run (in_wal (Read off))))) (\<lambda>rec.
     then_loop
       (case rec of
          Inl _ \<Rightarrow> run (ret ())
        | Inr rec \<Rightarrow>
            then_loop (try_loop (Produce (tn @ ''-dlq'') (r_Key rec) (r_Value rec) now)) (\<lambda>_. run (ret ()))) (\<lambda>_.
     in_topic tn (run (and_then
       (in_group gn (modify (\<lambda>g. case map_of (g_Leases g) off of
          None \<Rightarrow> g | Some l \<Rightarrow> put_lease off (l\<lparr>l_Acked := True\<rparr>) g))) (\<lambda>_. slideWindow gn)))))"

text \<open>The loop of \<^verbatim>\<open>fetchAvailable\<close> over the expired leases.\<close>

fun fetch_expired ::
    "string \<Rightarrow> string \<Rightarrow> string \<Rightarrow> u32 \<Rightarrow> int \<Rightarrow> int \<Rightarrow> u64 list \<Rightarrow> Message list \<Rightarrow> (Broker, Message list) loop" where
  "fetch_expired tn gn consumer maxCount ackTimeout now [] msgs = run (ret msgs)"
| "fetch_expired tn gn consumer maxCount ackTimeout now (off # offs) msgs =
     (if maxCount \<le> of_nat (length msgs) then run (ret msgs) else
      then_loop (in_topic tn (run (in_group gn (gets (\<lambda>g. map_of (g_Leases g) off))))) (\<lambda>lease.
      then_loop (run (gets (\<lambda>b. MaxRedeliveries (b_cfg b)))) (\<lambda>maxRedeliveries.
      case lease of None \<Rightarrow> run (fail Panic) | Some l \<Rightarrow>
      if maxRedeliveries \<le> l_Redeliveries l then
        then_loop (to_dlq tn gn off now) (\<lambda>_.
        fetch_expired tn gn consumer maxCount ackTimeout now offs msgs)
      else
        then_loop (try_loop (in_topic tn (run (in_wal (Read off))))) (\<lambda>rec.
        case rec of
          Inl _ \<Rightarrow> fetch_expired tn gn consumer maxCount ackTimeout now offs msgs
        | Inr rec \<Rightarrow>
            then_loop (in_topic tn (run (in_group gn (modify
              (put_lease off (release consumer (now + ackTimeout) l)))))) (\<lambda>_.
            fetch_expired tn gn consumer maxCount ackTimeout now offs (msgs @ [message_of rec]))))))"

text \<open>The loop of \<^verbatim>\<open>fetchAvailable\<close> over the new offsets of the log.\<close>

function fetch_new ::
    "string \<Rightarrow> string \<Rightarrow> string \<Rightarrow> u32 \<Rightarrow> int \<Rightarrow> u64 \<Rightarrow> u64 \<Rightarrow> Message list \<Rightarrow> (Broker, Message list) loop" where
  "fetch_new tn gn consumer maxCount expiry walNext off msgs b =
     (if off < walNext \<and> of_nat (length msgs) < maxCount then
        (case try_loop (in_topic tn (run (in_wal (Read off)))) b of
           None \<Rightarrow> None
         | Some (Inl e, b) \<Rightarrow> Some (Inl e, b)
         | Some (Inr (Inl e), b) \<Rightarrow> Some (Inr msgs, b)
         | Some (Inr (Inr rec), b) \<Rightarrow>
             (case in_topic tn (run (in_group gn (modify
                (put_lease off (new_lease off consumer expiry))))) b of
                None \<Rightarrow> None
              | Some (Inl e, b) \<Rightarrow> Some (Inl e, b)
              | Some (Inr _, b) \<Rightarrow>
                  fetch_new tn gn consumer maxCount expiry walNext (off + 1)
                    (msgs @ [message_of rec]) b))
      else Some (Inr msgs, b))"
  by pat_completeness auto
termination
proof (relation "measure (\<lambda>(tn, gn, consumer, maxCount, expiry, walNext, off, msgs, b). unat walNext - unat off)")
  fix off walNext :: u64 and msgs :: "Message list" and maxCount :: u32
  assume "off < walNext \<and> of_nat (length msgs) < maxCount"
  then have "unat off < unat walNext" "unat (off + 1) = unat off + 1"
    using unat_u64_Suc [of off walNext] by (auto simp: word_less_nat_alt)
  then show "((tn, gn, consumer, maxCount, expiry, walNext, off + 1, msgs', b'), (tn, gn, consumer, maxCount, expiry, walNext, off, msgs, b)) \<in>
      measure (\<lambda>(tn, gn, consumer, maxCount, expiry, walNext, off, msgs, b). unat walNext - unat off)" for tn gn consumer expiry msgs' b' b
    by simp
qed auto


declare fetch_new.simps [simp del]

definition fetchAvailable ::
    "string \<Rightarrow> string \<Rightarrow> string \<Rightarrow> u32 \<Rightarrow> int \<Rightarrow> int \<Rightarrow> (Broker, Message list) loop" where
  "fetchAvailable tn gn consumer maxCount ackTimeout now =
     then_loop (in_topic tn (run (in_group gn (gets (expired_offsets now))))) (\<lambda>expired.
     then_loop (fetch_expired tn gn consumer maxCount ackTimeout now (exchange_sort expired 0) []) (\<lambda>msgs.
     then_loop (in_topic tn (run (in_group gn (gets next_expected)))) (\<lambda>off.
     then_loop (in_topic tn (run (gets (\<lambda>t. NextOffset (t_wal t))))) (\<lambda>walNext.
     fetch_new tn gn consumer maxCount (now + ackTimeout) walNext off msgs))))"

text \<open>
  \<^verbatim>\<open>Fetch\<close> returns messages, or nothing, at once, or it waits on the channel of its pending
  fetch; then it is woken by a message or by its timer.
\<close>

datatype fetched = Returned "Message list" | Waiting nat

definition Fetch :: "FetchRequest \<Rightarrow> int \<Rightarrow> (Broker, fetched) loop" where
  "Fetch req now =
     then_loop (CreateTopic (fq_Topic req)) (\<lambda>_.
     then_loop (in_topic (fq_Topic req) (getOrCreateGroup (fq_Group req))) (\<lambda>_.
     then_loop (run (gets (\<lambda>b. let ackTimeout = int (unat (fq_AckTimeoutMs req)) * Millisecond
        in if ackTimeout = 0 then DefaultLeaseTimeout (b_cfg b) else ackTimeout))) (\<lambda>ackTimeout.
     then_loop (fetchAvailable (fq_Topic req) (fq_Group req) (fq_ConsumerID req) (fq_MaxMessages req) ackTimeout now) (\<lambda>messages.
     if messages \<noteq> [] then run (ret (Returned messages))
     else if fq_LongPollTimeoutMs req = 0 then run (ret (Returned []))
     else
       then_loop (run (gets b_fetches)) (\<lambda>ch.
       let pf = \<lparr>pf_id = ch, pf_ConsumerID = fq_ConsumerID req, pf_MaxMessages = fq_MaxMessages req,
                 pf_AckTimeout = ackTimeout,
                 pf_Expiry = now + int (unat (fq_LongPollTimeoutMs req)) * Millisecond\<rparr>
       in
       then_loop (run (modify (\<lambda>b. b\<lparr>b_fetches := ch + 1, b_chans := (b_chans b)(ch := None)\<rparr>))) (\<lambda>_.
       then_loop (in_topic (fq_Topic req) lock_topic) (\<lambda>_.
       then_loop (in_topic (fq_Topic req) (run (modify (\<lambda>t.
         set_pending (fq_Group req) (pending_of t (fq_Group req) @ [pf]) t)))) (\<lambda>_.
       then_loop (in_topic (fq_Topic req) unlock_topic) (\<lambda>_.
       run (ret (Waiting ch)))))))))))"

text \<open>The two ways a waiting \<^verbatim>\<open>Fetch\<close> goes on: a message in the channel, the timer.\<close>

definition Fetch_receive :: "nat \<Rightarrow> Broker \<Rightarrow> (Message list result \<times> Broker) option" where
  "Fetch_receive ch b =
     (case b_chans b ch of None \<Rightarrow> None | Some msgs \<Rightarrow> Some (Inr msgs, b\<lparr>b_chans := (b_chans b)(ch := None)\<rparr>))"

fun remove_first :: "nat \<Rightarrow> PendingFetch list \<Rightarrow> PendingFetch list" where
  "remove_first ch [] = []"
| "remove_first ch (pf # pfs) = (if pf_id pf = ch then pfs else pf # remove_first ch pfs)"

definition Fetch_timeout :: "FetchRequest \<Rightarrow> nat \<Rightarrow> (Broker, Message list) loop" where
  "Fetch_timeout req ch =
     then_loop (in_topic (fq_Topic req) lock_topic) (\<lambda>_.
     then_loop (in_topic (fq_Topic req) (run (modify (\<lambda>t.
       case map_of (t_pending t) (fq_Group req) of
         None \<Rightarrow> t | Some pfs \<Rightarrow> set_pending (fq_Group req) (remove_first ch pfs) t)))) (\<lambda>_.
     then_loop (in_topic (fq_Topic req) unlock_topic) (\<lambda>_.
     run (ret []))))"

section \<open>Ack and Nack\<close>

definition Ack :: "string \<Rightarrow> string \<Rightarrow> u64 \<Rightarrow> (Broker, unit) loop" where
  "Ack topicName groupName off =
     then_loop (run (gets (\<lambda>b. map_of (b_topics b) topicName))) (\<lambda>found.
     if found = None then run (fail ErrTopicNotFound) else
     then_loop (in_topic topicName (getOrCreateGroup groupName)) (\<lambda>_.
     in_topic topicName (run (
       and_then (in_group groupName (gets g_CommittedOffset)) (\<lambda>committed.
       if off < committed then ret () else
       and_then (in_group groupName (gets (\<lambda>g. map_of (g_Leases g) off))) (\<lambda>lease.
       case lease of None \<Rightarrow> fail ErrLeaseNotFound | Some l \<Rightarrow>
       and_then (in_group groupName (modify (put_lease off (l\<lparr>l_Acked := True\<rparr>)))) (\<lambda>_.
       slideWindow groupName)))))))"

definition Nack :: "string \<Rightarrow> string \<Rightarrow> u64 \<Rightarrow> int \<Rightarrow> (Broker, unit) loop" where
  "Nack topicName groupName off now =
     then_loop (run (gets (\<lambda>b. map_of (b_topics b) topicName))) (\<lambda>found.
     if found = None then run (fail ErrTopicNotFound) else
     then_loop (in_topic topicName (getOrCreateGroup groupName)) (\<lambda>_.
     then_loop (in_topic topicName (run (in_group groupName (gets (\<lambda>g. map_of (g_Leases g) off))))) (\<lambda>lease.
     case lease of None \<Rightarrow> run (fail ErrLeaseNotFound) | Some l \<Rightarrow>
     if l_Acked l then run (fail ErrLeaseNotFound) else
     then_loop (in_topic topicName (run (in_group groupName (modify (put_lease off (l\<lparr>l_Expiry := now\<rparr>)))))) (\<lambda>_.
     then_loop (in_topic topicName lock_topic) (\<lambda>_.
     then_loop (in_topic topicName (run (gets (\<lambda>t. pending_of t groupName)))) (\<lambda>fetches.
     if fetches \<noteq> [] then
       let pf = hd fetches in
       then_loop (in_topic topicName (run (modify (set_pending groupName (tl fetches))))) (\<lambda>_.
       then_loop (in_topic topicName unlock_topic) (\<lambda>_.
       then_loop (in_topic topicName (run (in_group groupName (modify (put_lease off
         (release (pf_ConsumerID pf) (now + pf_AckTimeout pf) l)))))) (\<lambda>_.
       then_loop (try_loop (in_topic topicName (run (in_wal (Read off))))) (\<lambda>rec.
       case rec of
         Inl _ \<Rightarrow> run (ret ())
       | Inr rec \<Rightarrow> run (modify (try_send (pf_id pf) [message_of rec]))))))
     else in_topic topicName unlock_topic))))))"

section \<open>Expired leases\<close>

definition first_expired :: "int \<Rightarrow> ConsumerGroup \<Rightarrow> u64 option" where
  "first_expired now g =
     foldl (\<lambda>found (off, l).
       if is_expired now l
       then (case found of None \<Rightarrow> Some off | Some e \<Rightarrow> if off < e then Some off else found)
       else found) None (g_Leases g)"

fun check_groups :: "string \<Rightarrow> int \<Rightarrow> string list \<Rightarrow> (Broker, unit) loop" where
  "check_groups tn now [] = run (ret ())"
| "check_groups tn now (gn # gns) =
     then_loop (in_topic tn (run (gets (\<lambda>t. pending_of t gn)))) (\<lambda>fetches.
     then_loop (in_topic tn (run (gets (\<lambda>t. map_of (t_groups t) gn)))) (\<lambda>group.
     if fetches = [] \<or> group = None then check_groups tn now gns else
     then_loop (in_topic tn (run (in_group gn (gets (first_expired now))))) (\<lambda>found.
     case found of None \<Rightarrow> check_groups tn now gns | Some expiredOffset \<Rightarrow>
     let pf = hd fetches in
     then_loop (in_topic tn (run (modify (set_pending gn (tl fetches))))) (\<lambda>_.
     then_loop (in_topic tn (run (in_group gn (gets (\<lambda>g. map_of (g_Leases g) expiredOffset))))) (\<lambda>lease.
     then_loop (run (gets (\<lambda>b. MaxRedeliveries (b_cfg b)))) (\<lambda>maxRedeliveries.
     case lease of None \<Rightarrow> run (fail Panic) | Some l \<Rightarrow>
     if maxRedeliveries \<le> l_Redeliveries l then
       then_loop (to_dlq tn gn expiredOffset now) (\<lambda>_. check_groups tn now gns)
     else
       then_loop (try_loop (in_topic tn (run (in_wal (Read expiredOffset))))) (\<lambda>rec.
       case rec of
         Inl _ \<Rightarrow> check_groups tn now gns
       | Inr rec \<Rightarrow>
           then_loop (in_topic tn (run (in_group gn (modify (put_lease expiredOffset
             (release (pf_ConsumerID pf) (now + pf_AckTimeout pf) l)))))) (\<lambda>_.
           then_loop (run (modify (try_send (pf_id pf) [message_of rec]))) (\<lambda>_.
           check_groups tn now gns)))))))))"

definition checkExpiredLeases :: "string \<Rightarrow> int \<Rightarrow> (Broker, unit) loop" where
  "checkExpiredLeases tn now =
     then_loop (in_topic tn lock_topic) (\<lambda>_.
     then_loop (in_topic tn (run (gets (\<lambda>t. map fst (t_pending t))))) (\<lambda>gns.
     then_loop (check_groups tn now gns) (\<lambda>_.
     in_topic tn unlock_topic)))"

fun check_topics :: "int \<Rightarrow> string list \<Rightarrow> (Broker, unit) loop" where
  "check_topics now [] = run (ret ())"
| "check_topics now (tn # tns) = then_loop (checkExpiredLeases tn now) (\<lambda>_. check_topics now tns)"

text \<open>A tick of \<^verbatim>\<open>leaseExpiryLoop\<close>; does the loop go on?\<close>

definition leaseExpiry_tick :: "int \<Rightarrow> (Broker, bool) loop" where
  "leaseExpiry_tick now =
     then_loop (run (gets b_closed)) (\<lambda>closed.
     if closed then run (ret False) else
     then_loop (run (gets (\<lambda>b. map fst (b_topics b)))) (\<lambda>tns.
     then_loop (check_topics now tns) (\<lambda>_. run (ret True))))"

section \<open>The broker\<close>

fun create_topics :: "(string \<times> bool) list \<Rightarrow> (Broker, unit) loop" where
  "create_topics [] = run (ret ())"
| "create_topics ((name, isDir) # entries) =
     then_loop (if isDir then CreateTopic name else run (ret ())) (\<lambda>_. create_topics entries)"

definition loadTopics :: "(Broker, unit) loop" where
  "loadTopics =
     then_loop (run sys_mkdir_all) (\<lambda>_.
     then_loop (run sys_readdir) (\<lambda>entries. create_topics entries))"

definition new_broker :: "Config \<Rightarrow> (string \<times> topic_dir) list \<Rightarrow> world \<Rightarrow> Broker" where
  "new_broker cfg dirs d =
     world.extend d \<lparr>b_cfg = cfg, b_topics = [], b_dirs = dirs, b_closed = False,
       b_chans = (\<lambda>_. None), b_fetches = 0\<rparr>"

definition NewBroker :: "Config \<Rightarrow> (string \<times> topic_dir) list \<Rightarrow> world \<Rightarrow> (unit result \<times> Broker) option" where
  "NewBroker cfg dirs d = then_loop (run sys_mkdir_all) (\<lambda>_. loadTopics) (new_broker cfg dirs d)"

definition ListTopics :: "Broker \<Rightarrow> string list" where
  "ListTopics b = map fst (b_topics b)"

fun close_topics :: "string list \<Rightarrow> go_error option \<Rightarrow> (Broker, go_error option) loop" where
  "close_topics [] lastErr = run (ret lastErr)"
| "close_topics (tn # tns) lastErr =
     then_loop (in_topic tn lock_topic) (\<lambda>_.
     then_loop (try_loop (in_topic tn (run (in_wal Close)))) (\<lambda>r.
     then_loop (in_topic tn unlock_topic) (\<lambda>_.
     close_topics tns (case r of Inl e \<Rightarrow> Some e | Inr _ \<Rightarrow> lastErr))))"

definition Broker_Close :: "(Broker, unit) loop" where
  "Broker_Close =
     then_loop (run (gets b_closed)) (\<lambda>closed.
     if closed then run (ret ()) else
     then_loop (run (modify (\<lambda>b. b\<lparr>b_closed := True\<rparr>))) (\<lambda>_.
     then_loop (run (gets (\<lambda>b. map fst (b_topics b)))) (\<lambda>tns.
     then_loop (close_topics tns None) (\<lambda>lastErr.
     case lastErr of None \<Rightarrow> run (ret ()) | Some e \<Rightarrow> run (fail e)))))"

end
