(* ===== verification/Leases.thy ===== *)
theory Leases
  imports Broker Wal_Log "HOL-Library.Multiset"
begin

text \<open>
  The leases of a consumer group: the contract of a window whose entries leave it at the
  front once they are done, and the proof that the map of leases with \<^verbatim>\<open>slideWindow\<close> keeps
  it; the end of the window; and the exchange sort of \<^verbatim>\<open>fetchAvailable\<close>.
\<close>

section \<open>The contract of a window\<close>

text \<open>
  A window of entries that leave it at the front once they are done: \<open>start\<close> is the absolute
  position of the first one.
\<close>

locale window =
  fixes inv :: "'g \<Rightarrow> bool"
    and start :: "'g \<Rightarrow> nat"
    and entries :: "'g \<Rightarrow> 'l list"
    and room :: "'g \<Rightarrow> bool"
    and put :: "nat \<Rightarrow> 'l \<Rightarrow> 'g \<Rightarrow> 'g"
    and advance :: "'g \<Rightarrow> 'g"
    and finished :: "'l \<Rightarrow> bool"
  assumes put_new: "inv g \<Longrightarrow> room g \<Longrightarrow> k = start g + length (entries g) \<Longrightarrow>
      inv (put k l g) \<and> start (put k l g) = start g \<and> entries (put k l g) = entries g @ [l]"
    and put_old: "inv g \<Longrightarrow> i < length (entries g) \<Longrightarrow> k = start g + i \<Longrightarrow>
      inv (put k l g) \<and> start (put k l g) = start g \<and> entries (put k l g) = (entries g)[i := l]"
    and advance: "inv g \<Longrightarrow>
      inv (advance g) \<and> start (advance g) = start g + length (takeWhile finished (entries g)) \<and>
      entries (advance g) = dropWhile finished (entries g)"
begin

text \<open>After \<open>advance\<close> the window is empty or starts with an entry that is not done.\<close>

lemma advance_front: "inv g \<Longrightarrow> entries (advance g) \<noteq> [] \<Longrightarrow> \<not> finished (hd (entries (advance g)))"
  using advance [of g] hd_dropWhile [of finished "entries g"] by simp

lemma advance_all: "inv g \<Longrightarrow> list_all finished (entries g) \<Longrightarrow> start (advance g) = start g + length (entries g)"
  using advance [of g] by (simp add: list_all_iff) (metis takeWhile_eq_all_conv)

text \<open>What leaves the window is done; what is not done keeps its absolute position.\<close>

lemma advance_passed:
  assumes "inv g" and "start g \<le> k" and "k < start (advance g)"
  shows "k - start g < length (entries g) \<and> finished (entries g ! (k - start g))"
proof -
  let ?i = "k - start g" and ?t = "takeWhile finished (entries g)"
  have i: "?i < length ?t" using advance [OF assms(1)] assms(2,3) by auto
  then have "?t ! ?i \<in> set ?t" by (rule nth_mem)
  then have "finished (?t ! ?i)" by (rule set_takeWhileD [THEN conjunct2])
  then show ?thesis using i length_takeWhile_le [of finished "entries g"] by (simp add: takeWhile_nth)
qed

lemma advance_kept:
  assumes g: "inv g" and "i < length (entries g)" and "\<not> finished (entries g ! i)"
  shows "start (advance g) \<le> start g + i \<and> start g + i - start (advance g) < length (entries (advance g)) \<and>
    entries (advance g) ! (start g + i - start (advance g)) = entries g ! i"
proof -
  let ?t = "takeWhile finished (entries g)" and ?d = "dropWhile finished (entries g)"
  have split: "entries g = ?t @ ?d" by simp
  have "length ?t \<le> i"
  proof (rule ccontr)
    assume "\<not> length ?t \<le> i"
    then have i: "i < length ?t" by simp
    then have "?t ! i \<in> set ?t" by (rule nth_mem)
    then have "finished (?t ! i)" by (rule set_takeWhileD [THEN conjunct2])
    with assms(3) i show False by (simp add: takeWhile_nth)
  qed
  moreover have "length (entries g) = length ?t + length ?d" by (metis length_append split)
  moreover have "entries g ! i = ?d ! (i - length ?t)" using calculation(1) by (metis nth_append not_less split)
  ultimately show ?thesis using advance [OF g] assms(2) by simp
qed

text \<open>
  Marking entry \<open>i\<close> and advancing: the start never passes an entry that is neither done nor
  the marked one.
\<close>

lemma mark_advance:
  fixes l :: 'l
  assumes g: "inv g" and i: "i < length (entries g)"
  defines "g' \<equiv> advance (put (start g + i) l g)"
  shows "inv g'" and "start g \<le> start g'"
    and "start g \<le> k \<Longrightarrow> k < start g' \<Longrightarrow> k \<noteq> start g + i \<Longrightarrow>
      k - start g < length (entries g) \<and> finished (entries g ! (k - start g))"
    and "j < length (entries g) \<Longrightarrow> j \<noteq> i \<Longrightarrow> \<not> finished (entries g ! j) \<Longrightarrow>
      start g' \<le> start g + j \<and> start g + j - start g' < length (entries g') \<and>
      entries g' ! (start g + j - start g') = entries g ! j"
proof -
  have p: "inv (put (start g + i) l g)" "start (put (start g + i) l g) = start g"
      "entries (put (start g + i) l g) = (entries g)[i := l]"
    using put_old [OF g i refl] by simp_all
  show "inv g'" "start g \<le> start g'" using advance [OF p(1)] p(2) by (simp_all add: g'_def)
  show "k - start g < length (entries g) \<and> finished (entries g ! (k - start g))"
    if "start g \<le> k" "k < start g'" "k \<noteq> start g + i"
  proof -
    have "k - start g \<noteq> i" using that by auto
    then show ?thesis using advance_passed [OF p(1), of k] that by (auto simp: p(2,3) g'_def)
  qed
  show "start g' \<le> start g + j \<and> start g + j - start g' < length (entries g') \<and>
      entries g' ! (start g + j - start g') = entries g ! j"
    if "j < length (entries g)" "j \<noteq> i" "\<not> finished (entries g ! j)"
    using advance_kept [OF p(1), of j] that by (simp add: p(2,3) g'_def)
qed

end

section \<open>The leases of a group\<close>

text \<open>
  The offsets under lease are consecutive from the committed offset on; a key is the offset
  of its lease.
\<close>

definition group_of :: "Broker \<Rightarrow> string \<Rightarrow> string \<Rightarrow> ConsumerGroup option" where
  "group_of b tn gn = (case map_of (b_topics b) tn of None \<Rightarrow> None | Some t \<Rightarrow> map_of (t_groups t) gn)"

definition committed :: "ConsumerGroup \<Rightarrow> nat" where
  "committed g = unat (g_CommittedOffset g)"

definition window_end :: "ConsumerGroup \<Rightarrow> nat" where
  "window_end g = committed g + length (g_Leases g)"

definition group_ok :: "ConsumerGroup \<Rightarrow> bool" where
  "group_ok g \<longleftrightarrow>
     distinct (map fst (g_Leases g)) \<and> window_end g < 2 ^ 64 \<and>
     set (map fst (g_Leases g)) = of_nat ` {committed g ..< window_end g}"

definition leases_list :: "ConsumerGroup \<Rightarrow> LeaseState list" where
  "leases_list g = map (\<lambda>k. the (map_of (g_Leases g) (of_nat k))) [committed g ..< window_end g]"

lemma length_leases_list [simp]: "length (leases_list g) = length (g_Leases g)"
  by (simp add: leases_list_def window_end_def)

lemma leases_list_nth: "i < length (g_Leases g) \<Longrightarrow> leases_list g ! i = the (map_of (g_Leases g) (of_nat (committed g + i)))"
  by (simp add: leases_list_def window_end_def)

lemma group_ok_lookup:
  assumes "group_ok g" and "k < 2 ^ 64"
  shows "map_of (g_Leases g) (of_nat k) =
    (if committed g \<le> k \<and> k < window_end g then Some (leases_list g ! (k - committed g)) else None)"
proof (cases "committed g \<le> k \<and> k < window_end g")
  case True
  then have "of_nat k \<in> fst ` set (g_Leases g)" using assms(1) by (auto simp: group_ok_def)
  then obtain l where "map_of (g_Leases g) (of_nat k) = Some l" by (metis map_of_eq_None_iff not_None_eq)
  moreover have "leases_list g ! (k - committed g) = the (map_of (g_Leases g) (of_nat k))"
    using True leases_list_nth [of "k - committed g" g]
    by (metis add_diff_inverse_nat add_less_cancel_left linorder_not_le window_end_def)
  ultimately show ?thesis using True by simp
next
  case False
  have "(of_nat k :: u64) \<notin> of_nat ` {committed g ..< window_end g}"
    using False assms of_nat_u64_inj by (auto simp: group_ok_def)
  then have "of_nat k \<notin> fst ` set (g_Leases g)" using assms(1) by (simp add: group_ok_def)
  then have "map_of (g_Leases g) (of_nat k) = None" by (simp add: map_of_eq_None_iff)
  then show ?thesis using False by auto
qed

lemma group_ok_lookup_word:
  assumes "group_ok g"
  shows "map_of (g_Leases g) off =
    (if committed g \<le> unat off \<and> unat off < window_end g then Some (leases_list g ! (unat off - committed g)) else None)"
  using group_ok_lookup [OF assms, of "unat off"] unat_u64_bound [of off] by simp

lemma length_update: "length (AList.update k v xs) = (if k \<in> fst ` set xs then length xs else length xs + 1)"
  by (induction xs) auto

lemma keys_update: "fst ` set (AList.update k v xs) = insert k (fst ` set xs)"
  by (induction xs) auto

lemma put_lease_committed [simp]: "committed (put_lease off l g) = committed g"
  "g_CommittedOffset (put_lease off l g) = g_CommittedOffset g"
  by (simp_all add: put_lease_def committed_def)

lemma leases_list_eqI:
  assumes "committed g' = committed g" and "length xs = length (g_Leases g')"
    and "\<And>i. i < length xs \<Longrightarrow> map_of (g_Leases g') (of_nat (committed g + i)) = Some (xs ! i)"
  shows "leases_list g' = xs"
  using assms by (intro nth_equalityI) (simp_all add: leases_list_nth)

lemma group_put_new:
  assumes ok: "group_ok g" and room: "window_end g + 1 < 2 ^ 64" and k: "k = window_end g"
  shows "group_ok (put_lease (of_nat k) l g) \<and> leases_list (put_lease (of_nat k) l g) = leases_list g @ [l]"
proof -
  have fresh: "(of_nat k :: u64) \<notin> fst ` set (g_Leases g)"
    using ok room of_nat_u64_inj by (auto simp: group_ok_def k)
  let ?g = "put_lease (of_nat k) l g"
  have len: "length (g_Leases ?g) = length (g_Leases g) + 1" using fresh by (simp add: put_lease_def length_update)
  then have w: "window_end ?g = window_end g + 1" by (simp add: window_end_def)
  have "{committed g ..< window_end g + 1} = insert k {committed g ..< window_end g}"
    by (auto simp: k window_end_def)
  then have "group_ok ?g"
    using ok room by (simp add: group_ok_def w) (simp add: put_lease_def AList.distinct_update keys_update)
  moreover have "leases_list ?g = leases_list g @ [l]"
  proof (rule leases_list_eqI [where g = g])
    fix i assume i: "i < length (leases_list g @ [l])"
    show "map_of (g_Leases ?g) (of_nat (committed g + i)) = Some ((leases_list g @ [l]) ! i)"
    proof (cases "i = length (g_Leases g)")
      case True
      then show ?thesis by (simp add: put_lease_def AList.update_conv' k window_end_def nth_append)
    next
      case False
      then have "i < length (g_Leases g)" using i by simp
      moreover then have "(of_nat (committed g + i) :: u64) \<noteq> of_nat k"
        using room of_nat_u64_inj [of "committed g + i" k] by (simp add: k window_end_def)
      ultimately show ?thesis
        using group_ok_lookup [OF ok, of "committed g + i"] room
        by (simp add: put_lease_def AList.update_conv' nth_append window_end_def del: of_nat_add)
    qed
  qed (use len in simp_all)
  ultimately show ?thesis ..
qed

lemma group_put_old:
  assumes ok: "group_ok g" and i: "i < length (g_Leases g)" and k: "k = committed g + i"
  shows "group_ok (put_lease (of_nat k) l g) \<and> leases_list (put_lease (of_nat k) l g) = (leases_list g)[i := l]"
proof -
  have k64: "k < 2 ^ 64" "k < window_end g" using ok i by (simp_all add: group_ok_def k window_end_def)
  have present: "(of_nat k :: u64) \<in> fst ` set (g_Leases g)"
  proof -
    have "fst ` set (g_Leases g) = of_nat ` {committed g ..< window_end g}" using ok by (simp add: group_ok_def)
    moreover have "k \<in> {committed g ..< window_end g}" using i by (simp add: k window_end_def)
    ultimately show ?thesis by blast
  qed
  let ?g = "put_lease (of_nat k) l g"
  have len: "length (g_Leases ?g) = length (g_Leases g)" using present by (simp add: put_lease_def length_update)
  then have w: "window_end ?g = window_end g" by (simp add: window_end_def)
  have "fst ` set (g_Leases ?g) = insert (of_nat k) (fst ` set (g_Leases g))"
    by (simp add: put_lease_def keys_update)
  then have "group_ok ?g"
    using ok present by (simp add: group_ok_def w insert_absorb) (simp add: put_lease_def AList.distinct_update)
  moreover have "leases_list ?g = (leases_list g)[i := l]"
  proof (rule leases_list_eqI [where g = g])
    fix j assume j: "j < length ((leases_list g)[i := l])"
    have "(of_nat (committed g + j) :: u64) = of_nat k \<longleftrightarrow> j = i"
      using k64 j ok of_nat_u64_inj [of "committed g + j" k] by (simp add: k group_ok_def window_end_def del: of_nat_add)
    then show "map_of (g_Leases ?g) (of_nat (committed g + j)) = Some ((leases_list g)[i := l] ! j)"
      using group_ok_lookup [OF ok, of "committed g + j"] j ok
      by (simp add: put_lease_def AList.update_conv' window_end_def nth_list_update group_ok_def del: of_nat_add)
  qed (use len in simp_all)
  ultimately show ?thesis ..
qed


lemma keys_card: "distinct (map fst xs) \<Longrightarrow> length xs = card (fst ` set xs)"
  using distinct_card [of "map fst xs"] by simp

lemma group_delete_front:
  assumes ok: "group_ok g" and ne: "g_Leases g \<noteq> []"
  defines "g1 \<equiv> g\<lparr>g_Leases := AList.delete (g_CommittedOffset g) (g_Leases g),
      g_CommittedOffset := g_CommittedOffset g + 1\<rparr>"
  shows "group_ok g1 \<and> committed g1 = committed g + 1 \<and> leases_list g1 = tl (leases_list g) \<and>
    window_end g1 = window_end g"
proof -
  let ?K = "fst ` set (g_Leases g)" and ?C = "g_CommittedOffset g"
  have C: "?C = of_nat (committed g)" by (simp add: committed_def)
  have W: "window_end g < 2 ^ 64" "committed g < window_end g" using ok ne by (auto simp: group_ok_def window_end_def)
  have c1: "committed g1 = committed g + 1"
  proof -
    have "committed g1 = unat (?C + 1)" by (simp add: g1_def committed_def)
    also have "\<dots> = unat (of_nat (committed g + 1) :: u64)" by (simp add: C add.commute)
    finally show ?thesis using W unat_of_nat_u64 [of "committed g + 1"] by simp
  qed
  have K: "?K = of_nat ` {committed g ..< window_end g}" and d: "distinct (map fst (g_Leases g))"
    using ok by (simp_all add: group_ok_def)
  have keys: "fst ` set (g_Leases g1) = ?K - {?C}" by (auto simp: g1_def AList.delete_eq)
  have d1: "distinct (map fst (g_Leases g1))" using d by (simp add: g1_def AList.distinct_delete)
  have "?C \<in> ?K" using W unfolding K C by simp
  then have len: "length (g_Leases g1) = length (g_Leases g) - 1"
    using keys_card [OF d] keys_card [OF d1] keys by simp
  then have w1: "window_end g1 = window_end g" using ne c1 by (cases "g_Leases g") (simp_all add: window_end_def)
  have "?K - {?C} = of_nat ` {committed g + 1 ..< window_end g}"
  proof -
    have "{committed g ..< window_end g} = insert (committed g) {committed g + 1 ..< window_end g}" using W by auto
    moreover have "(of_nat (committed g) :: u64) \<notin> of_nat ` {committed g + 1 ..< window_end g}"
    proof
      assume "(of_nat (committed g) :: u64) \<in> of_nat ` {committed g + 1 ..< window_end g}"
      then obtain k where "(of_nat (committed g) :: u64) = of_nat k" "committed g < k" "k < window_end g" by auto
      with W of_nat_u64_inj [of "committed g" k] show False by simp
    qed
    ultimately show ?thesis unfolding K C by simp
  qed
  then have ok1: "group_ok g1" using d1 W keys by (simp add: group_ok_def w1 c1)
  moreover have "leases_list g1 = tl (leases_list g)"
  proof (rule leases_list_eqI [where g = g1])
    fix i assume i: "i < length (tl (leases_list g))"
    have k: "committed g + 1 + i < window_end g" using i by (simp add: window_end_def)
    have "(of_nat (committed g + 1 + i) :: u64) \<noteq> ?C"
      unfolding C using k W of_nat_u64_inj [of "committed g + 1 + i" "committed g"] by simp
    then have "map_of (g_Leases g1) (of_nat (committed g + 1 + i)) = map_of (g_Leases g) (of_nat (committed g + 1 + i))"
      by (simp add: g1_def AList.delete_conv' del: of_nat_add)
    also have "\<dots> = Some (leases_list g ! (i + 1))"
      using group_ok_lookup [OF ok, of "committed g + 1 + i"] k W by (simp del: of_nat_add)
    finally show "map_of (g_Leases g1) (of_nat (committed g1 + i)) = Some (tl (leases_list g) ! i)"
      using i by (simp add: c1 nth_tl)
  qed (use len in simp_all)
  ultimately show ?thesis using c1 w1 by simp
qed

text \<open>\<^verbatim>\<open>slideWindow\<close> drops the acknowledged leases at the front of the window.\<close>

lemma slide_refines:
  "group_ok g \<Longrightarrow> slide g adv = (g', adv') \<Longrightarrow>
    group_ok g' \<and> window_end g' = window_end g \<and>
    committed g' = committed g + length (takeWhile l_Acked (leases_list g)) \<and>
    leases_list g' = dropWhile l_Acked (leases_list g) \<and>
    (adv' \<longleftrightarrow> adv \<or> takeWhile l_Acked (leases_list g) \<noteq> [])"
proof (induction g adv arbitrary: g' adv' rule: slide.induct)
  case (1 g adv)
  have look: "map_of (g_Leases g) (g_CommittedOffset g) =
      (if g_Leases g = [] then None else Some (hd (leases_list g)))"
    using group_ok_lookup_word [OF 1(2), of "g_CommittedOffset g"]
    by (simp add: committed_def window_end_def hd_conv_nth flip: length_0_conv [of "leases_list g"])
  show ?case
  proof (cases "leases_list g")
    case Nil
    then have "g_Leases g = []" by (metis length_0_conv length_leases_list)
    then have "slide g adv = (g, adv)" by (subst slide.simps) simp
    then show ?thesis using 1(2,3) Nil by simp
  next
    case (Cons l ls)
    then have ne: "g_Leases g \<noteq> []" by (metis length_0_conv length_leases_list list.distinct(1))
    with look Cons have l: "map_of (g_Leases g) (g_CommittedOffset g) = Some l" by simp
    show ?thesis
    proof (cases "l_Acked l")
      case False
      then have "slide g adv = (g, adv)" using l by (subst slide.simps) simp
      then show ?thesis using 1(2,3) Cons False by simp
    next
      case True
      let ?g1 = "g\<lparr>g_Leases := AList.delete (g_CommittedOffset g) (g_Leases g),
          g_CommittedOffset := g_CommittedOffset g + 1\<rparr>"
      have s: "slide ?g1 True = (g', adv')" using 1(3) l True by (subst (asm) slide.simps) simp
      note f = group_delete_front [OF 1(2) ne]
      show ?thesis using 1(1) [OF l True _ s] f Cons True by simp
    qed
  qed
qed

interpretation lw: window group_ok committed leases_list "\<lambda>g. window_end g + 1 < 2 ^ 64"
    "\<lambda>k. put_lease (of_nat k)" "\<lambda>g. fst (slide g False)" l_Acked
proof unfold_locales
  fix g k l
  assume "group_ok g" "window_end g + 1 < 2 ^ 64" "k = committed g + length (leases_list g)"
  then show "group_ok (put_lease (of_nat k) l g) \<and> committed (put_lease (of_nat k) l g) = committed g \<and>
      leases_list (put_lease (of_nat k) l g) = leases_list g @ [l]"
    using group_put_new [of g k l] by (simp add: window_end_def)
next
  fix g i k l
  assume "group_ok g" "i < length (leases_list g)" "k = committed g + i"
  then show "group_ok (put_lease (of_nat k) l g) \<and> committed (put_lease (of_nat k) l g) = committed g \<and>
      leases_list (put_lease (of_nat k) l g) = (leases_list g)[i := l]"
    using group_put_old [of g i k l] by simp
next
  fix g assume "group_ok g"
  then show "group_ok (fst (slide g False)) \<and>
      committed (fst (slide g False)) = committed g + length (takeWhile l_Acked (leases_list g)) \<and>
      leases_list (fst (slide g False)) = dropWhile l_Acked (leases_list g)"
    using slide_refines [of g False] by (cases "slide g False") auto
qed

section \<open>The end of the window\<close>

lemma fold_next:
  assumes "\<forall>x \<in> set xs. unat (x :: u64) + 1 < 2 ^ 64"
  shows "unat (foldl (\<lambda>next off. if next \<le> off then off + 1 else next) n xs) =
    Max (insert (unat n) ((\<lambda>x. unat x + 1) ` set xs))"
  using assms
proof (induction xs arbitrary: n)
  case (Cons x xs)
  have "unat (x + 1) = unat x + 1" using Cons.prems by (simp add: unat_word_ariths)
  then have step: "unat (if n \<le> x then x + 1 else n) = max (unat n) (unat x + 1)"
    by (auto simp: word_le_nat_alt max_def)
  have max: "Max (insert (max a b) A) = Max (insert a (insert b A))" if "finite A" for a b :: nat and A
    using that by (cases "A = {}") (simp_all add: max.assoc)
  show ?case
    using Cons.IH [of "if n \<le> x then x + 1 else n"] Cons.prems max [of "(\<lambda>x. unat x + 1) ` set xs" "unat n" "unat x + 1"]
    by (simp only: foldl_Cons step list.set image_insert) simp
qed simp

lemma next_expected_end:
  assumes ok: "group_ok g"
  shows "next_expected g = of_nat (window_end g)"
proof -
  let ?K = "set (map fst (g_Leases g))"
  have W: "window_end g < 2 ^ 64" and K: "?K = of_nat ` {committed g ..< window_end g}" and cw: "committed g \<le> window_end g"
    using ok by (simp_all add: group_ok_def window_end_def)
  have u: "unat (of_nat k :: u64) = k" if "k < window_end g" for k using W that by (intro unat_of_nat_u64) simp
  have "(\<lambda>x. unat x + 1) ` ?K = Suc ` {committed g ..< window_end g}"
    unfolding K image_image using u by (auto intro!: image_cong)
  then have img: "insert (committed g) ((\<lambda>x. unat x + 1) ` ?K) = {committed g .. window_end g}"
    using cw by (simp add: image_Suc_atLeastLessThan) auto
  have "\<forall>x \<in> ?K. unat x + 1 < 2 ^ 64" unfolding K using u W by auto
  from fold_next [OF this, of "g_CommittedOffset g"] have "unat (next_expected g) = window_end g"
    using img cw Max_eqI [of "{committed g .. window_end g}" "window_end g"]
    by (simp add: next_expected_def committed_def [symmetric])
  then show ?thesis by (metis unat_of_nat_u64 W unsigned_word_eqI)
qed

section \<open>The exchange sort\<close>

lemma mset_swap_at: "i < length xs \<Longrightarrow> j < length xs \<Longrightarrow> mset (xs[i := xs ! j, j := xs ! i]) = mset xs"
  by (simp add: mset_swap)

lemma exchange_from_spec:
  assumes "i < j" and "i < length xs" and "\<And>k. i < k \<Longrightarrow> k < j \<Longrightarrow> k < length xs \<Longrightarrow> xs ! i \<le> xs ! k"
  shows "mset (exchange_from xs i j) = mset xs \<and> take i (exchange_from xs i j) = take i xs \<and>
    (\<forall>k. i < k \<and> k < length xs \<longrightarrow> exchange_from xs i j ! i \<le> exchange_from xs i j ! k)"
  using assms
proof (induction xs i j rule: exchange_from.induct)
  case (1 xs i j)
  show ?case
  proof (cases "j < length xs")
    case False
    then have "exchange_from xs i j = xs" by (subst exchange_from.simps) simp
    then show ?thesis using 1(4) False by auto
  next
    case True
    let ?ys = "if xs ! j < xs ! i then xs[i := xs ! j, j := xs ! i] else xs"
    have step: "exchange_from xs i j = exchange_from ?ys i (j + 1)"
      using True by (subst exchange_from.simps) simp
    have ys: "mset ?ys = mset xs" "length ?ys = length xs" "take i ?ys = take i xs"
      using True 1(2,3) mset_swap_at [of i xs j] by auto
    have "?ys ! i \<le> ?ys ! k" if "i < k" "k < j + 1" "k < length ?ys" for k
    proof (cases "k = j")
      case True
      then show ?thesis using that \<open>j < length xs\<close> 1(3) by auto
    next
      case False
      then have "xs ! i \<le> xs ! k" using 1(4) [of k] that ys(2) by simp
      then show ?thesis using False that 1(3) by auto
    qed
    then show ?thesis using 1(1) [OF True] ys 1(2,3) unfolding step by simp
  qed
qed

lemma exchange_sort_spec:
  assumes "i \<le> length xs" and "sorted (take i xs)"
    and "\<forall>x \<in> set (take i xs). \<forall>y \<in> set (drop i xs). x \<le> y"
  shows "mset (exchange_sort xs i) = mset xs \<and> sorted (exchange_sort xs i)"
  using assms
proof (induction xs i rule: exchange_sort.induct)
  case (1 xs i)
  show ?case
  proof (cases "i < length xs")
    case False
    then show ?thesis using 1(2-4) by (subst (1 2) exchange_sort.simps) simp
  next
    case True
    let ?ys = "exchange_from xs i (i + 1)"
    have ys: "mset ?ys = mset xs" "take i ?ys = take i xs"
      and least: "\<And>k. i < k \<Longrightarrow> k < length xs \<Longrightarrow> ?ys ! i \<le> ?ys ! k"
      using exchange_from_spec [of i "i + 1" xs] True by auto
    have split: "?ys = take i xs @ ?ys ! i # drop (i + 1) ?ys"
      using id_take_nth_drop [of i ?ys] True ys(2) by simp
    have "mset (drop i ?ys) = mset (drop i xs)"
      using ys by (metis add_left_imp_eq append_take_drop_id mset_append)
    then have dset: "set (drop i ?ys) = set (drop i xs)" by (rule mset_eq_setD)
    have d: "drop i ?ys = ?ys ! i # drop (i + 1) ?ys" using True by (simp add: Cons_nth_drop_Suc)
    have t: "take (i + 1) ?ys = take i xs @ [?ys ! i]" using True ys(2) by (simp add: take_Suc_conv_app_nth)
    have rest: "?ys ! i \<le> y" if "y \<in> set (drop (i + 1) ?ys)" for y
      using that least True by (auto simp: in_set_conv_nth)
    have low: "x \<le> y" if "x \<in> set (take i xs)" "y \<in> set (drop i ?ys)" for x y
      using 1(4) that dset by blast
    have "sorted (take (i + 1) ?ys)"
      unfolding t using 1(3) low d by (auto simp: sorted_append)
    moreover have "\<forall>x \<in> set (take (i + 1) ?ys). \<forall>y \<in> set (drop (i + 1) ?ys). x \<le> y"
      unfolding t using rest low d by auto
    ultimately have "mset (exchange_sort ?ys (i + 1)) = mset ?ys \<and> sorted (exchange_sort ?ys (i + 1))"
      using 1(1) [OF True] True by simp
    then show ?thesis using True ys(1) by (subst (1 2) exchange_sort.simps) simp
  qed
qed

lemma exchange_sort_sort: "exchange_sort xs 0 = sort xs"
  using exchange_sort_spec [of 0 xs] properties_for_sort [of "exchange_sort xs 0" xs] by simp

end
