(* ===== verification/Lease_Machine.thy ===== *)
theory Lease_Machine
  imports Leases
begin

text \<open>
  The life of the messages of a consumer group as a machine of its own: the contract the
  operations of the broker implement. Its state is a ledger, the committed offset and the
  leases from it on (\<open>None\<close>: the group is not there); its events are what can happen to a
  group. What is proved of the histories of the machine holds of every run of the broker.
\<close>

section \<open>The machine\<close>

type_synonym ledger = "nat \<times> LeaseState list"

datatype lease_event =
    Opened nat
  | Granted nat
  | Redelivered nat
  | HandedOver nat
  | Rejected nat
  | Acknowledged nat
  | DeadLettered nat
  | Committed nat

definition acked :: "LeaseState \<Rightarrow> LeaseState" where
  "acked l = l\<lparr>l_Acked := True\<rparr>"

text \<open>
  \<open>limit\<close> is \<^verbatim>\<open>MaxRedeliveries\<close>. A lease that ran out is given again while it is below the
  limit and dead-lettered after that; a rejected one may be handed over to a waiting consumer
  whatever its count.
\<close>

inductive lease_step :: "int \<Rightarrow> lease_event \<Rightarrow> ledger option \<Rightarrow> ledger option \<Rightarrow> bool" for limit :: int where
  open_group: "lease_step limit (Opened c) None (Some (c, []))"
| grant: "\<not> l_Acked l \<Longrightarrow> l_Redeliveries l = 0 \<Longrightarrow> k = c + length ls \<Longrightarrow>
    lease_step limit (Granted k) (Some (c, ls)) (Some (c, ls @ [l]))"
| redeliver: "i < length ls \<Longrightarrow> k = c + i \<Longrightarrow> \<not> l_Acked (ls ! i) \<Longrightarrow> l_Redeliveries (ls ! i) < limit \<Longrightarrow>
    lease_step limit (Redelivered k) (Some (c, ls)) (Some (c, ls[i := release consumer expiry (ls ! i)]))"
| hand_over: "i < length ls \<Longrightarrow> k = c + i \<Longrightarrow> \<not> l_Acked (ls ! i) \<Longrightarrow>
    lease_step limit (HandedOver k) (Some (c, ls)) (Some (c, ls[i := release consumer expiry (ls ! i)]))"
| reject: "i < length ls \<Longrightarrow> k = c + i \<Longrightarrow> \<not> l_Acked (ls ! i) \<Longrightarrow>
    lease_step limit (Rejected k) (Some (c, ls)) (Some (c, ls[i := (ls ! i)\<lparr>l_Expiry := now\<rparr>]))"
| acknowledge: "i < length ls \<Longrightarrow> k = c + i \<Longrightarrow>
    lease_step limit (Acknowledged k) (Some (c, ls)) (Some (c, ls[i := acked (ls ! i)]))"
| dead_letter: "i < length ls \<Longrightarrow> k = c + i \<Longrightarrow> \<not> l_Acked (ls ! i) \<Longrightarrow> limit \<le> l_Redeliveries (ls ! i) \<Longrightarrow>
    lease_step limit (DeadLettered k) (Some (c, ls)) (Some (c, ls[i := acked (ls ! i)]))"
| commit: "l_Acked l \<Longrightarrow> lease_step limit (Committed c) (Some (c, l # ls)) (Some (c + 1, ls))"

inductive_cases lease_step_None: "lease_step limit e None s"
inductive_cases lease_step_Some: "lease_step limit e (Some (c, ls)) s"

text \<open>A history: the events of a run, in order.\<close>

inductive lease_run :: "int \<Rightarrow> lease_event list \<Rightarrow> ledger option \<Rightarrow> ledger option \<Rightarrow> bool" for limit :: int where
  stop: "lease_run limit [] s s"
| step: "lease_step limit e s s' \<Longrightarrow> lease_run limit es s' s'' \<Longrightarrow> lease_run limit (e # es) s s''"

inductive_cases lease_run_Nil: "lease_run limit [] s s'"

lemma lease_run_one: "lease_step limit e s s' \<Longrightarrow> lease_run limit [e] s s'"
  by (rule lease_run.step [OF _ lease_run.stop])

lemma lease_run_append: "lease_run limit es s s' \<Longrightarrow> lease_run limit es' s' s'' \<Longrightarrow> lease_run limit (es @ es') s s''"
  by (induction rule: lease_run.induct) (auto intro: lease_run.intros)

section \<open>What a history shows\<close>

definition entry_at :: "ledger \<Rightarrow> nat \<Rightarrow> LeaseState option" where
  "entry_at s k = (if fst s \<le> k \<and> k < fst s + length (snd s) then Some (snd s ! (k - fst s)) else None)"

definition settled :: "ledger \<Rightarrow> nat \<Rightarrow> bool" where
  "settled s k \<longleftrightarrow> k < fst s \<or> (\<exists>l. entry_at s k = Some l \<and> l_Acked l)"

lemma settled_step:
  assumes "lease_step limit e (Some s) s'" and "settled (the s') k"
  shows "settled s k \<or> e = Acknowledged k \<or> e = DeadLettered k"
  using assms(1)
proof (cases rule: lease_step.cases)
  case (grant l k' c ls)
  then show ?thesis using assms(2) by (auto simp: settled_def entry_at_def nth_append split: if_splits)
next
  case (commit l c ls)
  then show ?thesis using assms(2) by (cases "k = c") (auto simp: settled_def entry_at_def nth_Cons' split: if_splits)
qed (use assms(2) in \<open>auto simp: settled_def entry_at_def nth_list_update acked_def release_def split: if_splits\<close>)

lemma lease_step_is_Some: "lease_step limit e s s' \<Longrightarrow> \<exists>l. s' = Some l"
  by (cases rule: lease_step.cases) auto

text \<open>An offset is settled only by an acknowledgement or as a dead letter.\<close>

lemma settled_run:
  "lease_run limit es s s' \<Longrightarrow> s = Some l \<Longrightarrow> settled (the s') k \<Longrightarrow>
    settled l k \<or> Acknowledged k \<in> set es \<or> DeadLettered k \<in> set es"
proof (induction arbitrary: l rule: lease_run.induct)
  case (step e s s1 es s2)
  obtain l1 where l1: "s1 = Some l1" using lease_step_is_Some [OF step(1)] by blast
  from step.IH [OF l1 step.prems(2)] settled_step [OF step(1) [unfolded step.prems(1)], of k] l1
  show ?case by auto
qed simp

lemma committed_run:
  "lease_run limit es s s' \<Longrightarrow> s = Some l \<Longrightarrow> \<exists>l'. s' = Some l' \<and> fst l \<le> fst l'"
proof (induction arbitrary: l rule: lease_run.induct)
  case (step e s s1 es s2)
  obtain l1 where l1: "s1 = Some l1" using lease_step_is_Some [OF step(1)] by blast
  moreover have "fst l \<le> fst l1" using step(1) unfolding step.prems l1 by (cases rule: lease_step.cases) auto
  ultimately show ?case using step.IH [OF l1] by auto
qed auto

text \<open>
  A message is granted once; it is redelivered at most \<open>limit\<close> times unless it is handed over
  after a rejection.
\<close>

lemma granted_step:
  assumes "lease_step limit e (Some s) s'"
  shows "fst (the s') + length (snd (the s')) = fst s + length (snd s) + (if e = Granted (fst s + length (snd s)) then 1 else 0)"
    and "e = Granted k \<Longrightarrow> k = fst s + length (snd s)"
  using assms by (cases rule: lease_step.cases; auto)+

lemma granted_run:
  "lease_run limit es s s' \<Longrightarrow> s = Some l \<Longrightarrow>
    filter (\<lambda>e. \<exists>k. e = Granted k) es = map Granted [fst l + length (snd l) ..< fst (the s') + length (snd (the s'))]
    \<and> fst l + length (snd l) \<le> fst (the s') + length (snd (the s'))"
proof (induction arbitrary: l rule: lease_run.induct)
  case (step e s s1 es s2)
  obtain l1 where l1: "s1 = Some l1" using lease_step_is_Some [OF step(1)] by blast
  note g = granted_step [OF step(1) [unfolded step.prems]]
  show ?case
  proof (cases "\<exists>k. e = Granted k")
    case True
    then obtain k where k: "e = Granted k" by blast
    with g have "k = fst l + length (snd l)" "fst l1 + length (snd l1) = k + 1" using l1 by auto
    then show ?thesis using step.IH [OF l1] k upt_conv_Cons [of k "fst (the s2) + length (snd (the s2))"] by auto
  next
    case False
    then have "fst l1 + length (snd l1) = fst l + length (snd l)" using g l1 by auto
    then show ?thesis using step.IH [OF l1] False by auto
  qed
qed auto

definition within :: "int \<Rightarrow> ledger \<Rightarrow> bool" where
  "within limit s \<longleftrightarrow> (\<forall>l \<in> set (snd s). l_Redeliveries l \<le> limit)"

lemma within_step:
  assumes "lease_step limit e (Some s) s'" and "0 \<le> limit" and "within limit s" and "\<forall>k. e \<noteq> HandedOver k"
  shows "within limit (the s')"
  using assms(1)
proof (cases rule: lease_step.cases)
  case (redeliver i ls k c consumer expiry)
  then show ?thesis using assms(3) set_update_subset_insert [of ls i]
    by (fastforce simp: within_def release_def)
next
  case (reject i ls k c now)
  then have "\<forall>l \<in> set (ls[i := (ls ! i)\<lparr>l_Expiry := now\<rparr>]). l_Redeliveries l \<le> limit"
    using assms(3) set_update_subset_insert [of ls i] by (fastforce simp: within_def)
  then show ?thesis using reject by (simp add: within_def)
next
  case (acknowledge i ls k c)
  then have "\<forall>l \<in> set (ls[i := acked (ls ! i)]). l_Redeliveries l \<le> limit"
    using assms(3) set_update_subset_insert [of ls i] by (fastforce simp: within_def acked_def)
  then show ?thesis using acknowledge by (simp add: within_def)
next
  case (dead_letter i ls k c)
  then have "\<forall>l \<in> set (ls[i := acked (ls ! i)]). l_Redeliveries l \<le> limit"
    using assms(3) set_update_subset_insert [of ls i] by (fastforce simp: within_def acked_def)
  then show ?thesis using dead_letter by (simp add: within_def)
qed (use assms(2-4) in \<open>auto simp: within_def\<close>)

lemma within_run:
  "lease_run limit es s s' \<Longrightarrow> s = Some l \<Longrightarrow> 0 \<le> limit \<Longrightarrow> within limit l \<Longrightarrow> \<forall>k. HandedOver k \<notin> set es \<Longrightarrow>
    within limit (the s')"
proof (induction arbitrary: l rule: lease_run.induct)
  case (step e s s1 es s2)
  obtain l1 where l1: "s1 = Some l1" using lease_step_is_Some [OF step(1)] by blast
  have "within limit l1" using within_step [OF step(1) [unfolded step.prems(1)]] step.prems l1 by auto
  then show ?case using step.IH [OF l1] step.prems by auto
qed auto

end
