(* ===== verification/Broker_Effects.thy ===== *)
theory Broker_Effects
  imports Lease_Machine
begin

text \<open>
  The effect of a piece of the broker's code on the consumer groups: the assertion
  \<open>effect R P m Q\<close>, its rules for the sequencing of the code, and the three relations the
  operations are measured with: the groups stay, groups may be added, the leases change as
  the machine of leases allows.
\<close>

section \<open>Effects\<close>

definition effect :: "('s \<Rightarrow> 's \<Rightarrow> bool) \<Rightarrow> ('s \<Rightarrow> bool) \<Rightarrow> ('s, 'a) loop \<Rightarrow> ('a \<Rightarrow> 's \<Rightarrow> bool) \<Rightarrow> bool" where
  "effect R P m Q \<longleftrightarrow>
     (\<forall>s. P s \<longrightarrow>
       (case m s of None \<Rightarrow> True | Some (Inl e, s') \<Rightarrow> R s s' | Some (Inr a, s') \<Rightarrow> R s s' \<and> Q a s'))"

lemma effectI:
  assumes "\<And>s r s'. P s \<Longrightarrow> m s = Some (r, s') \<Longrightarrow> R s s' \<and> (\<forall>a. r = Inr a \<longrightarrow> Q a s')"
  shows "effect R P m Q"
  using assms unfolding effect_def by (fastforce split: option.splits prod.splits sum.splits)

lemma effectD:
  assumes "effect R P m Q" and "P s" and "m s = Some (r, s')"
  shows "R s s'" and "r = Inr a \<Longrightarrow> Q a s'"
  using assms unfolding effect_def by (fastforce split: option.splits prod.splits sum.splits)+

lemma effect_post: "effect R P m Q \<Longrightarrow> (\<And>a s. Q a s \<Longrightarrow> Q' a s) \<Longrightarrow> effect R P m Q'"
  by (fastforce simp: effect_def split: option.splits prod.splits sum.splits)

lemma effect_pre: "effect R P m Q \<Longrightarrow> (\<And>s. P' s \<Longrightarrow> P s) \<Longrightarrow> effect R P' m Q"
  by (fastforce simp: effect_def split: option.splits prod.splits sum.splits)

lemma effect_weaken: "effect R P m Q \<Longrightarrow> (\<And>s s'. R s s' \<Longrightarrow> R' s s') \<Longrightarrow> effect R' P m Q"
  by (fastforce simp: effect_def split: option.splits prod.splits sum.splits)

lemma effect_None: "(\<And>s. P s \<Longrightarrow> m s = None) \<Longrightarrow> effect R P m Q"
  by (simp add: effect_def)

lemma effect_ex: "(\<And>x. effect R (P x) m Q) \<Longrightarrow> effect R (\<lambda>s. \<exists>x. P x s) m Q"
  by (fastforce simp: effect_def split: option.splits prod.splits sum.splits)

lemma effect_fact: "(c \<Longrightarrow> effect R P m Q) \<Longrightarrow> effect R (\<lambda>s. P s \<and> c) m Q"
  by (fastforce simp: effect_def split: option.splits prod.splits sum.splits)

lemma effect_conj:
  "effect R P m Q \<Longrightarrow> (\<And>s s'. P s \<Longrightarrow> R s s' \<Longrightarrow> I s') \<Longrightarrow> effect R P m (\<lambda>a s. Q a s \<and> I s)"
  by (fastforce simp: effect_def split: option.splits prod.splits sum.splits)

lemma effect_stable:
  "effect R P m Q \<Longrightarrow> (\<And>s s'. P s \<Longrightarrow> R s s' \<Longrightarrow> I s') \<Longrightarrow> effect R P m (\<lambda>a. I)"
  by (fastforce simp: effect_def split: option.splits prod.splits sum.splits)

lemma effect_try:
  assumes "effect R P m Q" and "\<And>s s'. P s \<Longrightarrow> R s s' \<Longrightarrow> I s'"
  shows "effect R P (try_loop m) (\<lambda>r. I)"
proof (rule effectI)
  fix s r s' assume P: "P s" and run: "try_loop m s = Some (r, s')"
  then obtain q where "m s = Some (q, s')" by (auto simp: try_loop_def split: option.splits prod.splits if_splits)
  from effectD(1) [OF assms(1) P this] assms(2) [OF P] show "R s s' \<and> (\<forall>a. r = Inr a \<longrightarrow> I s')" by blast
qed

lemma effect_if: "(c \<Longrightarrow> effect R P m Q) \<Longrightarrow> (\<not> c \<Longrightarrow> effect R P n Q) \<Longrightarrow> effect R P (if c then m else n) Q"
  by simp

lemma effect_case_option:
  "(x = None \<Longrightarrow> effect R P m Q) \<Longrightarrow> (\<And>y. x = Some y \<Longrightarrow> effect R P (f y) Q) \<Longrightarrow>
    effect R P (case x of None \<Rightarrow> m | Some y \<Rightarrow> f y) Q"
  by (cases x) simp_all

lemma effect_case_sum:
  "(\<And>y. x = Inl y \<Longrightarrow> effect R P (f y) Q) \<Longrightarrow> (\<And>y. x = Inr y \<Longrightarrow> effect R P (g y) Q) \<Longrightarrow>
    effect R P (case x of Inl y \<Rightarrow> f y | Inr y \<Rightarrow> g y) Q"
  by (cases x) simp_all

text \<open>What sequencing needs of a relation.\<close>

locale transition =
  fixes R :: "'s \<Rightarrow> 's \<Rightarrow> bool"
  assumes refl: "R s s"
    and trans: "R s t \<Longrightarrow> R t u \<Longrightarrow> R s u"
begin

lemma seq:
  assumes m: "effect R P m Q" and f: "\<And>a. effect R (Q a) (f a) T"
  shows "effect R P (then_loop m f) T"
proof (rule effectI)
  fix s r s' assume P: "P s" and run: "then_loop m f s = Some (r, s')"
  then obtain q s1 where q: "m s = Some (q, s1)" by (auto simp: then_loop_def split: option.splits)
  note R = effectD [OF m P q]
  show "R s s' \<and> (\<forall>a. r = Inr a \<longrightarrow> T a s')"
  proof (cases q)
    case (Inl e)
    then show ?thesis using run q R by (auto simp: then_loop_def)
  next
    case (Inr a)
    then have fa: "f a s1 = Some (r, s')" using run q by (simp add: then_loop_def)
    from effectD [OF f R(2) [OF Inr] fa] R(1) trans show ?thesis by blast
  qed
qed

lemma returns: "(\<And>s. P s \<Longrightarrow> Q a s) \<Longrightarrow> effect R P (run (ret a)) Q"
  using refl by (simp add: effect_def run_def ret_def)

lemma fails: "effect R P (run (fail e)) Q"
  using refl by (simp add: effect_def run_def fail_def)

lemma reads_state: "(\<And>s. P s \<Longrightarrow> Q (f s) s) \<Longrightarrow> effect R P (run (gets f)) Q"
  using refl by (simp add: effect_def run_def gets_def)

lemma reads_here: "effect R P (run (gets f)) (\<lambda>a s. P s)"
  by (rule reads_state)

end

section \<open>The groups of a broker\<close>

definition ledger :: "ConsumerGroup \<Rightarrow> ledger" where
  "ledger g = (committed g, leases_list g)"

definition ledger_of :: "Broker \<Rightarrow> string \<Rightarrow> string \<Rightarrow> ledger option" where
  "ledger_of b tn gn = map_option ledger (group_of b tn gn)"

definition groups_ok :: "Broker \<Rightarrow> bool" where
  "groups_ok b \<longleftrightarrow> (\<forall>tn gn g. group_of b tn gn = Some g \<longrightarrow> group_ok g)"

definition locked :: "string \<Rightarrow> Broker \<Rightarrow> bool" where
  "locked tn b \<longleftrightarrow> (\<exists>t. map_of (b_topics b) tn = Some t \<and> t_mu t)"

definition same_groups :: "Broker \<Rightarrow> Broker \<Rightarrow> bool" where
  "same_groups b b' \<longleftrightarrow> group_of b' = group_of b \<and> b_cfg b' = b_cfg b \<and> (\<forall>tn. locked tn b' = locked tn b)"

definition more_groups :: "Broker \<Rightarrow> Broker \<Rightarrow> bool" where
  "more_groups b b' \<longleftrightarrow> b_cfg b' = b_cfg b \<and>
     (\<forall>tn gn. (\<forall>g. group_of b tn gn = Some g \<longrightarrow> group_of b' tn gn = Some g) \<and>
       (\<forall>g. group_of b tn gn = None \<longrightarrow> group_of b' tn gn = Some g \<longrightarrow> g_Leases g = []))"

definition leases_by :: "(string \<Rightarrow> string \<Rightarrow> lease_event \<Rightarrow> bool) \<Rightarrow> Broker \<Rightarrow> Broker \<Rightarrow> bool" where
  "leases_by A b b' \<longleftrightarrow> b_cfg b' = b_cfg b \<and>
     (groups_ok b \<longrightarrow> groups_ok b' \<and>
       (\<forall>tn gn. \<exists>es. lease_run (MaxRedeliveries (b_cfg b)) es (ledger_of b tn gn) (ledger_of b' tn gn) \<and>
         list_all (A tn gn) es))"

interpretation same: transition same_groups
  by unfold_locales (auto simp: same_groups_def)

interpretation more: transition more_groups
proof unfold_locales
  show "more_groups b b" for b by (simp add: more_groups_def)
  fix b b1 b2 assume 1: "more_groups b b1" and 2: "more_groups b1 b2"
  show "more_groups b b2"
    unfolding more_groups_def
  proof (intro conjI allI impI)
    show "b_cfg b2 = b_cfg b" using 1 2 by (simp add: more_groups_def)
    show "group_of b2 tn gn = Some g" if "group_of b tn gn = Some g" for tn gn g
      using 1 2 that by (simp add: more_groups_def)
    show "g_Leases g = []" if "group_of b tn gn = None" "group_of b2 tn gn = Some g" for tn gn g
    proof (cases "group_of b1 tn gn")
      case None
      then show ?thesis using 2 that by (simp add: more_groups_def)
    next
      case (Some g1)
      moreover have "group_of b2 tn gn = Some g1" using 2 Some by (simp add: more_groups_def)
      ultimately show ?thesis using 1 that by (simp add: more_groups_def)
    qed
  qed
qed

interpretation leases: transition "leases_by A" for A
proof unfold_locales
  show "leases_by A b b" for b
    unfolding leases_by_def by (metis lease_run.stop list.pred_inject(1))
  fix b b1 b2 assume 1: "leases_by A b b1" and 2: "leases_by A b1 b2"
  show "leases_by A b b2"
    unfolding leases_by_def
  proof (intro conjI impI allI)
    show "b_cfg b2 = b_cfg b" using 1 2 by (simp add: leases_by_def)
    assume ok: "groups_ok b"
    then have ok1: "groups_ok b1" using 1 by (simp add: leases_by_def)
    then show "groups_ok b2" using 2 by (simp add: leases_by_def)
    fix tn gn
    obtain es where "lease_run (MaxRedeliveries (b_cfg b)) es (ledger_of b tn gn) (ledger_of b1 tn gn)" "list_all (A tn gn) es"
      using 1 ok unfolding leases_by_def by blast
    moreover obtain es' where "lease_run (MaxRedeliveries (b_cfg b)) es' (ledger_of b1 tn gn) (ledger_of b2 tn gn)" "list_all (A tn gn) es'"
      using 1 2 ok1 unfolding leases_by_def by metis
    ultimately show "\<exists>es. lease_run (MaxRedeliveries (b_cfg b)) es (ledger_of b tn gn) (ledger_of b2 tn gn) \<and> list_all (A tn gn) es"
      by (metis lease_run_append list_all_append)
  qed
qed

lemma same_more: "same_groups b b' \<Longrightarrow> more_groups b b'"
  by (simp add: same_groups_def more_groups_def)

lemma leases_list_Nil: "g_Leases g = [] \<Longrightarrow> leases_list g = []"
  by (simp flip: length_0_conv)

lemma more_leases:
  assumes "more_groups b b'" and A: "\<And>tn gn c. A tn gn (Opened c)"
  shows "leases_by A b b'"
  unfolding leases_by_def
proof (intro conjI impI allI)
  show "b_cfg b' = b_cfg b" using assms by (simp add: more_groups_def)
  assume ok: "groups_ok b"
  show "groups_ok b'"
    unfolding groups_ok_def
  proof (intro allI impI)
    fix tn gn g assume g: "group_of b' tn gn = Some g"
    show "group_ok g"
    proof (cases "group_of b tn gn")
      case None
      then have "g_Leases g = []" using assms g by (simp add: more_groups_def)
      then show ?thesis using unat_u64_bound [of "g_CommittedOffset g"] by (simp add: group_ok_def window_end_def committed_def)
    next
      case (Some g1)
      then show ?thesis using assms g ok by (auto simp: more_groups_def groups_ok_def)
    qed
  qed
  fix tn gn
  show "\<exists>es. lease_run (MaxRedeliveries (b_cfg b)) es (ledger_of b tn gn) (ledger_of b' tn gn) \<and> list_all (A tn gn) es"
  proof (cases "group_of b tn gn = None \<and> group_of b' tn gn \<noteq> None")
    case True
    then obtain g where g: "group_of b' tn gn = Some g" "g_Leases g = []" using assms by (auto simp: more_groups_def)
    then have "lease_step (MaxRedeliveries (b_cfg b)) (Opened (committed g)) (ledger_of b tn gn) (ledger_of b' tn gn)"
      using True leases_list_Nil [OF g(2)] by (simp add: ledger_of_def ledger_def lease_step.open_group)
    from lease_run_one [OF this] A show ?thesis by (intro exI [of _ "[Opened (committed g)]"]) simp
  next
    case False
    then have "ledger_of b' tn gn = ledger_of b tn gn"
      using assms by (cases "group_of b tn gn") (auto simp: more_groups_def ledger_of_def)
    then show ?thesis by (intro exI [of _ "[]"]) (simp add: lease_run.stop)
  qed
qed

end
