(* ===== verification/Broker_Groups.thy ===== *)
theory Broker_Groups
  imports Broker_Effects
begin

text \<open>
  The effect of the broker's basic operations on the consumer groups: those on a topic and
  its log, the change of one group, and those that only add groups.
\<close>

section \<open>Operations on a topic\<close>

lemma group_of_update:
  "group_of (b\<lparr>b_topics := AList.update tn t (b_topics b)\<rparr>) =
     (\<lambda>tn'. if tn' = tn then map_of (t_groups t) else group_of b tn')"
  by (rule ext) (auto simp: group_of_def AList.update_conv' fun_eq_iff)

lemma locked_update:
  "locked tn' (b\<lparr>b_topics := AList.update tn t (b_topics b)\<rparr>) = (if tn' = tn then t_mu t else locked tn' b)"
  by (auto simp: locked_def AList.update_conv')

lemma group_of_topic: "map_of (b_topics b) tn = Some t \<Longrightarrow> group_of b tn = map_of (t_groups t)"
  by (simp add: group_of_def fun_eq_iff)

lemma locked_topic: "map_of (b_topics b) tn = Some t \<Longrightarrow> locked tn b = t_mu t"
  by (simp add: locked_def)

lemma same_update:
  assumes "map_of (b_topics b) tn = Some t" and "t_mu t' = t_mu t" and "map_of (t_groups t') = map_of (t_groups t)"
  shows "same_groups b (b\<lparr>b_topics := AList.update tn t' (b_topics b)\<rparr>)"
  using assms locked_topic [OF assms(1)] group_of_topic [OF assms(1)]
  by (simp add: same_groups_def group_of_update locked_update fun_eq_iff)

lemma in_topic_cases:
  assumes "in_topic tn m b = Some (r, b')"
  obtains (gone) "map_of (b_topics b) tn = None" "r = Inl Panic" "b' = b"
    | (there) t t' where "map_of (b_topics b) tn = Some t" "m t = Some (r, t')"
        "b' = b\<lparr>b_topics := AList.update tn t' (b_topics b)\<rparr>"
  using assms by (auto simp: in_topic_def split: option.splits prod.splits)

lemma same_in_topic:
  assumes "\<And>t r t'. m t = Some (r, t') \<Longrightarrow> map_of (t_groups t') = map_of (t_groups t) \<and> t_mu t' = t_mu t"
    and "\<And>b b'. P b \<Longrightarrow> same_groups b b' \<Longrightarrow> P b'"
  shows "effect same_groups P (in_topic tn m) (\<lambda>a. P)"
proof (rule effectI)
  fix b r b' assume P: "P b" and run: "in_topic tn m b = Some (r, b')"
  from run have "same_groups b b'"
  proof (cases rule: in_topic_cases)
    case gone
    then show ?thesis by (simp add: same.refl)
  next
    case (there t t')
    then show ?thesis using assms(1) [OF there(2)] same_update [OF there(1)] by simp
  qed
  with P assms(2) show "same_groups b b' \<and> (\<forall>a. r = Inr a \<longrightarrow> P b')" by blast
qed

text \<open>The assertions about the groups, which nothing but a change of the groups breaks.\<close>

definition on_groups :: "(Broker \<Rightarrow> bool) \<Rightarrow> bool" where
  "on_groups P \<longleftrightarrow> (\<forall>b b'. P b \<longrightarrow> same_groups b b' \<longrightarrow> P b')"

lemma on_groupsD: "on_groups P \<Longrightarrow> P b \<Longrightarrow> same_groups b b' \<Longrightarrow> P b'"
  unfolding on_groups_def by blast

lemma on_groups_intros [intro]:
  "on_groups (\<lambda>b. True)" "on_groups (\<lambda>b. c)" "on_groups (\<lambda>b. group_of b tn gn = g)" "on_groups groups_ok" "on_groups (locked tn)"
  "on_groups P \<Longrightarrow> on_groups Q \<Longrightarrow> on_groups (\<lambda>b. P b \<and> Q b)"
  "(\<And>x. on_groups (F x)) \<Longrightarrow> on_groups (\<lambda>b. \<exists>x. F x b)"
  "on_groups (\<lambda>b. limit = MaxRedeliveries (b_cfg b))"
  unfolding on_groups_def by (auto simp: same_groups_def groups_ok_def)

lemma same_in_wal: "on_groups P \<Longrightarrow> effect same_groups P (in_topic tn (run (in_wal m))) (\<lambda>a. P)"
  by (rule same_in_topic) (auto simp: run_def in_wal_def split: prod.splits dest: on_groupsD)

lemma same_try_in_wal: "on_groups P \<Longrightarrow> effect same_groups P (try_loop (in_topic tn (run (in_wal m)))) (\<lambda>a. P)"
  by (rule effect_try [OF same_in_wal]) (auto dest: on_groupsD)

lemma same_gets_topic: "on_groups P \<Longrightarrow> effect same_groups P (in_topic tn (run (gets f))) (\<lambda>a. P)"
  by (rule same_in_topic) (auto simp: run_def gets_def dest: on_groupsD)

lemma same_set_pending: "on_groups P \<Longrightarrow> effect same_groups P (in_topic tn (run (modify (set_pending gn pfs)))) (\<lambda>a. P)"
  by (rule same_in_topic) (auto simp: run_def modify_def set_pending_def dest: on_groupsD)

lemma same_try_send: "on_groups P \<Longrightarrow> effect same_groups P (run (modify (try_send ch msgs))) (\<lambda>a. P)"
proof (rule effectI)
  fix b r b' assume "on_groups P" "P b" "run (modify (try_send ch msgs)) b = Some (r, b')"
  moreover then have "same_groups b b'"
    by (auto simp: run_def modify_def try_send_def same_groups_def group_of_def locked_def fun_eq_iff split: option.splits)
  ultimately show "same_groups b b' \<and> (\<forall>a. r = Inr a \<longrightarrow> P b')" by (auto dest: on_groupsD)
qed

lemma same_gets_group:
  assumes "on_groups P"
  shows "effect same_groups P (in_topic tn (run (in_group gn (gets f))))
    (\<lambda>a b. P b \<and> (\<exists>g. group_of b tn gn = Some g \<and> a = f g))"
proof (rule effectI)
  fix b r b' assume P: "P b" and run: "in_topic tn (run (in_group gn (gets f))) b = Some (r, b')"
  from run show "same_groups b b' \<and> (\<forall>a. r = Inr a \<longrightarrow> P b' \<and> (\<exists>g. group_of b' tn gn = Some g \<and> a = f g))"
  proof (cases rule: in_topic_cases)
    case gone
    then show ?thesis by (simp add: same.refl)
  next
    case (there t t')
    show ?thesis
    proof (cases "map_of (t_groups t) gn")
      case None
      then have "r = Inl Panic" "t' = t" using there(2) by (auto simp: run_def in_group_def)
      then show ?thesis using same_update [OF there(1)] there(3) by simp
    next
      case (Some g)
      then have t': "t' = t\<lparr>t_groups := AList.update gn g (t_groups t)\<rparr>" and r: "r = Inr (f g)"
        using there(2) by (auto simp: run_def in_group_def gets_def)
      have "map_of (t_groups t') = map_of (t_groups t)" using Some by (auto simp: t' AList.update_conv')
      then have s: "same_groups b b'" using same_update [OF there(1)] there(3) by (simp add: t')
      have "group_of b tn gn = Some g" using Some group_of_topic [OF there(1)] by simp
      then have "group_of b' tn gn = Some g" using s by (simp add: same_groups_def)
      with s r on_groupsD [OF assms P] show ?thesis by blast
    qed
  qed
qed

text \<open>A change of one group.\<close>

definition with_ledger :: "Broker \<Rightarrow> string \<Rightarrow> string \<Rightarrow> ConsumerGroup \<Rightarrow> Broker \<Rightarrow> bool" where
  "with_ledger b tn gn g b' \<longleftrightarrow> b_cfg b' = b_cfg b \<and> (\<forall>tn. locked tn b' = locked tn b) \<and>
     group_of b' = (\<lambda>tn'. if tn' = tn then (group_of b tn)(gn \<mapsto> g) else group_of b tn')"

lemma leases_with_ledger:
  assumes ok: "groups_ok b" and g: "group_of b tn gn = Some g" and b': "with_ledger b tn gn g' b'"
    and run: "lease_run (MaxRedeliveries (b_cfg b)) es (Some (ledger g)) (Some (ledger g'))"
    and A: "list_all (A tn gn) es" and g': "group_ok g'"
  shows "leases_by A b b'"
  unfolding leases_by_def
proof (intro conjI impI allI)
  show "b_cfg b' = b_cfg b" using b' by (simp add: with_ledger_def)
  show "groups_ok b'" using ok b' g' by (auto simp: groups_ok_def with_ledger_def split: if_splits)
  fix tn' gn'
  show "\<exists>es. lease_run (MaxRedeliveries (b_cfg b)) es (ledger_of b tn' gn') (ledger_of b' tn' gn') \<and> list_all (A tn' gn') es"
  proof (cases "tn' = tn \<and> gn' = gn")
    case True
    then show ?thesis using g b' run A by (intro exI [of _ es]) (simp add: ledger_of_def with_ledger_def)
  next
    case False
    then have "ledger_of b' tn' gn' = ledger_of b tn' gn'" using b' by (auto simp: ledger_of_def with_ledger_def)
    then show ?thesis by (intro exI [of _ "[]"]) (simp add: lease_run.stop)
  qed
qed

lemma in_group_run:
  assumes "in_topic tn (run (in_group gn m)) b = Some (r, b')"
  shows "(r = Inl Panic \<and> same_groups b b') \<or>
    (\<exists>g g'. group_of b tn gn = Some g \<and> m g = (r, g') \<and> with_ledger b tn gn g' b')"
  using assms
proof (cases rule: in_topic_cases)
  case gone
  then show ?thesis by (simp add: same.refl)
next
  case (there t t')
  show ?thesis
  proof (cases "map_of (t_groups t) gn")
    case None
    then have "t' = t" "r = Inl Panic" using there(2) by (auto simp: run_def in_group_def)
    then show ?thesis using same_update [OF there(1)] there(3) by simp
  next
    case (Some g)
    obtain q g' where m: "m g = (q, g')" by (cases "m g") auto
    then have "r = q" "t' = t\<lparr>t_groups := AList.update gn g' (t_groups t)\<rparr>"
      using there(2) Some by (auto simp: run_def in_group_def)
    then have "with_ledger b tn gn g' b'"
      using there(3) group_of_topic [OF there(1)] locked_topic [OF there(1)]
      by (simp add: with_ledger_def group_of_update locked_update AList.update_conv' fun_eq_iff)
    then show ?thesis using Some m \<open>r = q\<close> group_of_topic [OF there(1)] by auto
  qed
qed

text \<open>Groups may be opened.\<close>

definition opens :: "(string \<Rightarrow> string \<Rightarrow> lease_event \<Rightarrow> bool) \<Rightarrow> bool" where
  "opens A \<longleftrightarrow> (\<forall>tn gn c. A tn gn (Opened c))"

lemma leases_in_group:
  assumes ok: "\<And>b. P b \<Longrightarrow> groups_ok b"
    and step: "\<And>b g r g'. P b \<Longrightarrow> group_of b tn gn = Some g \<Longrightarrow> m g = (r, g') \<Longrightarrow>
      group_ok g' \<and> (\<exists>es. list_all (A tn gn) es \<and>
        lease_run (MaxRedeliveries (b_cfg b)) es (Some (ledger g)) (Some (ledger g')))"
    and post: "\<And>b g a g' b'. P b \<Longrightarrow> group_of b tn gn = Some g \<Longrightarrow> m g = (Inr a, g') \<Longrightarrow> with_ledger b tn gn g' b' \<Longrightarrow>
      groups_ok b' \<Longrightarrow> Q a b'"
    and opened: "opens A"
  shows "effect (leases_by A) P (in_topic tn (run (in_group gn m))) Q"
proof (rule effectI)
  fix b r b' assume P: "P b" and run: "in_topic tn (run (in_group gn m)) b = Some (r, b')"
  from in_group_run [OF run] show "leases_by A b b' \<and> (\<forall>a. r = Inr a \<longrightarrow> Q a b')"
  proof (elim disjE conjE exE)
    assume "r = Inl Panic" "same_groups b b'"
    then show ?thesis using more_leases [OF same_more] opened by (simp add: opens_def)
  next
    fix g g' assume g: "group_of b tn gn = Some g" and m: "m g = (r, g')" and b': "with_ledger b tn gn g' b'"
    from step [OF P g m] obtain es where "group_ok g'" "list_all (A tn gn) es"
      "lease_run (MaxRedeliveries (b_cfg b)) es (Some (ledger g)) (Some (ledger g'))" by blast
    with leases_with_ledger [OF ok [OF P] g b'] have l: "leases_by A b b'" by blast
    then have "groups_ok b'" using ok [OF P] by (simp add: leases_by_def)
    with l post [OF P g _ b'] m show ?thesis by blast
  qed
qed

section \<open>Operations that only add groups\<close>

definition on_more :: "(Broker \<Rightarrow> bool) \<Rightarrow> bool" where
  "on_more P \<longleftrightarrow> (\<forall>b b'. P b \<longrightarrow> more_groups b b' \<longrightarrow> P b')"

lemma on_moreD: "on_more P \<Longrightarrow> P b \<Longrightarrow> more_groups b b' \<Longrightarrow> P b'"
  unfolding on_more_def by blast

lemma on_more_groups: "on_more P \<Longrightarrow> on_groups P"
  unfolding on_more_def on_groups_def using same_more by blast

lemma on_more_groups_ok: "on_more groups_ok"
  unfolding on_more_def using more_leases [where A = "\<lambda>_ _ _. True"] by (auto simp: leases_by_def)

lemma on_more_intros [intro]:
  "on_more (\<lambda>b. True)" "on_more (\<lambda>b. c)" "on_more (\<lambda>b. group_of b tn gn = Some g)" "on_more groups_ok"
  "on_more P \<Longrightarrow> on_more Q \<Longrightarrow> on_more (\<lambda>b. P b \<and> Q b)"
  "(\<And>x. on_more (F x)) \<Longrightarrow> on_more (\<lambda>b. \<exists>x. F x b)"
  "on_more (\<lambda>b. limit = MaxRedeliveries (b_cfg b))"
  using on_more_groups_ok unfolding on_more_def by (auto simp: more_groups_def)

text \<open>On one topic.\<close>

definition grown :: "Topic \<Rightarrow> Topic \<Rightarrow> bool" where
  "grown t t' \<longleftrightarrow>
     (\<forall>gn g. map_of (t_groups t) gn = Some g \<longrightarrow> map_of (t_groups t') gn = Some g) \<and>
     (\<forall>gn g. map_of (t_groups t) gn = None \<longrightarrow> map_of (t_groups t') gn = Some g \<longrightarrow> g_Leases g = [])"

definition keeps :: "(Topic, 'a) prog \<Rightarrow> bool" where
  "keeps m \<longleftrightarrow> (\<forall>t. map_of (t_groups (snd (m t))) = map_of (t_groups t) \<and> t_mu (snd (m t)) = t_mu t)"

lemma keeps_and_then [intro]: "keeps m \<Longrightarrow> (\<And>a. keeps (f a)) \<Longrightarrow> keeps (and_then m f)"
  unfolding keeps_def and_then_def by (auto split: prod.splits sum.splits) (metis snd_conv)+

lemma keeps_intros [intro]:
  "keeps (in_wal m)" "keeps (ret a)" "keeps (gets f)" "keeps (fail e)"
  "(\<And>t. t_groups (h t) = t_groups t \<and> t_mu (h t) = t_mu t) \<Longrightarrow> keeps (modify h)"
  "keeps n \<Longrightarrow> keeps (attempt n)"
  by (simp_all add: keeps_def in_wal_def ret_def gets_def fail_def modify_def attempt_def case_prod_beta)

lemma keeps_in_group [intro]: "keeps (in_group gn (gets f))"
  by (auto simp: keeps_def in_group_def gets_def AList.update_conv' fun_eq_iff split: option.splits)

lemma keeps_persistState: "keeps (persistState gn)"
  unfolding persistState_def by (intro keeps_and_then keeps_intros keeps_in_group) simp_all

lemma same_keeps: "keeps m \<Longrightarrow> on_groups P \<Longrightarrow> effect same_groups P (in_topic tn (run m)) (\<lambda>a. P)"
  by (rule same_in_topic) (auto simp: run_def keeps_def dest: on_groupsD, (metis snd_conv)+)

lemma getOrCreateGroup_grown:
  assumes "getOrCreateGroup gn t = Some (r, t')"
  shows "grown t t'"
proof -
  obtain q where mu: "\<not> t_mu t"
    and run: "and_then (gets (\<lambda>t. map_of (t_groups t) gn)) (\<lambda>found.
       case found of
         Some g \<Rightarrow> ret ()
       | None \<Rightarrow>
           and_then (modify (\<lambda>t. t\<lparr>t_groups := AList.update gn (new_group gn (t_Name t) 0) (t_groups t)\<rparr>)) (\<lambda>_.
           and_then (attempt (persistState gn)) (\<lambda>_. ret ()))) (t\<lparr>t_mu := True\<rparr>) = q"
    and t': "t_groups t' = t_groups (snd q)"
    using assms
    by (auto simp: getOrCreateGroup_def then_loop_def lock_topic_def unlock_topic_def run_def split: if_splits prod.splits sum.splits)
  show ?thesis
  proof (cases "map_of (t_groups t) gn")
    case (Some g)
    then have "t_groups t' = t_groups t" using run t' by (auto simp: prog_simps)
    then show ?thesis by (simp add: grown_def)
  next
    case None
    let ?t = "t\<lparr>t_mu := True, t_groups := AList.update gn (new_group gn (t_Name t) 0) (t_groups t)\<rparr>"
    obtain e t1 where p: "attempt (persistState gn) ?t = (Inr e, t1)" by (simp add: attempt_def case_prod_beta)
    then have "q = (Inr (), t1)" using run None by (simp add: and_then_def gets_def modify_def ret_def)
    then have "map_of (t_groups t') = map_of (AList.update gn (new_group gn (t_Name t) 0) (t_groups t))"
      using t' keeps_intros(6) [OF keeps_persistState [of gn], unfolded keeps_def, rule_format, of ?t] p by simp
    then show ?thesis using None by (auto simp: grown_def AList.update_conv' new_group_def)
  qed
qed

lemma more_update:
  assumes "map_of (b_topics b) tn = Some t" and "grown t t'"
  shows "more_groups b (b\<lparr>b_topics := AList.update tn t' (b_topics b)\<rparr>)"
  using assms group_of_topic [OF assms(1)] by (auto simp: more_groups_def group_of_update grown_def)

lemma more_in_topic:
  assumes "\<And>t r t'. m t = Some (r, t') \<Longrightarrow> grown t t'" and "on_more P"
  shows "effect more_groups P (in_topic tn m) (\<lambda>a. P)"
proof (rule effectI)
  fix b r b' assume P: "P b" and run: "in_topic tn m b = Some (r, b')"
  from run have "more_groups b b'"
  proof (cases rule: in_topic_cases)
    case gone
    then show ?thesis by (simp add: more.refl)
  next
    case (there t t')
    then show ?thesis using more_update [OF there(1) assms(1) [OF there(2)]] by simp
  qed
  with P assms(2) show "more_groups b b' \<and> (\<forall>a. r = Inr a \<longrightarrow> P b')" by (auto dest: on_moreD)
qed

lemma more_getOrCreateGroup: "on_more P \<Longrightarrow> effect more_groups P (in_topic tn (getOrCreateGroup gn)) (\<lambda>a. P)"
  by (rule more_in_topic [OF getOrCreateGroup_grown])

lemma grown_refl: "t_groups t' = t_groups t \<Longrightarrow> grown t t'"
  by (simp add: grown_def)

lemma more_lock:
  assumes "on_more P"
  shows "effect more_groups P (in_topic tn lock_topic) (\<lambda>a b. P b \<and> locked tn b)"
proof -
  have "effect more_groups P (in_topic tn lock_topic) (\<lambda>a. P)"
    by (rule more_in_topic [OF grown_refl assms]) (auto simp: lock_topic_def split: if_splits)
  moreover have "locked tn b'" if "in_topic tn lock_topic b = Some (Inr a, b')" for b a b'
    using that by (cases rule: in_topic_cases) (auto simp: lock_topic_def locked_update split: if_splits)
  ultimately show ?thesis
    by (intro effectI conjI allI impI) (auto dest: effectD)
qed

lemma more_unlock: "on_more P \<Longrightarrow> effect more_groups P (in_topic tn unlock_topic) (\<lambda>a. P)"
  by (rule more_in_topic [OF grown_refl]) (auto simp: unlock_topic_def)

text \<open>Opening a topic: the groups it loads have no leases.\<close>

definition fresh_groups :: "Topic \<Rightarrow> bool" where
  "fresh_groups t \<longleftrightarrow> (\<forall>gn g. map_of (t_groups t) gn = Some g \<longrightarrow> g_Leases g = [])"

definition fresh :: "(Topic, 'a) prog \<Rightarrow> bool" where
  "fresh m \<longleftrightarrow> (\<forall>t. fresh_groups t \<longrightarrow> fresh_groups (snd (m t)))"

lemma fresh_and_then: "fresh m \<Longrightarrow> (\<And>a. fresh (f a)) \<Longrightarrow> fresh (and_then m f)"
  unfolding fresh_def and_then_def by (auto split: prod.splits sum.splits)

lemma keeps_fresh: "keeps m \<Longrightarrow> fresh m"
  unfolding keeps_def fresh_def fresh_groups_def by simp

lemma fresh_load_states: "fresh (load_states entries)"
proof (induction entries)
  case Nil
  then show ?case by (simp add: keeps_fresh keeps_intros)
next
  case (Cons entry entries)
  obtain name isDir decoded where e: "entry = (name, isDir, decoded)" by (cases entry) auto
  have new: "fresh (modify (\<lambda>t. t\<lparr>t_groups := AList.update gn (new_group gn (t_Name t) c) (t_groups t)\<rparr>))" for gn c
    by (auto simp: fresh_def modify_def fresh_groups_def AList.update_conv' new_group_def)
  show ?case
    unfolding e load_states.simps
    by (intro fresh_and_then Cons.IH)
      (auto intro!: fresh_and_then new keeps_fresh [OF keeps_intros(2)] keeps_fresh [OF keeps_intros(6) [OF keeps_intros(1)]]
        simp: Let_def split: sum.splits option.splits)
qed

lemma fresh_loadGroups: "fresh loadGroups"
  unfolding loadGroups_def by (intro fresh_and_then fresh_load_states keeps_fresh keeps_intros)

lemma more_CreateTopic:
  assumes "on_more P"
  shows "effect more_groups P (CreateTopic name) (\<lambda>a. P)"
proof (rule effectI)
  fix b r b' assume P: "P b" and run: "CreateTopic name b = Some (r, b')"
  have stay: "more_groups b b'" if "b_topics b' = b_topics b" "b_cfg b' = b_cfg b"
    using that by (simp add: more_groups_def group_of_def)
  have "more_groups b b'"
  proof (cases "map_of (b_topics b) name")
    case (Some t)
    then show ?thesis using run by (simp add: CreateTopic_def more.refl)
  next
    case None
    obtain q w where w: "NewWAL (SyncEveryWrite (b_cfg b)) (SyncInterval (b_cfg b)) (MaxSegmentBytes (b_cfg b))
        (td_wal (dir_of b name)) = Some (q, w)"
      using run None by (auto simp: CreateTopic_def Let_def split: option.splits)
    show ?thesis
    proof (cases q)
      case (Inl e)
      then show ?thesis using run None w stay by (auto simp: CreateTopic_def Let_def left_behind_def)
    next
      case (Inr u)
      let ?t = "new_topic name w (td_states (dir_of b name))"
      obtain p t where t: "loadGroups ?t = (p, t)" by (cases "loadGroups ?t") auto
      have "fresh_groups ?t" by (simp add: fresh_groups_def new_topic_def)
      then have f: "fresh_groups t" using fresh_loadGroups t unfolding fresh_def by (metis snd_conv)
      show ?thesis
      proof (cases p)
        case (Inl e)
        then show ?thesis using run None w Inr t stay
          by (auto simp: CreateTopic_def Let_def left_behind_def split: prod.splits)
      next
        case p: (Inr u')
        have b': "b' = b\<lparr>files := AList.update name DirE (files b), b_topics := AList.update name t (b_topics b)\<rparr>"
          using run None w Inr t p by (simp add: CreateTopic_def Let_def)
        have "group_of b' = (\<lambda>tn'. if tn' = name then map_of (t_groups t) else group_of b tn')"
          unfolding b' by (rule ext) (auto simp: group_of_def AList.update_conv' fun_eq_iff)
        moreover have "group_of b name gn = None" for gn using None by (simp add: group_of_def)
        ultimately show ?thesis using f b' by (auto simp: more_groups_def fresh_groups_def)
      qed
    qed
  qed
  with P assms show "more_groups b b' \<and> (\<forall>a. r = Inr a \<longrightarrow> P b')" by (auto dest: on_moreD)
qed


text \<open>From one relation to the next.\<close>

lemma more_same: "effect same_groups P m Q \<Longrightarrow> effect more_groups P m Q"
  by (rule effect_weaken [OF _ same_more])

lemma leases_more: "effect more_groups P m Q \<Longrightarrow> opens A \<Longrightarrow> effect (leases_by A) P m Q"
  by (erule effect_weaken) (simp add: more_leases opens_def)

lemma leases_same: "effect same_groups P m Q \<Longrightarrow> opens A \<Longrightarrow> effect (leases_by A) P m Q"
  by (rule leases_more [OF more_same])

end
