(* ===== verification/Broker_Fetch.thy ===== *)
theory Broker_Fetch
  imports Leases Wal_Read "HOL-Library.Sublist"
begin

text \<open>
  What \<^verbatim>\<open>fetchAvailable\<close> of \<^verbatim>\<open>pkg/broker/coordinator.go\<close> delivers from a log in good order: the
  expired leases that can be read, in the order of their offsets, then new offsets from the
  end of the window on; and the leases it leaves behind.
\<close>

section \<open>A group of a topic of the broker\<close>

lemma update_same: "map_of xs k = Some v \<Longrightarrow> AList.update k v xs = xs"
  by (induction xs) (auto split: if_splits)

lemma update_update: "AList.update k v' (AList.update k v xs) = AList.update k v' xs"
  by (induction xs) auto

text \<open>
  The broker \<open>b\<close> with the group \<open>gn\<close> of the topic \<open>tn\<close> (which is \<open>t\<close>) replaced by \<open>g\<close> and the coming outcomes
  of the topic's system calls by \<open>y\<close>: all an operation on the group changes.
\<close>

definition set_topic :: "string \<Rightarrow> Topic \<Rightarrow> Broker \<Rightarrow> Broker" where
  "set_topic tn t b = b\<lparr>b_topics := AList.update tn t (b_topics b)\<rparr>"

definition with_group :: "Broker \<Rightarrow> string \<Rightarrow> Topic \<Rightarrow> string \<Rightarrow> ConsumerGroup \<Rightarrow> outcome list \<Rightarrow> Broker" where
  "with_group b tn t gn g y =
     set_topic tn (t\<lparr>t_wal := (t_wal t)\<lparr>script := y\<rparr>, t_groups := AList.update gn g (t_groups t)\<rparr>) b"

lemma with_group_same:
  assumes "map_of (b_topics b) tn = Some t" and "map_of (t_groups t) gn = Some g"
  shows "with_group b tn t gn g (script (t_wal t)) = b"
  using assms by (simp add: with_group_def set_topic_def update_same)

lemma with_group_topic [simp]:
  "map_of (b_topics (with_group b tn t gn g y)) tn =
     Some (t\<lparr>t_wal := (t_wal t)\<lparr>script := y\<rparr>, t_groups := AList.update gn g (t_groups t)\<rparr>)"
  "b_cfg (with_group b tn t gn g y) = b_cfg b"
  by (simp_all add: with_group_def set_topic_def AList.update_conv')

lemma with_group_gets:
  "in_topic tn (run (in_group gn (gets f))) (with_group b tn t gn g y) = Some (Inr (f g), with_group b tn t gn g y)"
  by (simp add: in_topic_def run_def in_group_def gets_def AList.update_conv')
    (simp add: with_group_def set_topic_def update_update)

lemma with_group_modify:
  "in_topic tn (run (in_group gn (modify f))) (with_group b tn t gn g y) = Some (Inr (), with_group b tn t gn (f g) y)"
  by (simp add: in_topic_def run_def in_group_def modify_def AList.update_conv')
    (simp add: with_group_def set_topic_def update_update)

lemma with_group_read:
  assumes "reads (t_wal t) (Read off) r"
  shows "\<exists>q y'. in_topic tn (run (in_wal (Read off))) (with_group b tn t gn g y) = Some (q, with_group b tn t gn g y') \<and>
    (q = r \<or> (\<exists>x. q = Inl (OsError x))) \<and> (y = [] \<longrightarrow> q = r \<and> y' = [])"
proof -
  have sim: "in_topic tn (run (in_wal (Read off))) (with_group b tn t gn g y) = Some (q, with_group b tn t gn g y')"
    if "Read off ((t_wal t)\<lparr>script := y\<rparr>) = (q, (t_wal t)\<lparr>script := y'\<rparr>)" for q y'
    using that by (simp add: in_topic_def run_def in_wal_def)
      (cases t, simp add: with_group_def set_topic_def update_update)
  show ?thesis
  proof (cases "y = []")
    case True
    then have "Read off ((t_wal t)\<lparr>script := y\<rparr>) = (r, (t_wal t)\<lparr>script := []\<rparr>)"
      using assms by (simp add: reads_def)
    from sim [OF this] True show ?thesis by blast
  next
    case False
    obtain q y' where "Read off ((t_wal t)\<lparr>script := y\<rparr>) = (q, (t_wal t)\<lparr>script := y'\<rparr>)"
        "q = r \<or> (\<exists>x. q = Inl (OsError x))"
      using assms unfolding reads_def by blast
    with sim False show ?thesis by blast
  qed
qed

lemma with_group_try_read:
  assumes "reads (t_wal t) (Read off) (Inr rec)"
  shows "\<exists>q y'. try_loop (in_topic tn (run (in_wal (Read off)))) (with_group b tn t gn g y) =
      Some (Inr q, with_group b tn t gn g y') \<and>
    (q = Inr rec \<or> (\<exists>x. q = Inl (OsError x))) \<and> (y = [] \<longrightarrow> q = Inr rec \<and> y' = [])"
  using with_group_read [OF assms, of tn b gn g y] by (fastforce simp: try_loop_def)

section \<open>Redelivery of expired leases\<close>

lemma of_nat_u32_le: "n < 2 ^ 32 \<Longrightarrow> (m :: u32) \<le> of_nat n \<longleftrightarrow> unat m \<le> n"
  by (simp add: word_le_nat_alt unat_of_nat_u32)

definition msg_at :: "nat \<Rightarrow> entry list \<Rightarrow> u64 \<Rightarrow> Message" where
  "msg_at b0 es off = message_of (record_of (es ! (unat off - b0)))"

text \<open>
  \<open>got\<close> are the offsets that were read, in the order of \<open>offs\<close>: their leases are renewed, the
  others are as they were.
\<close>

lemma fetch_expired_run:
  assumes ok: "log_ok b0 es (t_wal t)"
    and offs: "distinct offs" "\<And>off. off \<in> set offs \<Longrightarrow> b0 \<le> unat off \<and> unat off < b0 + length es"
    and leased: "\<And>off. off \<in> set offs \<Longrightarrow>
      \<exists>l. map_of (g_Leases g) off = Some l \<and> l_Redeliveries l < MaxRedeliveries (b_cfg b)"
    and len: "length msgs \<le> unat maxCount"
  shows "\<exists>got g' y'. fetch_expired tn gn consumer maxCount ackTimeout now offs msgs (with_group b tn t gn g y) =
      Some (Inr (msgs @ map (msg_at b0 es) got), with_group b tn t gn g' y') \<and>
    subseq got offs \<and> length msgs + length got \<le> unat maxCount \<and>
    g_CommittedOffset g' = g_CommittedOffset g \<and> map fst (g_Leases g') = map fst (g_Leases g) \<and>
    (\<forall>off. map_of (g_Leases g') off =
      (if off \<in> set got then map_option (release consumer (now + ackTimeout)) (map_of (g_Leases g) off)
       else map_of (g_Leases g) off)) \<and>
    (y = [] \<longrightarrow> y' = [] \<and> got = take (unat maxCount - length msgs) offs)"
  using offs leased len
proof (induction offs arbitrary: g msgs y)
  case Nil
  then show ?case by (intro exI [of _ "[] :: u64 list"] exI [of _ g] exI [of _ y]) (simp add: run_def ret_def)
next
  case (Cons off offs)
  have len32: "length msgs < 2 ^ 32" using Cons.prems(4) unat_u32_bound [of maxCount] by simp
  show ?case
  proof (cases "unat maxCount \<le> length msgs")
    case True
    then show ?thesis
      by (intro exI [of _ "[] :: u64 list"] exI [of _ g] exI [of _ y]) (simp add: run_def ret_def of_nat_u32_le [OF len32] Cons.prems(4))
  next
    case False
    then have room: "(maxCount \<le> of_nat (length msgs)) = False" using of_nat_u32_le [OF len32] by simp
    obtain l where l: "map_of (g_Leases g) off = Some l" "l_Redeliveries l < MaxRedeliveries (b_cfg b)"
      using Cons.prems(3) [of off] by auto
    have i: "unat off - b0 < length es" "b0 + (unat off - b0) = unat off" using Cons.prems(2) [of off] by auto
    have rd: "reads (t_wal t) (Read off) (Inr (record_of (es ! (unat off - b0))))"
      using Read_reads [OF ok i(1)] unfolding i(2) by simp
    obtain q y1 where q: "try_loop (in_topic tn (run (in_wal (Read off)))) (with_group b tn t gn g y) =
          Some (Inr q, with_group b tn t gn g y1)"
        "q = Inr (record_of (es ! (unat off - b0))) \<or> (\<exists>x. q = Inl (OsError x))"
        "y = [] \<longrightarrow> q = Inr (record_of (es ! (unat off - b0))) \<and> y1 = []"
      using with_group_try_read [OF rd] by blast
    have cfg: "run (gets (\<lambda>b. MaxRedeliveries (b_cfg b))) (with_group b tn t gn g y) =
        Some (Inr (MaxRedeliveries (b_cfg b)), with_group b tn t gn g y)" for y
      by (simp add: run_def gets_def)
    have below: "(MaxRedeliveries (b_cfg b) \<le> l_Redeliveries l) = False" using l(2) by simp
    show ?thesis
    proof (cases q)
      case (Inl e)
      have step: "fetch_expired tn gn consumer maxCount ackTimeout now (off # offs) msgs (with_group b tn t gn g y) =
          fetch_expired tn gn consumer maxCount ackTimeout now offs msgs (with_group b tn t gn g y1)"
        by (simp only: fetch_expired.simps room if_False then_loop_def with_group_gets cfg l(1) below q(1) Inl
            option.case prod.case sum.case)
      obtain got g' y' where IH:
        "fetch_expired tn gn consumer maxCount ackTimeout now offs msgs (with_group b tn t gn g y1) =
          Some (Inr (msgs @ map (msg_at b0 es) got), with_group b tn t gn g' y')"
        "subseq got offs" "length msgs + length got \<le> unat maxCount"
        "g_CommittedOffset g' = g_CommittedOffset g" "map fst (g_Leases g') = map fst (g_Leases g)"
        "\<forall>off. map_of (g_Leases g') off =
          (if off \<in> set got then map_option (release consumer (now + ackTimeout)) (map_of (g_Leases g) off)
           else map_of (g_Leases g) off)"
        using Cons.IH [of g msgs y1] Cons.prems by auto
      have "y \<noteq> []" using q(3) Inl by auto
      with IH step show ?thesis by (intro exI [of _ got] exI [of _ g'] exI [of _ y']) auto
    next
      case (Inr rec)
      then have rec: "rec = record_of (es ! (unat off - b0))" using q(2) by auto
      let ?g = "put_lease off (release consumer (now + ackTimeout) l) g"
      have step: "fetch_expired tn gn consumer maxCount ackTimeout now (off # offs) msgs (with_group b tn t gn g y) =
          fetch_expired tn gn consumer maxCount ackTimeout now offs (msgs @ [msg_at b0 es off]) (with_group b tn t gn ?g y1)"
        by (simp only: fetch_expired.simps room if_False then_loop_def with_group_gets with_group_modify cfg l(1) below q(1) Inr
            option.case prod.case sum.case rec msg_at_def)
      have look: "map_of (g_Leases ?g) o' =
          (if o' = off then Some (release consumer (now + ackTimeout) l) else map_of (g_Leases g) o')" for o'
        by (simp add: put_lease_def AList.update_conv')
      have keys: "map fst (g_Leases ?g) = map fst (g_Leases g)"
        using l(1) by (simp add: put_lease_def AList.update_keys) (metis map_of_eq_None_iff option.distinct(1) set_map)
      have "\<exists>l. map_of (g_Leases ?g) o' = Some l \<and> l_Redeliveries l < MaxRedeliveries (b_cfg b)"
        if "o' \<in> set offs" for o'
        using Cons.prems(1,3) that look by auto
      then obtain got g' y' where IH:
        "fetch_expired tn gn consumer maxCount ackTimeout now offs (msgs @ [msg_at b0 es off]) (with_group b tn t gn ?g y1) =
          Some (Inr ((msgs @ [msg_at b0 es off]) @ map (msg_at b0 es) got), with_group b tn t gn g' y')"
        "subseq got offs" "length (msgs @ [msg_at b0 es off]) + length got \<le> unat maxCount"
        "g_CommittedOffset g' = g_CommittedOffset ?g" "map fst (g_Leases g') = map fst (g_Leases ?g)"
        "\<forall>off. map_of (g_Leases g') off =
          (if off \<in> set got then map_option (release consumer (now + ackTimeout)) (map_of (g_Leases ?g) off)
           else map_of (g_Leases ?g) off)"
        "y1 = [] \<longrightarrow> y' = [] \<and> got = take (unat maxCount - length (msgs @ [msg_at b0 es off])) offs"
        using Cons.IH [of ?g "msgs @ [msg_at b0 es off]" y1] Cons.prems False by auto
      have "off \<notin> set got" using IH(2) Cons.prems(1) by (auto dest: list_emb_set)
      then have map: "\<forall>o'. map_of (g_Leases g') o' =
          (if o' \<in> set (off # got) then map_option (release consumer (now + ackTimeout)) (map_of (g_Leases g) o')
           else map_of (g_Leases g) o')"
        using IH(6) look l(1) by auto
      have "y = [] \<longrightarrow> y' = [] \<and> off # got = take (unat maxCount - length msgs) (off # offs)"
        using q(3) IH(7) False by (auto simp: take_Cons')
      then show ?thesis
        using IH(1-5) step map keys by (intro exI [of _ "off # got"] exI [of _ g'] exI [of _ y']) auto
    qed
  qed
qed


section \<open>New messages\<close>

lemma log_ok_bound: "log_ok b0 es w \<Longrightarrow> b0 + length es < 2 ^ 64"
  by (simp add: log_ok_def counters_ok_def entries_ok_def)

lemma group_put_new_map:
  "map_of (g_Leases (put_lease off l g)) o' = (if o' = off then Some l else map_of (g_Leases g) o')"
  by (simp add: put_lease_def AList.update_conv')

lemma fetch_new_run:
  assumes ok: "log_ok b0 es (t_wal t)" and N: "N = b0 + length es"
    and g: "group_ok g" "b0 \<le> window_end g" "window_end g \<le> N" and len: "length msgs \<le> unat maxCount"
  shows "\<exists>n g' y'. fetch_new tn gn consumer maxCount expiry (of_nat N) (of_nat (window_end g)) msgs (with_group b tn t gn g y) =
      Some (Inr (msgs @ map (\<lambda>k. msg_at b0 es (of_nat k)) [window_end g ..< window_end g + n]), with_group b tn t gn g' y') \<and>
    window_end g + n \<le> N \<and> length msgs + n \<le> unat maxCount \<and>
    group_ok g' \<and> window_end g' = window_end g + n \<and> g_CommittedOffset g' = g_CommittedOffset g \<and>
    (\<forall>off. map_of (g_Leases g') off =
      (if window_end g \<le> unat off \<and> unat off < window_end g + n then Some (new_lease off consumer expiry)
       else map_of (g_Leases g) off)) \<and>
    (y = [] \<longrightarrow> y' = [] \<and> n = min (N - window_end g) (unat maxCount - length msgs))"
  using g len
proof (induction "N - window_end g" arbitrary: g msgs y)
  case (0 g msgs y)
  then have "fetch_new tn gn consumer maxCount expiry (of_nat N) (of_nat (window_end g)) msgs (with_group b tn t gn g y) =
      Some (Inr msgs, with_group b tn t gn g y)"
    by (subst fetch_new.simps) simp
  then show ?case using 0 by (intro exI [of _ "0 :: nat"] exI [of _ g] exI [of _ y]) auto
next
  case (Suc d g msgs y)
  let ?W = "window_end g"
  have N64: "N < 2 ^ 64" using log_ok_bound [OF ok] N by simp
  have W: "?W < N" using Suc.hyps(2) by simp
  have len32: "length msgs < 2 ^ 32" using Suc.prems(4) unat_u32_bound [of maxCount] by simp
  show ?case
  proof (cases "unat maxCount \<le> length msgs")
    case True
    then have "((of_nat (length msgs) :: u32) < maxCount) = False"
      using of_nat_u32_le [OF len32, of maxCount] by (simp add: not_less)
    then have "fetch_new tn gn consumer maxCount expiry (of_nat N) (of_nat ?W) msgs (with_group b tn t gn g y) =
        Some (Inr msgs, with_group b tn t gn g y)"
      by (subst fetch_new.simps) (simp only: simp_thms if_False)
    then show ?thesis using Suc.prems True by (intro exI [of _ "0 :: nat"] exI [of _ g] exI [of _ y]) auto
  next
    case False
    then have room: "(of_nat (length msgs) < maxCount) = True" using of_nat_u32_le [OF len32, of maxCount] by (simp add: not_le)
    have less: "((of_nat ?W :: u64) < of_nat N) = True" using W N64 by (simp add: of_nat_u64_less)
    let ?i = "?W - b0"
    have i: "?i < length es" "b0 + ?i = ?W" using W Suc.prems(2) N by auto
    have uW: "unat (of_nat ?W :: u64) = ?W" using W N64 by (intro unat_of_nat_u64) simp
    have rd: "reads (t_wal t) (Read (of_nat ?W)) (Inr (record_of (es ! ?i)))"
      using Read_reads [OF ok i(1)] unfolding i(2) .
    obtain q y1 where q: "try_loop (in_topic tn (run (in_wal (Read (of_nat ?W))))) (with_group b tn t gn g y) =
          Some (Inr q, with_group b tn t gn g y1)"
        "q = Inr (record_of (es ! ?i)) \<or> (\<exists>x. q = Inl (OsError x))"
        "y = [] \<longrightarrow> q = Inr (record_of (es ! ?i)) \<and> y1 = []"
      using with_group_try_read [OF rd] by blast
    show ?thesis
    proof (cases q)
      case (Inl e)
      have "fetch_new tn gn consumer maxCount expiry (of_nat N) (of_nat ?W) msgs (with_group b tn t gn g y) =
          Some (Inr msgs, with_group b tn t gn g y1)"
        by (subst fetch_new.simps) (simp only: less room simp_thms if_True q(1) Inl option.case prod.case sum.case)
      moreover have "y \<noteq> []" using q(3) Inl by auto
      ultimately show ?thesis using Suc.prems by (intro exI [of _ "0 :: nat"] exI [of _ g] exI [of _ y1]) auto
    next
      case (Inr rec)
      then have rec: "rec = record_of (es ! ?i)" using q(2) by auto
      let ?g = "put_lease (of_nat ?W) (new_lease (of_nat ?W) consumer expiry) g"
      have put: "group_ok ?g" "leases_list ?g = leases_list g @ [new_lease (of_nat ?W) consumer expiry]"
        using group_put_new [OF Suc.prems(1) _ refl] W N64 by simp_all
      have w: "window_end ?g = ?W + 1"
        using arg_cong [where f = length, OF put(2)] by (simp add: window_end_def)
      have msg: "message_of rec = msg_at b0 es (of_nat ?W)" by (simp add: msg_at_def rec uW)
      have step: "fetch_new tn gn consumer maxCount expiry (of_nat N) (of_nat ?W) msgs (with_group b tn t gn g y) =
          fetch_new tn gn consumer maxCount expiry (of_nat N) (of_nat (window_end ?g)) (msgs @ [msg_at b0 es (of_nat ?W)])
            (with_group b tn t gn ?g y1)"
        by (subst fetch_new.simps)
          (simp only: less room simp_thms if_True q(1) Inr option.case prod.case sum.case with_group_modify msg w of_nat_add of_nat_1)
      have d: "d = N - window_end ?g" using Suc.hyps(2) w by simp
      have prems: "b0 \<le> window_end ?g" "window_end ?g \<le> N" "length (msgs @ [msg_at b0 es (of_nat ?W)]) \<le> unat maxCount"
        using Suc.prems(2) W w False by simp_all
      obtain n g' y' where IH:
        "fetch_new tn gn consumer maxCount expiry (of_nat N) (of_nat (window_end ?g)) (msgs @ [msg_at b0 es (of_nat ?W)])
            (with_group b tn t gn ?g y1) =
          Some (Inr ((msgs @ [msg_at b0 es (of_nat ?W)]) @ map (\<lambda>k. msg_at b0 es (of_nat k)) [?W + 1 ..< ?W + 1 + n]),
            with_group b tn t gn g' y')"
        "?W + 1 + n \<le> N" "length (msgs @ [msg_at b0 es (of_nat ?W)]) + n \<le> unat maxCount"
        "group_ok g'" "window_end g' = ?W + 1 + n" "g_CommittedOffset g' = g_CommittedOffset ?g"
        "\<forall>off. map_of (g_Leases g') off =
          (if ?W + 1 \<le> unat off \<and> unat off < ?W + 1 + n then Some (new_lease off consumer expiry)
           else map_of (g_Leases ?g) off)"
        "y1 = [] \<longrightarrow> y' = [] \<and> n = min (N - (?W + 1)) (unat maxCount - length (msgs @ [msg_at b0 es (of_nat ?W)]))"
        using Suc.hyps(1) [OF d put(1) prems, of y1] unfolding w by blast
      have upt: "[?W ..< ?W + (n + 1)] = ?W # [?W + 1 ..< ?W + 1 + n]" by (simp add: upt_rec)
      have map: "\<forall>off. map_of (g_Leases g') off =
          (if ?W \<le> unat off \<and> unat off < ?W + (n + 1) then Some (new_lease off consumer expiry)
           else map_of (g_Leases g) off)"
      proof
        fix off :: u64
        have "off = of_nat ?W \<longleftrightarrow> unat off = ?W" using uW by (metis unsigned_word_eqI)
        then show "map_of (g_Leases g') off =
          (if ?W \<le> unat off \<and> unat off < ?W + (n + 1) then Some (new_lease off consumer expiry)
           else map_of (g_Leases g) off)"
          using IH(7) by (auto simp: group_put_new_map)
      qed
      have "y = [] \<longrightarrow> y' = [] \<and> n + 1 = min (N - ?W) (unat maxCount - length msgs)"
        using q(3) IH(8) W False by (auto simp: min_def)
      moreover have "(msgs @ [msg_at b0 es (of_nat ?W)]) @ map (\<lambda>k. msg_at b0 es (of_nat k)) [?W + 1 ..< ?W + 1 + n] =
          msgs @ map (\<lambda>k. msg_at b0 es (of_nat k)) [?W ..< ?W + (n + 1)]"
        unfolding upt by simp
      moreover have "?W + (n + 1) \<le> N" "length msgs + (n + 1) \<le> unat maxCount" "window_end g' = ?W + (n + 1)"
          "g_CommittedOffset g' = g_CommittedOffset g"
        using IH(2,3,5,6) by simp_all
      ultimately show ?thesis
        using IH(1,4) map unfolding step by (intro exI [of _ "n + 1"] exI [of _ g'] exI [of _ y']) simp
    qed
  qed
qed


section \<open>fetchAvailable\<close>

lemma group_ok_same_keys:
  assumes "group_ok g" and "map fst (g_Leases g') = map fst (g_Leases g)" and "g_CommittedOffset g' = g_CommittedOffset g"
  shows "group_ok g' \<and> window_end g' = window_end g \<and> committed g' = committed g"
proof -
  have "length (g_Leases g') = length (g_Leases g)" using assms(2) by (metis length_map)
  then show ?thesis using assms by (simp add: group_ok_def window_end_def committed_def)
qed

lemma expired_offsets_set:
  "distinct (map fst (g_Leases g)) \<Longrightarrow>
    off \<in> set (expired_offsets now g) \<longleftrightarrow> (\<exists>l. map_of (g_Leases g) off = Some l \<and> is_expired now l)"
  by (force simp: expired_offsets_def)

lemma distinct_expired_offsets: "distinct (map fst (g_Leases g)) \<Longrightarrow> distinct (expired_offsets now g)"
  unfolding expired_offsets_def by (rule distinct_map_filter)

lemma subseq_distinct: "subseq xs ys \<Longrightarrow> distinct ys \<Longrightarrow> distinct xs"
  by (induction rule: list_emb.induct) (auto dest: list_emb_set)

lemma group_key_range:
  assumes "group_ok g" and "map_of (g_Leases g) off = Some l"
  shows "committed g \<le> unat off \<and> unat off < window_end g"
  using group_ok_lookup_word [OF assms(1), of off] assms(2) by (auto split: if_splits)

lemma release_simps [simp]:
  "l_ConsumerID (release c x l) = c" "l_Expiry (release c x l) = x" "l_Acked (release c x l) = l_Acked l"
  "l_Redeliveries (release c x l) = l_Redeliveries l + 1"
  by (simp_all add: release_def)

lemma new_lease_simps [simp]:
  "l_ConsumerID (new_lease off c x) = c" "l_Expiry (new_lease off c x) = x" "\<not> l_Acked (new_lease off c x)"
  "l_Redeliveries (new_lease off c x) = 0"
  by (simp_all add: new_lease_def)

lemma fetchAvailable_run:
  assumes t: "map_of (b_topics b) tn = Some t" and gr: "map_of (t_groups t) gn = Some g"
    and ok: "log_ok b0 es (t_wal t)" and g: "group_ok g" "b0 \<le> committed g" "window_end g \<le> b0 + length es"
    and few: "\<forall>off l. map_of (g_Leases g) off = Some l \<longrightarrow> is_expired now l \<longrightarrow> l_Redeliveries l < MaxRedeliveries (b_cfg b)"
  shows "\<exists>got g' y'. fetchAvailable tn gn consumer maxCount ackTimeout now b =
      Some (Inr (map (msg_at b0 es) got), with_group b tn t gn g' y') \<and>
    distinct got \<and> length got \<le> unat maxCount \<and> group_ok g' \<and> committed g' = committed g \<and>
    window_end g \<le> window_end g' \<and> window_end g' \<le> b0 + length es \<and>
    (\<forall>off \<in> set got. b0 \<le> unat off \<and> unat off < b0 + length es \<and>
      (\<forall>l. map_of (g_Leases g) off = Some l \<longrightarrow> is_expired now l) \<and>
      (\<exists>l. map_of (g_Leases g') off = Some l \<and> l_ConsumerID l = consumer \<and> l_Expiry l = now + ackTimeout \<and> \<not> l_Acked l)) \<and>
    (\<forall>off. off \<notin> set got \<longrightarrow> map_of (g_Leases g') off = map_of (g_Leases g) off) \<and>
    (script (t_wal t) = [] \<longrightarrow> y' = [] \<and>
      got = take (unat maxCount) (sort (expired_offsets now g) @ map of_nat [window_end g ..< b0 + length es]))"
proof -
  let ?N = "b0 + length es" and ?offs = "exchange_sort (expired_offsets now g) 0" and ?y = "script (t_wal t)"
  have d: "distinct (map fst (g_Leases g))" using g(1) by (simp add: group_ok_def)
  have offs: "?offs = sort (expired_offsets now g)" by (rule exchange_sort_sort)
  have offs_set: "off \<in> set ?offs \<longleftrightarrow> (\<exists>l. map_of (g_Leases g) off = Some l \<and> is_expired now l)" for off
    using expired_offsets_set [OF d] by (simp add: offs)
  have doffs: "distinct ?offs" using distinct_expired_offsets [OF d] by (simp add: offs)
  have N64: "?N < 2 ^ 64" by (rule log_ok_bound [OF ok])
  have range: "b0 \<le> unat off \<and> unat off < ?N" if "off \<in> set ?offs" for off
    using that group_key_range [OF g(1)] g(2,3) unfolding offs_set by fastforce
  have leased: "\<exists>l. map_of (g_Leases g) off = Some l \<and> l_Redeliveries l < MaxRedeliveries (b_cfg b)" if "off \<in> set ?offs" for off
    using that few unfolding offs_set by blast
  obtain got1 g1 y1 where f1:
    "fetch_expired tn gn consumer maxCount ackTimeout now ?offs [] (with_group b tn t gn g ?y) =
      Some (Inr ([] @ map (msg_at b0 es) got1), with_group b tn t gn g1 y1)"
    "subseq got1 ?offs" "length ([] :: Message list) + length got1 \<le> unat maxCount"
    "g_CommittedOffset g1 = g_CommittedOffset g" "map fst (g_Leases g1) = map fst (g_Leases g)"
    "\<forall>off. map_of (g_Leases g1) off =
      (if off \<in> set got1 then map_option (release consumer (now + ackTimeout)) (map_of (g_Leases g) off)
       else map_of (g_Leases g) off)"
    "?y = [] \<longrightarrow> y1 = [] \<and> got1 = take (unat maxCount - length ([] :: Message list)) ?offs"
    using fetch_expired_run [OF ok doffs range leased, of "[]" maxCount tn gn consumer ackTimeout now ?y] by auto
  have g1: "group_ok g1" "window_end g1 = window_end g" "committed g1 = committed g"
    using group_ok_same_keys [OF g(1) f1(5,4)] by simp_all
  have cw: "committed g \<le> window_end g" by (simp add: window_end_def)
  obtain n g2 y2 where f2:
    "fetch_new tn gn consumer maxCount (now + ackTimeout) (of_nat ?N) (of_nat (window_end g1)) (map (msg_at b0 es) got1)
        (with_group b tn t gn g1 y1) =
      Some (Inr (map (msg_at b0 es) got1 @ map (\<lambda>k. msg_at b0 es (of_nat k)) [window_end g1 ..< window_end g1 + n]),
        with_group b tn t gn g2 y2)"
    "window_end g1 + n \<le> ?N" "length (map (msg_at b0 es) got1) + n \<le> unat maxCount"
    "group_ok g2" "window_end g2 = window_end g1 + n" "g_CommittedOffset g2 = g_CommittedOffset g1"
    "\<forall>off. map_of (g_Leases g2) off =
      (if window_end g1 \<le> unat off \<and> unat off < window_end g1 + n then Some (new_lease off consumer (now + ackTimeout))
       else map_of (g_Leases g1) off)"
    "y1 = [] \<longrightarrow> y2 = [] \<and> n = min (?N - window_end g1) (unat maxCount - length (map (msg_at b0 es) got1))"
    using fetch_new_run [OF ok refl g1(1), of "map (msg_at b0 es) got1" maxCount tn gn consumer "now + ackTimeout" b y1]
      g f1(3) g1 cw by auto
  define got where "got = got1 @ map of_nat [window_end g ..< window_end g + n]"
  have run: "fetchAvailable tn gn consumer maxCount ackTimeout now b =
      Some (Inr (map (msg_at b0 es) got), with_group b tn t gn g2 y2)"
  proof -
    have b: "with_group b tn t gn g ?y = b" by (rule with_group_same [OF t gr])
    have wnext: "NextOffset ((t_wal t)\<lparr>script := y\<rparr>) = of_nat ?N" for y
      using ok by (simp add: NextOffset_def log_ok_def counters_ok_def)
    have nxt: "in_topic tn (run (gets (\<lambda>t. NextOffset (t_wal t)))) (with_group b tn t gn g1 y1) =
        Some (Inr (of_nat ?N), with_group b tn t gn g1 y1)"
      by (simp add: in_topic_def run_def gets_def wnext) (simp add: with_group_def set_topic_def update_update)
    have "fetchAvailable tn gn consumer maxCount ackTimeout now (with_group b tn t gn g ?y) =
      Some (Inr (map (msg_at b0 es) got1 @ map (\<lambda>k. msg_at b0 es (of_nat k)) [window_end g1 ..< window_end g1 + n]),
        with_group b tn t gn g2 y2)"
      unfolding fetchAvailable_def
      by (simp only: then_loop_def with_group_gets f1(1) nxt next_expected_end [OF g1(1)] f2(1) append_Nil
          option.case prod.case sum.case)
    then show ?thesis by (simp add: b got_def g1 comp_def del: upt_Suc)
  qed
  have u: "unat (of_nat k :: u64) = k" if "k < ?N" for k using that N64 by (intro unat_of_nat_u64) simp
  have new_mem: "off \<in> of_nat ` {window_end g ..< window_end g + n} \<longleftrightarrow> window_end g \<le> unat off \<and> unat off < window_end g + n"
    for off :: u64
    using u f2(2) g1(2) by (auto simp: image_iff intro!: bexI [of _ "unat off"])
  have got1_old: "off \<in> set ?offs" if "off \<in> set got1" for off using f1(2) that by (auto dest: list_emb_set)
  have old_below: "unat off < window_end g" if "off \<in> set got1" for off
    using got1_old [OF that] group_key_range [OF g(1)] unfolding offs_set by blast
  have sgot: "off \<in> set got \<longleftrightarrow> off \<in> set got1 \<or> (window_end g \<le> unat off \<and> unat off < window_end g + n)" for off
    using new_mem [of off] by (simp add: got_def)
  have "distinct got1" using f1(2) doffs by (rule subseq_distinct)
  moreover have "distinct (map of_nat [window_end g ..< window_end g + n] :: u64 list)"
    using f2(2) g1(2) N64 of_nat_u64_inj by (auto simp: distinct_map inj_on_def)
  moreover have "set got1 \<inter> set (map of_nat [window_end g ..< window_end g + n]) = {}"
    using old_below new_mem by (fastforce simp del: upt_Suc)
  ultimately have "distinct got" unfolding got_def distinct_append by blast
  moreover have "length got \<le> unat maxCount" using f2(3) by (simp add: got_def)
  moreover have "committed g2 = committed g" using f2(6) g1(3) by (simp add: committed_def)
  moreover have "window_end g \<le> window_end g2 \<and> window_end g2 \<le> ?N" using f2(2,5) g1(2) by simp
  moreover have "b0 \<le> unat off \<and> unat off < ?N \<and>
      (\<forall>l. map_of (g_Leases g) off = Some l \<longrightarrow> is_expired now l) \<and>
      (\<exists>l. map_of (g_Leases g2) off = Some l \<and> l_ConsumerID l = consumer \<and> l_Expiry l = now + ackTimeout \<and> \<not> l_Acked l)"
    if "off \<in> set got" for off
  proof (cases "off \<in> set got1")
    case True
    obtain l where l: "map_of (g_Leases g) off = Some l" "is_expired now l" using got1_old [OF True] unfolding offs_set by blast
    have "map_of (g_Leases g2) off = Some (release consumer (now + ackTimeout) l)"
      using f2(7) f1(6) True l old_below [OF True] g1(2) by simp
    then show ?thesis using l range [OF got1_old [OF True]] by (simp add: is_expired_def)
  next
    case False
    then have w: "window_end g \<le> unat off" "unat off < window_end g + n" using that sgot by auto
    then have "map_of (g_Leases g2) off = Some (new_lease off consumer (now + ackTimeout))" using f2(7) g1(2) by simp
    moreover have "map_of (g_Leases g) off = None"
      using group_key_range [OF g(1), of off] w(1) by (cases "map_of (g_Leases g) off") fastforce+
    ultimately show ?thesis using w g(2) cw f2(2) g1(2) by simp
  qed
  moreover have "map_of (g_Leases g2) off = map_of (g_Leases g) off" if "off \<notin> set got" for off
    using that f2(7) f1(6) sgot g1(2) by auto
  moreover have "y2 = [] \<and>
      got = take (unat maxCount) (sort (expired_offsets now g) @ map of_nat [window_end g ..< ?N])" if "?y = []"
  proof -
    have got1: "got1 = take (unat maxCount) (sort (expired_offsets now g))" and y: "y1 = []" using f1(7) that offs by simp_all
    have n: "n = min (?N - window_end g) (unat maxCount - length got1)" and "y2 = []" using f2(8) y g1(2) by simp_all
    have "take (unat maxCount - length (sort (expired_offsets now g))) (map of_nat [window_end g ..< ?N]) =
        (map of_nat [window_end g ..< window_end g + n] :: u64 list)"
    proof (cases "length (sort (expired_offsets now g)) \<le> unat maxCount")
      case True
      then have "n = min (?N - window_end g) (unat maxCount - length (sort (expired_offsets now g)))" using n got1 by simp
      then show ?thesis using g(3) by (simp add: take_map min_def del: upt_Suc)
    next
      case False
      then show ?thesis using n got1 by simp
    qed
    then show ?thesis using \<open>y2 = []\<close> by (simp add: got_def got1 take_append)
  qed
  ultimately show ?thesis using run f2(4) by blast
qed


section \<open>A broker to instantiate the properties with\<close>

definition sample_topic :: Topic where
  "sample_topic =
     \<lparr>t_Name = ''t'', t_wal = sample_log, t_groups = [(''g'', new_group ''g'' ''t'' 0)], t_pending = [],
      t_states = [], t_mu = False\<rparr>"

definition sample_broker :: Broker where
  "sample_broker =
     world.extend \<lparr>files = [], durable = [], script = []\<rparr>
       \<lparr>b_cfg = DefaultConfig, b_topics = [(''t'', sample_topic)], b_dirs = [], b_closed = False,
        b_chans = (\<lambda>_. None), b_fetches = 0\<rparr>"

lemma sample_broker_simps [simp]:
  "map_of (b_topics sample_broker) ''t'' = Some sample_topic"
  "map_of (t_groups sample_topic) ''g'' = Some (new_group ''g'' ''t'' 0)"
  "t_wal sample_topic = sample_log" "b_cfg sample_broker = DefaultConfig"
  by (simp_all add: sample_broker_def sample_topic_def world.defs)

lemma sample_group_fits: "0 \<le> committed (new_group ''g'' ''t'' 0)"
  "window_end (new_group ''g'' ''t'' 0) \<le> 0 + length [sample_entry]"
  by (simp_all add: window_end_def committed_def new_group_def)

lemma sample_group_running: "\<forall>off l. map_of (g_Leases (new_group ''g'' ''t'' 0)) off = Some l \<longrightarrow> is_expired 100 l \<longrightarrow>
    l_Redeliveries l < MaxRedeliveries (b_cfg sample_broker)"
  by (simp add: new_group_def)

lemma new_group_ok [simp]: "group_ok (new_group gn tn c)" "committed (new_group gn tn c) = unat c"
  "window_end (new_group gn tn c) = unat c" "g_Leases (new_group gn tn c) = []"
  using unat_u64_bound [of c] by (simp_all add: group_ok_def window_end_def committed_def new_group_def)

section \<open>Properties\<close>

text \<open>
  C9: a fetch leases exclusively: under any outcome of the system calls it delivers messages
  of distinct offsets, at most \<open>maxCount\<close>, each with the content the log holds; no message
  whose lease is running or acknowledged is delivered; each delivered one is now leased to
  this consumer until \<open>now + ackTimeout\<close>, every other lease is as it was, and the committed
  offset does not move. (No lease is at the redelivery limit.)
\<close>

theorem fetch_leases_exclusively:
  assumes "map_of (b_topics b) tn = Some t" and "group_of b tn gn = Some g"
    and "log_ok b0 es (t_wal t)" and "group_ok g" and "b0 \<le> committed g" and "window_end g \<le> b0 + length es"
    and "\<forall>off l. map_of (g_Leases g) off = Some l \<longrightarrow> is_expired now l \<longrightarrow> l_Redeliveries l < MaxRedeliveries (b_cfg b)"
  shows "\<exists>got g' b'. fetchAvailable tn gn consumer maxCount ackTimeout now b =
      Some (Inr (map (\<lambda>off. message_of (record_of (es ! (unat off - b0)))) got), b') \<and>
    group_of b' tn gn = Some g' \<and> group_ok g' \<and> committed g' = committed g \<and>
    distinct got \<and> length got \<le> unat maxCount \<and>
    (\<forall>off \<in> set got. b0 \<le> unat off \<and> unat off < b0 + length es \<and>
      (\<forall>l. map_of (g_Leases g) off = Some l \<longrightarrow> \<not> l_Acked l \<and> l_Expiry l < now) \<and>
      (\<exists>l. map_of (g_Leases g') off = Some l \<and> l_ConsumerID l = consumer \<and> l_Expiry l = now + ackTimeout \<and> \<not> l_Acked l)) \<and>
    (\<forall>off. off \<notin> set got \<longrightarrow> map_of (g_Leases g') off = map_of (g_Leases g) off)"
proof -
  have gr: "map_of (t_groups t) gn = Some g" using assms(1,2) by (simp add: group_of_def)
  have new: "group_of (with_group b tn t gn g' y) tn gn = Some g'" for g' y
    by (simp add: group_of_def AList.update_conv')
  obtain got g' y' where run: "fetchAvailable tn gn consumer maxCount ackTimeout now b =
      Some (Inr (map (msg_at b0 es) got), with_group b tn t gn g' y')"
    and rest: "distinct got" "length got \<le> unat maxCount" "group_ok g'" "committed g' = committed g"
      "\<forall>off \<in> set got. b0 \<le> unat off \<and> unat off < b0 + length es \<and>
        (\<forall>l. map_of (g_Leases g) off = Some l \<longrightarrow> is_expired now l) \<and>
        (\<exists>l. map_of (g_Leases g') off = Some l \<and> l_ConsumerID l = consumer \<and> l_Expiry l = now + ackTimeout \<and> \<not> l_Acked l)"
      "\<forall>off. off \<notin> set got \<longrightarrow> map_of (g_Leases g') off = map_of (g_Leases g) off"
    using fetchAvailable_run [OF assms(1) gr assms(3-7), where consumer = consumer and maxCount = maxCount and ackTimeout = ackTimeout] by blast
  show ?thesis
    using run rest new [of g' y'] unfolding msg_at_def is_expired_def by blast
qed

theorem fetch_leases_exclusively_witness:
  "\<exists>got g' b'. fetchAvailable ''t'' ''g'' ''c1'' 10 500 100 sample_broker =
      Some (Inr (map (\<lambda>off :: u64. message_of (record_of ([sample_entry] ! (unat off - 0)))) got), b') \<and>
    group_of b' ''t'' ''g'' = Some g' \<and> committed g' = 0 \<and> distinct got \<and> length got \<le> 10"
proof -
  have g: "group_of sample_broker ''t'' ''g'' = Some (new_group ''g'' ''t'' 0)" by (simp add: group_of_def)
  have "log_ok 0 [sample_entry] (t_wal sample_topic)" by (simp add: sample_log_ok)
  note it = fetch_leases_exclusively [OF sample_broker_simps(1) g this new_group_ok(1) sample_group_fits
    sample_group_running, of "''c1''" 10 500]
  show ?thesis
    using it by simp blast
qed

end
