(* ===== verification/Broker_Delivery.thy ===== *)
theory Broker_Delivery
  imports Broker_Groups Broker_Fetch
begin

text \<open>
  The delivery of messages as runs of the machine of leases: what \<^verbatim>\<open>Produce\<close> leaves alone, the
  sliding of the window, dead letters, and \<^verbatim>\<open>fetchAvailable\<close> with its two loops.
\<close>

section \<open>Produce\<close>

lemma relock: "locked tn b \<Longrightarrow> in_topic tn (getOrCreateGroup gn) b = None"
  by (auto simp: locked_def in_topic_def getOrCreateGroup_def then_loop_def lock_topic_def)

lemma more_dispatch_groups:
  assumes "on_more P"
  shows "effect more_groups (\<lambda>b. P b \<and> locked tn b) (dispatch_groups tn msg now gns) (\<lambda>a. P)"
proof (induction gns)
  case Nil
  show ?case unfolding dispatch_groups.simps by (rule more.returns) simp
next
  case (Cons gn gns)
  have P: "on_groups (\<lambda>b. P b \<and> locked tn b)" using assms by (intro on_groups_intros on_more_groups)
  show ?case
    unfolding dispatch_groups.simps
    by (rule more.seq [OF more_same [OF same_gets_topic [OF P]]], rule effect_if [OF Cons.IH],
        rule effect_None) (simp add: then_loop_def relock)
qed

lemma more_dispatchMessage: "on_more P \<Longrightarrow> effect more_groups P (dispatchMessage tn msg now) (\<lambda>a. P)"
  unfolding dispatchMessage_def
  by (rule more.seq [OF more_lock], assumption, rule more.seq [OF more_same [OF same_gets_topic]],
      intro on_groups_intros on_more_groups, assumption,
      rule more.seq [OF more_dispatch_groups], assumption, rule more_unlock)

lemma more_Produce:
  assumes "on_more P"
  shows "effect more_groups P (Produce tn key val now) (\<lambda>a. P)"
  unfolding Produce_def
  by (rule more.seq [OF more_CreateTopic [OF assms]],
      rule more.seq [OF more_same [OF same_in_wal [OF on_more_groups [OF assms]]]],
      rule more.seq [OF more_same [OF same_try_in_wal [OF on_more_groups [OF assms]]]],
      rule effect_case_sum, rule more.returns, assumption,
      rule more.seq [OF more_dispatchMessage [OF assms]], rule more.returns)

lemma more_try_Produce: "on_more P \<Longrightarrow> effect more_groups P (try_loop (Produce tn key val now)) (\<lambda>a. P)"
  by (rule effect_try [OF more_Produce]) (auto dest: on_moreD)

section \<open>The window\<close>

lemma in_topic_and_then:
  "in_topic tn (run (and_then m f)) = then_loop (in_topic tn (run m)) (\<lambda>a. in_topic tn (run (f a)))"
  by (rule ext) (auto simp: in_topic_def run_def and_then_def then_loop_def AList.update_conv' update_update
      split: option.splits prod.splits sum.splits)

lemma commit_run: 
  "lease_run limit (map Committed [c ..< c + length (takeWhile l_Acked ls)]) (Some (c, ls))
    (Some (c + length (takeWhile l_Acked ls), dropWhile l_Acked ls))"
proof (induction ls arbitrary: c)
  case Nil
  show ?case by (simp add: lease_run.stop)
next
  case (Cons l ls)
  show ?case
  proof (cases "l_Acked l")
    case True
    have "lease_run limit (Committed c # map Committed [c + 1 ..< c + 1 + length (takeWhile l_Acked ls)]) (Some (c, l # ls))
        (Some (c + 1 + length (takeWhile l_Acked ls), dropWhile l_Acked ls))"
      by (rule lease_run.step [OF lease_step.commit [OF True] Cons.IH])
    then show ?thesis using True by (simp add: upt_conv_Cons del: upt_Suc)
  next
    case False
    then show ?thesis by (simp add: lease_run.stop)
  qed
qed

lemma slide_ledger:
  assumes "group_ok g" and "slide g adv = (g', adv')"
  shows "group_ok g'"
    and "lease_run limit (map Committed [committed g ..< committed g']) (Some (ledger g)) (Some (ledger g'))"
  using slide_refines [OF assms] commit_run [of limit "committed g" "leases_list g"] by (simp_all add: ledger_def)

lemma slide_running:
  "slide g adv = (g', adv') \<Longrightarrow> map_of (g_Leases g) off = Some l \<Longrightarrow> \<not> l_Acked l \<Longrightarrow> map_of (g_Leases g') off = Some l"
proof (induction g adv arbitrary: g' adv' rule: slide.induct)
  case (1 g adv)
  show ?case
  proof (cases "\<exists>l0. map_of (g_Leases g) (g_CommittedOffset g) = Some l0 \<and> l_Acked l0")
    case True
    then obtain l0 where l0: "map_of (g_Leases g) (g_CommittedOffset g) = Some l0" "l_Acked l0" by blast
    let ?g = "g\<lparr>g_Leases := AList.delete (g_CommittedOffset g) (g_Leases g), g_CommittedOffset := g_CommittedOffset g + 1\<rparr>"
    have "slide ?g True = (g', adv')" using 1(2) l0 by (subst (asm) slide.simps) simp
    moreover have "off \<noteq> g_CommittedOffset g" using 1(3,4) l0 by auto
    then have "map_of (g_Leases ?g) off = Some l" using 1(3) by (simp add: AList.delete_conv')
    ultimately show ?thesis using 1(1) [OF l0] 1(4) by blast
  next
    case False
    then have "g' = g" using 1(2) by (subst (asm) slide.simps) (auto split: option.splits)
    then show ?thesis using 1(3) by simp
  qed
qed

text \<open>The leases that are running: given and not settled.\<close>

definition leased :: "string \<Rightarrow> string \<Rightarrow> u64 \<Rightarrow> LeaseState \<Rightarrow> Broker \<Rightarrow> bool" where
  "leased tn gn off l b \<longleftrightarrow> (\<exists>g. group_of b tn gn = Some g \<and> map_of (g_Leases g) off = Some l)"

definition running :: "string \<Rightarrow> string \<Rightarrow> u64 \<Rightarrow> LeaseState \<Rightarrow> Broker \<Rightarrow> bool" where
  "running tn gn off l b \<longleftrightarrow> leased tn gn off l b \<and> \<not> l_Acked l"

lemma running_leased: "running tn gn off l b \<Longrightarrow> leased tn gn off l b"
  by (simp add: running_def)

lemma on_more_leased [intro]: "on_more (leased tn gn off l)"
  unfolding leased_def on_more_def by (auto simp: more_groups_def)

lemma on_more_running [intro]: "on_more (running tn gn off l)"
  unfolding running_def by (intro on_more_intros on_more_leased)

lemma on_more_all_running [intro]: "on_more (\<lambda>b. \<forall>off \<in> S. \<exists>l. running tn gn off l b)"
  using on_more_running unfolding on_more_def by blast

definition waiting_for :: "string \<Rightarrow> string \<Rightarrow> u64 set \<Rightarrow> Broker \<Rightarrow> bool" where
  "waiting_for tn gn S b \<longleftrightarrow> groups_ok b \<and> (\<forall>off \<in> S. \<exists>l. running tn gn off l b)"

lemma on_more_waiting_for [intro]: "on_more (waiting_for tn gn S)"
  unfolding waiting_for_def by (intro on_more_intros on_more_all_running)

lemma leases_slideWindow:
  assumes opened: "opens A" and A: "\<And>k. A tn gn (Committed k)"
  shows "effect (leases_by A) (waiting_for tn gn S) (in_topic tn (run (slideWindow gn))) (\<lambda>a. waiting_for tn gn S)"
  unfolding slideWindow_def in_topic_and_then
proof (rule leases.seq [OF leases_in_group])
  fix b g r g' assume W: "waiting_for tn gn S b" and g: "group_of b tn gn = Some g"
    and r: "(case slide g False of (g', advanced) \<Rightarrow> (Inr advanced, g')) = (r, g')"
  then obtain adv where s: "slide g False = (g', adv)" by (auto split: prod.splits)
  have ok: "group_ok g" using W g by (simp add: waiting_for_def groups_ok_def)
  show "group_ok g' \<and> (\<exists>es. list_all (A tn gn) es \<and>
        lease_run (MaxRedeliveries (b_cfg b)) es (Some (ledger g)) (Some (ledger g')))"
    using slide_ledger [OF ok s] A
    by (intro conjI exI [of _ "map Committed [committed g ..< committed g']"]) (simp_all add: list_all_iff)
next
  fix b g a g' b' assume W: "waiting_for tn gn S b" and g: "group_of b tn gn = Some g"
    and r: "(case slide g False of (g', advanced) \<Rightarrow> (Inr advanced, g')) = (Inr a, g')"
    and b': "with_ledger b tn gn g' b'" and ok: "groups_ok b'"
  have s: "slide g False = (g', a)" using r by (auto split: prod.splits)
  then show "waiting_for tn gn S b'"
    using W g b' ok slide_running [OF s] by (auto simp: waiting_for_def running_def leased_def with_ledger_def) blast?
next
  fix advanced
  show "effect (leases_by A) (waiting_for tn gn S) (in_topic tn (run (if advanced
      then and_then (attempt (persistState gn)) (\<lambda>_. ret ()) else ret ()))) (\<lambda>a. waiting_for tn gn S)"
    by (intro leases_same same_keeps on_more_groups on_more_waiting_for opened)
      (auto intro!: keeps_and_then keeps_intros keeps_persistState)
qed (use opened in \<open>simp_all add: waiting_for_def\<close>)

section \<open>Changes of one lease\<close>

lemma ledger_put:
  assumes ok: "group_ok g" and l: "map_of (g_Leases g) off = Some l"
  obtains i where "i < length (leases_list g)" and "unat off = committed g + i" and "leases_list g ! i = l"
    and "\<And>l'. group_ok (put_lease off l' g)" and "\<And>l'. ledger (put_lease off l' g) = (committed g, (leases_list g)[i := l'])"
proof -
  have r: "committed g \<le> unat off" "unat off < window_end g" "leases_list g ! (unat off - committed g) = l"
    using group_ok_lookup_word [OF ok, of off] l by (auto split: if_splits)
  let ?i = "unat off - committed g"
  have i: "?i < length (g_Leases g)" "unat off = committed g + ?i" using r by (simp_all add: window_end_def)
  have "(of_nat (unat off) :: u64) = off" by simp
  from group_put_old [OF ok i, unfolded this] show ?thesis using i r by (intro that [of ?i]) (simp_all add: ledger_def)
qed

lemma ledger_new:
  assumes "group_ok g" and "unat off = window_end g" and "window_end g + 1 < 2 ^ 64"
  shows "group_ok (put_lease off l g)" and "ledger (put_lease off l g) = (committed g, leases_list g @ [l])"
    and "window_end (put_lease off l g) = window_end g + 1"
proof -
  have "(of_nat (unat off) :: u64) = off" by simp
  from group_put_new [OF assms(1,3) assms(2), unfolded this]
  show "group_ok (put_lease off l g)" and l: "ledger (put_lease off l g) = (committed g, leases_list g @ [l])"
    by (simp_all add: ledger_def)
  from arg_cong [where f = "\<lambda>s. length (snd s)", OF l] show "window_end (put_lease off l g) = window_end g + 1"
    by (simp add: ledger_def window_end_def)
qed

lemma map_of_put_lease: "map_of (g_Leases (put_lease off l g)) o' = (if o' = off then Some l else map_of (g_Leases g) o')"
  by (simp add: put_lease_def AList.update_conv')

text \<open>A lease that is running is replaced by another one; the others go on.\<close>

lemma leases_replace:
  assumes opened: "opens A"
    and P: "\<And>b. P b \<Longrightarrow> waiting_for tn gn S b \<and> leased tn gn off l b" and S: "off \<notin> S"
    and f: "\<And>b g. P b \<Longrightarrow> group_of b tn gn = Some g \<Longrightarrow> map_of (g_Leases g) off = Some l \<Longrightarrow> f g = put_lease off l' g"
    and e: "A tn gn (e (unat off))"
    and step: "\<And>b c ls i. P b \<Longrightarrow> i < length ls \<Longrightarrow> unat off = c + i \<Longrightarrow> ls ! i = l \<Longrightarrow>
      lease_step (MaxRedeliveries (b_cfg b)) (e (unat off)) (Some (c, ls)) (Some (c, ls[i := l']))"
  shows "effect (leases_by A) P (in_topic tn (run (in_group gn (modify f))))
    (\<lambda>a b. waiting_for tn gn S b \<and> (\<not> l_Acked l' \<longrightarrow> running tn gn off l' b))"
proof (rule leases_in_group)
  fix b assume "P b"
  then show "groups_ok b" using P by (auto simp: waiting_for_def)
next
  fix b g r g' assume Pb: "P b" and g: "group_of b tn gn = Some g" and m: "modify f g = (r, g')"
  have l: "map_of (g_Leases g) off = Some l" using P [OF Pb] g by (auto simp: running_def leased_def)
  have ok: "group_ok g" using P [OF Pb] g by (auto simp: waiting_for_def groups_ok_def)
  have g': "g' = put_lease off l' g" using m f [OF Pb g l] by (simp add: modify_def)
  obtain i where i: "i < length (leases_list g)" "unat off = committed g + i" "leases_list g ! i = l"
    "group_ok (put_lease off l' g)" "ledger (put_lease off l' g) = (committed g, (leases_list g)[i := l'])"
    using ledger_put [OF ok l] by metis
  from step [OF Pb i(1,2,3)]
  show "group_ok g' \<and> (\<exists>es. list_all (A tn gn) es \<and>
        lease_run (MaxRedeliveries (b_cfg b)) es (Some (ledger g)) (Some (ledger g')))"
    using i(4,5) e lease_run_one unfolding g' by (intro conjI exI [of _ "[e (unat off)]"]) (simp_all add: ledger_def)
next
  fix b g a g' b' assume Pb: "P b" and g: "group_of b tn gn = Some g" and m: "modify f g = (Inr a, g')"
    and b': "with_ledger b tn gn g' b'" and ok: "groups_ok b'"
  have l: "map_of (g_Leases g) off = Some l" using P [OF Pb] g by (auto simp: running_def leased_def)
  have g': "g' = put_lease off l' g" using m f [OF Pb g l] by (simp add: modify_def)
  have "group_of b' tn gn = Some g'" using b' by (simp add: with_ledger_def)
  then have "running tn gn o' l0 b'" if "running tn gn o' l0 b" "o' \<noteq> off" for o' l0
    using that g by (auto simp: running_def leased_def g' map_of_put_lease)
  moreover have "\<not> l_Acked l' \<longrightarrow> running tn gn off l' b'"
    using \<open>group_of b' tn gn = Some g'\<close> by (simp add: running_def leased_def g' map_of_put_lease)
  ultimately show "waiting_for tn gn S b' \<and> (\<not> l_Acked l' \<longrightarrow> running tn gn off l' b')"
    using P [OF Pb] ok S by (fastforce simp: waiting_for_def)
qed (rule opened)

section \<open>Dead letters\<close>

definition delivery :: "lease_event \<Rightarrow> bool" where
  "delivery e \<longleftrightarrow> (\<exists>k. e = Granted k \<or> e = Redelivered k \<or> e = DeadLettered k \<or> e = Committed k)"

lemma delivery_simps [simp]:
  "delivery (Granted k)" "delivery (Redelivered k)" "delivery (DeadLettered k)" "delivery (Committed k)"
  by (simp_all add: delivery_def)

text \<open>The events of an operation on one group; other groups may be opened.\<close>

definition only_on :: "string \<Rightarrow> string \<Rightarrow> (lease_event \<Rightarrow> bool) \<Rightarrow> string \<Rightarrow> string \<Rightarrow> lease_event \<Rightarrow> bool" where
  "only_on tn gn E tn' gn' e \<longleftrightarrow> (\<exists>c. e = Opened c) \<or> (tn' = tn \<and> gn' = gn \<and> E e)"

lemma opens_only_on [simp]: "opens (only_on tn gn E)"
  by (simp add: opens_def only_on_def)

lemma leases_to_dlq:
  assumes opened: "opens A" and A: "\<And>k. A tn gn (DeadLettered k)" "\<And>k. A tn gn (Committed k)"
    and S: "off \<notin> S"
  shows "effect (leases_by A)
    (\<lambda>b. waiting_for tn gn S b \<and> running tn gn off l b \<and> limit = MaxRedeliveries (b_cfg b) \<and> limit \<le> l_Redeliveries l)
    (to_dlq tn gn off now) (\<lambda>a. waiting_for tn gn S)" (is "effect _ ?P _ _")
proof -
  have more: "on_more ?P" by (intro on_more_intros on_more_waiting_for on_more_running)
  then have same: "on_groups ?P" by (rule on_more_groups)
  have act: "effect (leases_by A) ?P (in_topic tn (run (in_group gn (modify (\<lambda>g. case map_of (g_Leases g) off of
      None \<Rightarrow> g | Some l \<Rightarrow> put_lease off (l\<lparr>l_Acked := True\<rparr>) g)))))
    (\<lambda>a b. waiting_for tn gn S b \<and> (\<not> l_Acked (acked l) \<longrightarrow> running tn gn off (acked l) b))"
  proof (rule leases_replace [where e = DeadLettered])
    fix b c ls i assume P: "?P b" and i: "i < length ls" "unat off = c + i" "ls ! i = l"
    have "\<not> l_Acked l" using P by (auto simp: running_def leased_def)
    with P i show "lease_step (MaxRedeliveries (b_cfg b)) (DeadLettered (unat off)) (Some (c, ls)) (Some (c, ls[i := acked l]))"
      using lease_step.dead_letter [of i ls "unat off" c "MaxRedeliveries (b_cfg b)"] by simp
  qed (use opened A S in \<open>simp_all add: acked_def running_def\<close>)
  have produce: "effect (leases_by A) ?P (then_loop (try_loop (Produce dlq key val now)) (\<lambda>_. run (ret ()))) (\<lambda>a. ?P)" for dlq key val
    by (rule leases.seq [OF leases_more [OF more_try_Produce [OF more] opened]], rule leases.returns)
  show ?thesis
    unfolding to_dlq_def in_topic_and_then
    by (rule leases.seq [OF leases_same [OF same_try_in_wal [OF same] opened]],
        rule leases.seq [where Q = "\<lambda>a. ?P"], rule effect_case_sum, rule leases.returns, assumption, rule produce,
        rule leases.seq [OF effect_post [OF act]], erule conjunct1, rule leases_slideWindow [OF opened A(2)])
qed

section \<open>Fetch\<close>

lemma effect_waiting_head:
  assumes "\<And>l. effect R (\<lambda>b. waiting_for tn gn (set offs) b \<and> running tn gn off l b) m Q"
  shows "effect R (waiting_for tn gn (set (off # offs))) m Q"
  by (rule effect_pre [OF effect_ex [of R "\<lambda>l b. waiting_for tn gn (set offs) b \<and> running tn gn off l b", OF assms]])
    (auto simp: waiting_for_def)

text \<open>Looking up a lease that is known to be running, and the limit.\<close>

lemma leases_lookup:
  assumes opened: "opens A" and P: "on_groups P" "\<And>b. P b \<Longrightarrow> leased tn gn off l b"
    and f: "effect (leases_by A) P (f (Some l)) Q"
  shows "effect (leases_by A) P (then_loop (in_topic tn (run (in_group gn (gets (\<lambda>g. map_of (g_Leases g) off))))) f) Q"
proof (rule leases.seq [OF leases_same [OF same_gets_group [OF P(1)] opened]])
  fix a
  show "effect (leases_by A) (\<lambda>b. P b \<and> (\<exists>g. group_of b tn gn = Some g \<and> a = map_of (g_Leases g) off)) (f a) Q"
  proof (cases "a = Some l")
    case True
    show ?thesis unfolding True by (rule effect_pre [OF f]) simp
  next
    case False
    then have "\<not> (P b \<and> (\<exists>g. group_of b tn gn = Some g \<and> a = map_of (g_Leases g) off))" for b
      using P(2) [of b] by (auto simp: running_def leased_def)
    then show ?thesis unfolding effect_def by blast
  qed
qed

lemma leases_limit:
  assumes "\<And>limit. effect (leases_by A) (\<lambda>b. P b \<and> limit = MaxRedeliveries (b_cfg b)) (f limit) Q"
  shows "effect (leases_by A) P (then_loop (run (gets (\<lambda>b. MaxRedeliveries (b_cfg b)))) f) Q"
  by (rule leases.seq [OF leases.reads_state [where Q = "\<lambda>limit b. P b \<and> limit = MaxRedeliveries (b_cfg b)"]])
    (use assms in auto)

lemma leases_fetch_expired:
  assumes opened: "opens A" and A: "\<And>e. delivery e \<Longrightarrow> A tn gn e"
  shows "distinct offs \<Longrightarrow> effect (leases_by A) (waiting_for tn gn (set offs))
    (fetch_expired tn gn consumer maxCount ackTimeout now offs msgs) (\<lambda>a. groups_ok)"
proof (induction offs arbitrary: msgs)
  case Nil
  show ?case unfolding fetch_expired.simps by (rule leases.returns) (simp add: waiting_for_def)
next
  case (Cons off offs)
  let ?S = "set (off # offs)" and ?R = "set offs"
  have IH: "effect (leases_by A) (waiting_for tn gn ?R)
      (fetch_expired tn gn consumer maxCount ackTimeout now offs msgs) (\<lambda>a. groups_ok)" for msgs
    using Cons by simp
  have d: "off \<notin> ?R" using Cons.prems by simp
  let ?P = "\<lambda>l b. waiting_for tn gn ?R b \<and> running tn gn off l b"
  have P: "on_groups (?P l)" for l by (intro on_more_groups on_more_intros on_more_waiting_for on_more_running)
  have read: "effect (leases_by A) (\<lambda>b. ?P l b \<and> limit = MaxRedeliveries (b_cfg b))
      (try_loop (in_topic tn (run (in_wal (Read off))))) (\<lambda>a b. ?P l b \<and> limit = MaxRedeliveries (b_cfg b))" for l limit
    by (intro leases_same same_try_in_wal on_groups_intros(6) [OF P] on_groups_intros(8) opened)
  have again: "effect (leases_by A) (\<lambda>b. ?P l b \<and> limit = MaxRedeliveries (b_cfg b))
      (in_topic tn (run (in_group gn (modify (put_lease off (release consumer (now + ackTimeout) l))))))
      (\<lambda>a. waiting_for tn gn ?R)" if "\<not> limit \<le> l_Redeliveries l" for l limit
    by (rule effect_post [OF leases_replace [where e = Redelivered and l' = "release consumer (now + ackTimeout) l"]])
      (use opened A d that in \<open>auto simp: running_def leased_def intro: lease_step.redeliver\<close>)
  have dlq: "effect (leases_by A) (\<lambda>b. ?P l b \<and> limit = MaxRedeliveries (b_cfg b)) (to_dlq tn gn off now)
      (\<lambda>a. waiting_for tn gn ?R)" if "limit \<le> l_Redeliveries l" for l limit
    by (rule effect_pre [OF leases_to_dlq [OF opened A A d, where l = l and limit = limit]]) (use that in simp_all)
  show ?case
    unfolding fetch_expired.simps
    apply (rule effect_if, rule leases.returns, simp add: waiting_for_def)
    apply (rule effect_waiting_head)
    apply (rule leases_lookup [OF opened P], rule running_leased, erule conjunct2, rule leases_limit)
    apply (simp only: option.case, rule effect_if)
     apply (rule leases.seq [OF dlq], assumption, rule IH)
    apply (rule leases.seq [OF read], rule effect_case_sum, rule effect_pre [OF IH], simp)
    apply (rule leases.seq [OF again], assumption, rule IH)
    done
qed

text \<open>The new messages: each one extends the window by its end.\<close>

lemma fetch_new_loop:
  "fetch_new tn gn consumer maxCount expiry walNext off msgs =
     (if off < walNext \<and> of_nat (length msgs) < maxCount then
        then_loop (try_loop (in_topic tn (run (in_wal (Read off))))) (\<lambda>rec.
        case rec of
          Inl e \<Rightarrow> run (ret msgs)
        | Inr rec \<Rightarrow>
            then_loop (in_topic tn (run (in_group gn (modify (put_lease off (new_lease off consumer expiry)))))) (\<lambda>_.
            fetch_new tn gn consumer maxCount expiry walNext (off + 1) (msgs @ [message_of rec])))
      else run (ret msgs))"
  by (rule ext, subst fetch_new.simps)
    (auto simp: then_loop_def run_def ret_def split: option.splits prod.splits sum.splits)

definition ends_at :: "string \<Rightarrow> string \<Rightarrow> nat \<Rightarrow> Broker \<Rightarrow> bool" where
  "ends_at tn gn n b \<longleftrightarrow> groups_ok b \<and> (\<exists>g. group_of b tn gn = Some g \<and> window_end g = n)"

lemma on_more_ends_at: "on_more (ends_at tn gn n)"
  unfolding ends_at_def on_more_def using on_more_groups_ok by (auto simp: more_groups_def dest: on_moreD)

lemma leases_grant:
  assumes opened: "opens A" and A: "\<And>k. A tn gn (Granted k)" and off: "unat off + 1 < 2 ^ 64"
  shows "effect (leases_by A) (ends_at tn gn (unat off))
    (in_topic tn (run (in_group gn (modify (put_lease off (new_lease off consumer expiry))))))
    (\<lambda>a. ends_at tn gn (unat off + 1))"
proof (rule leases_in_group)
  fix b assume "ends_at tn gn (unat off) b"
  then show "groups_ok b" by (simp add: ends_at_def)
next
  fix b g r g' assume e: "ends_at tn gn (unat off) b" and g: "group_of b tn gn = Some g"
    and m: "modify (put_lease off (new_lease off consumer expiry)) g = (r, g')"
  have ok: "group_ok g" "unat off = window_end g" using e g by (auto simp: ends_at_def groups_ok_def)
  have room: "window_end g + 1 < 2 ^ 64" using ok(2) off by simp
  note n = ledger_new [OF ok room, of "new_lease off consumer expiry"]
  have "lease_step (MaxRedeliveries (b_cfg b)) (Granted (unat off)) (Some (ledger g))
      (Some (ledger (put_lease off (new_lease off consumer expiry) g)))"
    unfolding n(2) unfolding ledger_def
    by (rule lease_step.grant) (simp_all add: ok(2) window_end_def)
  then show "group_ok g' \<and> (\<exists>es. list_all (A tn gn) es \<and>
        lease_run (MaxRedeliveries (b_cfg b)) es (Some (ledger g)) (Some (ledger g')))"
    using m n(1) A lease_run_one by (intro conjI exI [of _ "[Granted (unat off)]"]) (auto simp: modify_def)
next
  fix b g a g' b' assume e: "ends_at tn gn (unat off) b" and g: "group_of b tn gn = Some g"
    and m: "modify (put_lease off (new_lease off consumer expiry)) g = (Inr a, g')"
    and b': "with_ledger b tn gn g' b'" and "groups_ok b'"
  have ok: "group_ok g" "unat off = window_end g" using e g by (auto simp: ends_at_def groups_ok_def)
  have room: "window_end g + 1 < 2 ^ 64" using ok(2) off by simp
  show "ends_at tn gn (unat off + 1) b'"
    using m b' ledger_new(3) [OF ok room] ok(2) \<open>groups_ok b'\<close> by (auto simp: ends_at_def with_ledger_def modify_def)
qed (rule opened)

lemma leases_fetch_new:
  assumes opened: "opens A" and A: "\<And>k. A tn gn (Granted k)"
  shows "effect (leases_by A) (ends_at tn gn (unat off))
    (fetch_new tn gn consumer maxCount expiry walNext off msgs) (\<lambda>a. groups_ok)"
proof (induction "unat walNext - unat off" arbitrary: off msgs rule: less_induct)
  case less
  have stop: "effect (leases_by A) (ends_at tn gn (unat off)) (run (ret msgs)) (\<lambda>a. groups_ok)" for msgs
    by (rule leases.returns) (simp add: ends_at_def)
  show ?case
  proof (cases "off < walNext \<and> of_nat (length msgs) < maxCount")
    case False
    then show ?thesis using stop by (subst fetch_new_loop) (simp only: if_False simp_thms)
  next
    case True
    then have S: "unat (off + 1) = unat off + 1" "unat off < unat walNext"
      using unat_u64_Suc [of off walNext] by (simp_all add: word_less_nat_alt)
    then have off: "unat off + 1 < 2 ^ 64" using unat_u64_bound [of "off + 1"] by simp
    have rec: "effect (leases_by A) (ends_at tn gn (unat off + 1))
        (fetch_new tn gn consumer maxCount expiry walNext (off + 1) ms) (\<lambda>a. groups_ok)" for ms
      using less [of "off + 1" ms] S by simp
    have "effect (leases_by A) (ends_at tn gn (unat off))
        (then_loop (try_loop (in_topic tn (run (in_wal (Read off))))) (\<lambda>rec.
        case rec of
          Inl e \<Rightarrow> run (ret msgs)
        | Inr rec \<Rightarrow>
            then_loop (in_topic tn (run (in_group gn (modify (put_lease off (new_lease off consumer expiry)))))) (\<lambda>_.
            fetch_new tn gn consumer maxCount expiry walNext (off + 1) (msgs @ [message_of rec])))) (\<lambda>a. groups_ok)"
      by (rule leases.seq [OF leases_same [OF same_try_in_wal [OF on_more_groups [OF on_more_ends_at]] opened]],
          rule effect_case_sum, rule stop, rule leases.seq [OF leases_grant [OF opened A off] rec])
    then show ?thesis using True by (subst fetch_new_loop) (simp only: if_True simp_thms)
  qed
qed

lemma leases_fetchAvailable:
  assumes opened: "opens A" and A: "\<And>e. delivery e \<Longrightarrow> A tn gn e"
  shows "effect (leases_by A) groups_ok (fetchAvailable tn gn consumer maxCount ackTimeout now) (\<lambda>a. groups_ok)"
  unfolding fetchAvailable_def
proof (rule leases.seq [OF leases_same [OF same_gets_group [OF on_groups_intros(4)] opened]])
  fix offs
  show "effect (leases_by A) (\<lambda>b. groups_ok b \<and> (\<exists>g. group_of b tn gn = Some g \<and> offs = expired_offsets now g))
    (then_loop (fetch_expired tn gn consumer maxCount ackTimeout now (exchange_sort offs 0) []) (\<lambda>msgs.
     then_loop (in_topic tn (run (in_group gn (gets next_expected)))) (\<lambda>off.
     then_loop (in_topic tn (run (gets (\<lambda>t. NextOffset (t_wal t))))) (\<lambda>walNext.
     fetch_new tn gn consumer maxCount (now + ackTimeout) walNext off msgs)))) (\<lambda>a. groups_ok)"
  proof (rule leases.seq)
    show "effect (leases_by A) (\<lambda>b. groups_ok b \<and> (\<exists>g. group_of b tn gn = Some g \<and> offs = expired_offsets now g))
      (fetch_expired tn gn consumer maxCount ackTimeout now (exchange_sort offs 0) []) (\<lambda>a. groups_ok)"
    proof (cases "distinct offs")
      case True
      have "distinct (exchange_sort offs 0)" using True by (simp add: exchange_sort_sort)
      from leases_fetch_expired [OF opened A this] show ?thesis
      proof (rule effect_pre)
        fix b assume b: "groups_ok b \<and> (\<exists>g. group_of b tn gn = Some g \<and> offs = expired_offsets now g)"
        then obtain g where g: "group_of b tn gn = Some g" "offs = expired_offsets now g" by blast
        have "distinct (map fst (g_Leases g))" using b g by (auto simp: groups_ok_def group_ok_def)
        from expired_offsets_set [OF this] b g show "waiting_for tn gn (set (exchange_sort offs 0)) b"
          by (auto simp: waiting_for_def running_def leased_def exchange_sort_sort is_expired_def)
      qed
    next
      case False
      have "\<not> (groups_ok b \<and> (\<exists>g. group_of b tn gn = Some g \<and> offs = expired_offsets now g))" for b
        using False distinct_expired_offsets [where now = now] by (fastforce simp: groups_ok_def group_ok_def)
      then show ?thesis unfolding effect_def by blast
    qed
  next
    fix msgs
    show "effect (leases_by A) groups_ok
     (then_loop (in_topic tn (run (in_group gn (gets next_expected)))) (\<lambda>off.
      then_loop (in_topic tn (run (gets (\<lambda>t. NextOffset (t_wal t))))) (\<lambda>walNext.
      fetch_new tn gn consumer maxCount (now + ackTimeout) walNext off msgs))) (\<lambda>a. groups_ok)"
    proof (rule leases.seq [OF effect_post [OF leases_same [OF same_gets_group [OF on_groups_intros(4)] opened]]])
      fix off b assume b: "groups_ok b \<and> (\<exists>g. group_of b tn gn = Some g \<and> off = next_expected g)"
      then obtain g where g: "group_of b tn gn = Some g" "off = next_expected g" by blast
      have "group_ok g" using b g by (auto simp: groups_ok_def)
      with next_expected_end [OF this] have "unat off = window_end g"
        using g by (simp add: group_ok_def unat_of_nat_u64)
      with b g show "ends_at tn gn (unat off) b" by (auto simp: ends_at_def)
    next
      fix off
      show "effect (leases_by A) (ends_at tn gn (unat off))
        (then_loop (in_topic tn (run (gets (\<lambda>t. NextOffset (t_wal t))))) (\<lambda>walNext.
         fetch_new tn gn consumer maxCount (now + ackTimeout) walNext off msgs)) (\<lambda>a. groups_ok)"
        by (rule leases.seq [OF leases_same [OF same_gets_topic [OF on_more_groups [OF on_more_ends_at]] opened]
              leases_fetch_new [OF opened]]) (simp add: A)
    qed
  qed
qed


end
