(* ===== verification/Broker_Ops.thy ===== *)
theory Broker_Ops
  imports Broker_Delivery
begin

text \<open>
  Every operation of the broker as a run of the machine of leases.
\<close>

section \<open>Fetch, Ack and Nack\<close>

lemma same_modify:
  assumes "\<And>b. b_topics (f b) = b_topics b \<and> b_cfg (f b) = b_cfg b" and "on_groups P"
  shows "effect same_groups P (run (modify f)) (\<lambda>a. P)"
proof (rule effectI)
  fix b r b' assume P: "P b" and run: "run (modify f) b = Some (r, b')"
  then have "b' = f b" by (simp add: run_def modify_def)
  then have "same_groups b b'" using assms(1) [of b] by (simp add: same_groups_def group_of_def locked_def fun_eq_iff)
  then show "same_groups b b' \<and> (\<forall>a. r = Inr a \<longrightarrow> P b')" using P assms(2) by (auto dest: on_groupsD)
qed

lemma same_modify_topic:
  assumes "\<And>t. t_groups (f t) = t_groups t \<and> t_mu (f t) = t_mu t" and "on_groups P"
  shows "effect same_groups P (in_topic tn (run (modify f))) (\<lambda>a. P)"
  by (rule same_keeps [OF _ assms(2)]) (simp add: keeps_def modify_def assms(1))

lemma leases_Fetch:
  assumes opened: "opens A" and A: "\<And>e. delivery e \<Longrightarrow> A (fq_Topic req) (fq_Group req) e"
  shows "effect (leases_by A) groups_ok (Fetch req now) (\<lambda>a. groups_ok)"
  unfolding Fetch_def Let_def
  apply (rule leases.seq [OF leases_more [OF more_CreateTopic [OF on_more_groups_ok] opened]])
  apply (rule leases.seq [OF leases_more [OF more_getOrCreateGroup [OF on_more_groups_ok] opened]])
  apply (rule leases.seq [OF leases.reads_here])
  apply (rule leases.seq [OF leases_fetchAvailable [OF opened A]], assumption)
  apply (rule effect_if, rule leases.returns, assumption)
  apply (rule effect_if, rule leases.returns, assumption)
  apply (rule leases.seq [OF leases.reads_here])
  apply (rule leases.seq [OF leases_same [OF same_modify opened]], simp, rule on_groups_intros)
  apply (rule leases.seq [OF effect_post [OF leases_more [OF more_lock [OF on_more_groups_ok] opened]]], erule conjunct1)
  apply (rule leases.seq [OF leases_same [OF same_modify_topic opened]], simp add: set_pending_def, rule on_groups_intros)
  apply (rule leases.seq [OF leases_more [OF more_unlock [OF on_more_groups_ok] opened]])
  apply (rule leases.returns, assumption)
  done

lemma leases_Fetch_timeout:
  assumes opened: "opens A"
  shows "effect (leases_by A) groups_ok (Fetch_timeout req ch) (\<lambda>a. groups_ok)"
  unfolding Fetch_timeout_def
  apply (rule leases.seq [OF effect_post [OF leases_more [OF more_lock [OF on_more_groups_ok] opened]]], erule conjunct1)
  apply (rule leases.seq [OF leases_same [OF same_modify_topic opened]],
      simp add: set_pending_def split: option.splits, rule on_groups_intros)
  apply (rule leases.seq [OF leases_more [OF more_unlock [OF on_more_groups_ok] opened]])
  apply (rule leases.returns, assumption)
  done

text \<open>A look at one lease of a group: it is not there, or it is this one.\<close>

lemma leases_gets_lease:
  assumes opened: "opens A" and none: "effect (leases_by A) groups_ok (f None) Q"
    and some: "\<And>l. effect (leases_by A) (\<lambda>b. groups_ok b \<and> leased tn gn off l b) (f (Some l)) Q"
  shows "effect (leases_by A) groups_ok
    (then_loop (in_topic tn (run (in_group gn (gets (\<lambda>g. map_of (g_Leases g) off))))) f) Q"
proof (rule leases.seq [OF leases_same [OF same_gets_group [OF on_groups_intros(4)] opened]])
  fix a
  show "effect (leases_by A) (\<lambda>b. groups_ok b \<and> (\<exists>g. group_of b tn gn = Some g \<and> a = map_of (g_Leases g) off)) (f a) Q"
  proof (cases a)
    case None
    show ?thesis unfolding None by (rule effect_pre [OF none]) simp
  next
    case (Some l)
    show ?thesis unfolding Some by (rule effect_pre [OF some]) (auto simp: leased_def)
  qed
qed

lemma waiting_for_empty: "waiting_for tn gn {} = groups_ok"
  by (simp add: waiting_for_def fun_eq_iff)

lemma leases_acknowledge:
  assumes opened: "opens A" and A: "A tn gn (Acknowledged (unat off))"
  shows "effect (leases_by A) (\<lambda>b. groups_ok b \<and> leased tn gn off l b)
    (in_topic tn (run (in_group gn (modify (put_lease off (l\<lparr>l_Acked := True\<rparr>)))))) (\<lambda>a. groups_ok)"
proof (rule effect_post [OF leases_replace [where S = "{}" and e = Acknowledged]])
  show "lease_step (MaxRedeliveries (b_cfg b)) (Acknowledged (unat off)) (Some (c, ls)) (Some (c, ls[i := l\<lparr>l_Acked := True\<rparr>]))"
    if "i < length ls" "unat off = c + i" "ls ! i = l" for b c ls i
    using lease_step.acknowledge [OF that(1,2)] that(3) by (simp add: acked_def)
qed (use opened A in \<open>simp_all add: waiting_for_empty\<close>)

lemma leases_Ack:
  assumes opened: "opens A" and A: "A tn gn (Acknowledged (unat off))" "\<And>k. A tn gn (Committed k)"
  shows "effect (leases_by A) groups_ok (Ack tn gn off) (\<lambda>a. groups_ok)"
proof -
  have slide: "effect (leases_by A) groups_ok (in_topic tn (run (slideWindow gn))) (\<lambda>a. groups_ok)"
    using leases_slideWindow [where A = A and tn = tn and gn = gn and S = "{}", OF opened A(2)] by (simp add: waiting_for_empty)
  have rest: "effect (leases_by A) groups_ok (in_topic tn (run (
      if off < committed then ret () else
      and_then (in_group gn (gets (\<lambda>g. map_of (g_Leases g) off))) (\<lambda>lease.
      case lease of None \<Rightarrow> fail ErrLeaseNotFound | Some l \<Rightarrow>
      and_then (in_group gn (modify (put_lease off (l\<lparr>l_Acked := True\<rparr>)))) (\<lambda>_. slideWindow gn))))) (\<lambda>a. groups_ok)" for committed
  proof (cases "off < committed")
    case True
    then show ?thesis
      by (simp only: if_True) (intro leases_same same_keeps keeps_intros on_groups_intros opened)
  next
    case False
    show ?thesis
      unfolding if_not_P [OF False] in_topic_and_then
      by (rule leases_gets_lease [OF opened], simp only: option.case)
        (intro leases_same same_keeps keeps_intros on_groups_intros opened,
         simp only: option.case in_topic_and_then, rule leases.seq [OF leases_acknowledge [OF opened A(1)] slide])
  qed
  show ?thesis
    unfolding Ack_def
    apply (rule leases.seq [OF leases.reads_here])
    apply (rule effect_if, rule leases.fails)
    apply (rule leases.seq [OF leases_more [OF more_getOrCreateGroup [OF on_more_groups_ok] opened]])
    apply (subst in_topic_and_then)
    apply (rule leases.seq [OF effect_post [OF leases_same [OF same_gets_group [OF on_groups_intros(4)] opened]] rest], erule conjunct1)
    done
qed

lemma on_more_ok_leased: "on_more (\<lambda>b. groups_ok b \<and> leased tn gn off l b)"
  by (intro on_more_intros on_more_leased)

lemma leases_reject:
  assumes opened: "opens A" and A: "A tn gn (Rejected (unat off))" and l: "\<not> l_Acked l"
  shows "effect (leases_by A) (\<lambda>b. groups_ok b \<and> leased tn gn off l b)
    (in_topic tn (run (in_group gn (modify (put_lease off (l\<lparr>l_Expiry := now\<rparr>))))))
    (\<lambda>a b. groups_ok b \<and> leased tn gn off (l\<lparr>l_Expiry := now\<rparr>) b)"
proof (rule effect_post [OF leases_replace [where S = "{}" and e = Rejected]])
  show "lease_step (MaxRedeliveries (b_cfg b)) (Rejected (unat off)) (Some (c, ls)) (Some (c, ls[i := l\<lparr>l_Expiry := now\<rparr>]))"
    if "i < length ls" "unat off = c + i" "ls ! i = l" for b c ls i
    using lease_step.reject [OF that(1,2)] that(3) l by simp
qed (use opened A l in \<open>simp_all add: waiting_for_empty running_def\<close>)

lemma leases_hand_over:
  assumes opened: "opens A" and A: "A tn gn (HandedOver (unat off))" and l: "\<not> l_Acked l"
  shows "effect (leases_by A) (\<lambda>b. groups_ok b \<and> leased tn gn off (l\<lparr>l_Expiry := now\<rparr>) b)
    (in_topic tn (run (in_group gn (modify (put_lease off (release consumer expiry l)))))) (\<lambda>a. groups_ok)"
proof (rule effect_post [OF leases_replace [where S = "{}" and e = HandedOver]])
  show "lease_step (MaxRedeliveries (b_cfg b)) (HandedOver (unat off)) (Some (c, ls)) (Some (c, ls[i := release consumer expiry l]))"
    if "i < length ls" "unat off = c + i" "ls ! i = l\<lparr>l_Expiry := now\<rparr>" for b c ls i
    using lease_step.hand_over [OF that(1,2)] that(3) l by (simp add: release_def)
qed (use opened A l in \<open>simp_all add: waiting_for_empty running_def\<close>)

lemma leases_Nack:
  assumes opened: "opens A" and A: "A tn gn (Rejected (unat off))" "A tn gn (HandedOver (unat off))"
  shows "effect (leases_by A) groups_ok (Nack tn gn off now) (\<lambda>a. groups_ok)"
proof -
  let ?P = "\<lambda>l b. groups_ok b \<and> leased tn gn off (l\<lparr>l_Expiry := now\<rparr>) b"
  have P: "on_more (?P l)" for l by (rule on_more_ok_leased)
  note S = on_more_groups [OF P]
  show ?thesis
    unfolding Nack_def Let_def
    apply (rule leases.seq [OF leases.reads_here])
    apply (rule effect_if, rule leases.fails)
    apply (rule leases.seq [OF leases_more [OF more_getOrCreateGroup [OF on_more_groups_ok] opened]])
    apply (rule leases_gets_lease [OF opened], simp only: option.case, rule leases.fails)
    apply (simp only: option.case, rule effect_if, rule leases.fails)
    apply (rule leases.seq [OF leases_reject [OF opened A(1)]], assumption)
    apply (rule leases.seq [OF effect_post [OF leases_more [OF more_lock [OF P] opened]]], erule conjunct1)
    apply (rule leases.seq [OF leases_same [OF same_gets_topic [OF S] opened]])
    apply (rule effect_if)
     apply (rule leases.seq [OF leases_same [OF same_set_pending [OF S] opened]])
     apply (rule leases.seq [OF leases_more [OF more_unlock [OF P] opened]])
     apply (rule leases.seq [OF leases_hand_over [OF opened A(2)]], assumption)
     apply (rule leases.seq [OF leases_same [OF same_try_in_wal [OF on_groups_intros(4)] opened]])
     apply (rule effect_case_sum, rule leases.returns, assumption)
     apply (rule leases_same [OF same_try_send [OF on_groups_intros(4)] opened])
    apply (rule effect_post [OF leases_more [OF more_unlock [OF P] opened]], erule conjunct1)
    done
qed

section \<open>Expired leases\<close>

lemma first_expired_mem:
  assumes "first_expired now g = Some off"
  shows "\<exists>l. (off, l) \<in> set (g_Leases g) \<and> is_expired now l"
proof -
  have "foldl (\<lambda>found (off, l). if is_expired now l
       then (case found of None \<Rightarrow> Some off | Some e \<Rightarrow> if off < e then Some off else found)
       else found) found xs = Some off \<Longrightarrow> found = Some off \<or> (\<exists>l. (off, l) \<in> set xs \<and> is_expired now l)"
    for found and xs :: "(u64 \<times> LeaseState) list"
    by (induction xs arbitrary: found) (fastforce split: if_splits option.splits)+
  from this [of None "g_Leases g"] assms show ?thesis by (auto simp: first_expired_def)
qed

lemma leases_check_groups:
  assumes opened: "opens A" and A: "\<And>gn e. delivery e \<Longrightarrow> A tn gn e"
  shows "effect (leases_by A) groups_ok (check_groups tn now gns) (\<lambda>a. groups_ok)"
proof (induction gns)
  case Nil
  show ?case unfolding check_groups.simps by (rule leases.returns)
next
  case (Cons gn gns)
  let ?P = "\<lambda>off l b. groups_ok b \<and> running tn gn off l b"
  have P: "on_groups (?P off l)" for off l by (intro on_more_groups on_more_intros on_more_running)
  have read: "effect (leases_by A) (\<lambda>b. ?P off l b \<and> limit = MaxRedeliveries (b_cfg b))
      (try_loop (in_topic tn (run (in_wal (Read off))))) (\<lambda>a b. ?P off l b \<and> limit = MaxRedeliveries (b_cfg b))" for off l limit
    by (intro leases_same same_try_in_wal on_groups_intros(6) [OF P] on_groups_intros(8) opened)
  have again: "effect (leases_by A) (\<lambda>b. ?P off l b \<and> limit = MaxRedeliveries (b_cfg b))
      (in_topic tn (run (in_group gn (modify (put_lease off (release consumer expiry l)))))) (\<lambda>a. groups_ok)"
    if "\<not> limit \<le> l_Redeliveries l" for off l limit consumer expiry
    by (rule effect_post [OF leases_replace [where S = "{}" and e = Redelivered and l' = "release consumer expiry l"]])
      (use opened A that in \<open>auto simp: running_def waiting_for_empty intro: lease_step.redeliver\<close>)
  have dlq: "effect (leases_by A) (\<lambda>b. ?P off l b \<and> limit = MaxRedeliveries (b_cfg b)) (to_dlq tn gn off now) (\<lambda>a. groups_ok)"
    if "limit \<le> l_Redeliveries l" for off l limit
    using leases_to_dlq [where A = A and tn = tn and gn = gn and S = "{}" and off = off and l = l and limit = limit and now = now,
        OF opened A A] that
    by (auto simp: waiting_for_empty intro: effect_pre)
  have pick: "effect (leases_by A) (\<lambda>b. groups_ok b \<and> (\<exists>g. group_of b tn gn = Some g \<and> Some off = first_expired now g)) m Q"
    if "\<And>l. effect (leases_by A) (?P off l) m Q" for off and m :: "(Broker, unit) loop" and Q
  proof (rule effect_pre [OF effect_ex [of "leases_by A" "?P off", OF that]])
    fix b assume b: "groups_ok b \<and> (\<exists>g. group_of b tn gn = Some g \<and> Some off = first_expired now g)"
    then obtain g l where g: "group_of b tn gn = Some g" "(off, l) \<in> set (g_Leases g)" "is_expired now l"
      by (metis first_expired_mem)
    moreover have "distinct (map fst (g_Leases g))" using b g by (auto simp: groups_ok_def group_ok_def)
    ultimately show "\<exists>l. ?P off l b" using b by (auto simp: running_def leased_def is_expired_def)
  qed
  show ?case
    unfolding check_groups.simps Let_def
    apply (rule leases.seq [OF leases_same [OF same_gets_topic [OF on_groups_intros(4)] opened]])
    apply (rule leases.seq [OF leases_same [OF same_gets_topic [OF on_groups_intros(4)] opened]])
    apply (rule effect_if, rule Cons.IH)
    apply (rule leases.seq [OF leases_same [OF same_gets_group [OF on_groups_intros(4)] opened]])
    apply (rule effect_case_option, rule effect_pre [OF Cons.IH], erule conjunct1)
    apply (simp only:, rule pick)
    apply (rule leases.seq [OF leases_same [OF same_set_pending [OF P] opened]])
    apply (rule leases_lookup [OF opened P], rule running_leased, erule conjunct2, rule leases_limit)
    apply (simp only: option.case, rule effect_if)
     apply (rule leases.seq [OF dlq Cons.IH], assumption)
    apply (rule leases.seq [OF read], rule effect_case_sum, rule effect_pre [OF Cons.IH], simp)
    apply (rule leases.seq [OF again], assumption)
    apply (rule leases.seq [OF leases_same [OF same_try_send [OF on_groups_intros(4)] opened] Cons.IH])
    done
qed

lemma leases_checkExpiredLeases:
  assumes opened: "opens A" and A: "\<And>gn e. delivery e \<Longrightarrow> A tn gn e"
  shows "effect (leases_by A) groups_ok (checkExpiredLeases tn now) (\<lambda>a. groups_ok)"
  unfolding checkExpiredLeases_def
  apply (rule leases.seq [OF effect_post [OF leases_more [OF more_lock [OF on_more_groups_ok] opened]]], erule conjunct1)
  apply (rule leases.seq [OF leases_same [OF same_gets_topic [OF on_groups_intros(4)] opened]])
  apply (rule leases.seq [OF leases_check_groups [OF opened A]], assumption)
  apply (rule leases_more [OF more_unlock [OF on_more_groups_ok] opened])
  done

lemma leases_leaseExpiry_tick:
  assumes opened: "opens A" and A: "\<And>tn gn e. delivery e \<Longrightarrow> A tn gn e"
  shows "effect (leases_by A) groups_ok (leaseExpiry_tick now) (\<lambda>a. groups_ok)"
proof -
  have topics: "effect (leases_by A) groups_ok (check_topics now tns) (\<lambda>a. groups_ok)" for tns
  proof (induction tns)
    case Nil
    show ?case unfolding check_topics.simps by (rule leases.returns)
  next
    case (Cons tn tns)
    show ?case unfolding check_topics.simps
      by (rule leases.seq [OF leases_checkExpiredLeases [OF opened A] Cons.IH])
  qed
  show ?thesis
    unfolding leaseExpiry_tick_def
    apply (rule leases.seq [OF leases.reads_here])
    apply (rule effect_if, rule leases.returns, assumption)
    apply (rule leases.seq [OF leases.reads_here])
    apply (rule leases.seq [OF topics], rule leases.returns, assumption)
    done
qed

section \<open>The rest of the broker\<close>

lemma more_create_topics: "effect more_groups groups_ok (create_topics entries) (\<lambda>a. groups_ok)"
proof (induction entries)
  case Nil
  show ?case unfolding create_topics.simps by (rule more.returns)
next
  case (Cons entry entries)
  show ?case
    by (cases entry, simp only: create_topics.simps)
      (rule more.seq, rule effect_if, rule more_CreateTopic [OF on_more_groups_ok], rule more.returns, assumption, rule Cons.IH)
qed

lemma leases_Broker_Close:
  assumes opened: "opens A"
  shows "effect (leases_by A) groups_ok Broker_Close (\<lambda>a. groups_ok)"
proof -
  have topics: "effect (leases_by A) groups_ok (close_topics tns lastErr) (\<lambda>a. groups_ok)" for tns lastErr
  proof (induction tns arbitrary: lastErr)
    case Nil
    show ?case unfolding close_topics.simps by (rule leases.returns)
  next
    case (Cons tn tns)
    show ?case unfolding close_topics.simps
      apply (rule leases.seq [OF effect_post [OF leases_more [OF more_lock [OF on_more_groups_ok] opened]]], erule conjunct1)
      apply (rule leases.seq [OF leases_same [OF same_try_in_wal [OF on_groups_intros(4)] opened]])
      apply (rule leases.seq [OF leases_more [OF more_unlock [OF on_more_groups_ok] opened]])
      apply (rule Cons.IH)
      done
  qed
  show ?thesis
    unfolding Broker_Close_def
    apply (rule leases.seq [OF leases.reads_here])
    apply (rule effect_if, rule leases.returns, assumption)
    apply (rule leases.seq [OF leases_same [OF same_modify opened]], simp, rule on_groups_intros(4))
    apply (rule leases.seq [OF leases.reads_here])
    apply (rule leases.seq [OF topics])
    apply (rule effect_case_option, rule leases.returns, assumption, rule leases.fails)
    done
qed

end
