(* ===== verification/Broker_Runs.thy ===== *)
theory Broker_Runs
  imports Broker_Ops
begin

text \<open>
  The broker as a state machine: its steps are the calls of its clients, the wake-ups of
  waiting fetches, the ticks of its background loops, and the environment choosing the
  outcomes of the system calls to come. What holds of all runs follows from the machine of
  leases every step implements.
\<close>

section \<open>Calls and runs\<close>

datatype broker_call =
    C_CreateTopic string
  | C_Produce string "byte list" "byte list"
  | C_Fetch FetchRequest
  | C_Receive nat
  | C_Timeout FetchRequest nat
  | C_Ack string string u64
  | C_Nack string string u64
  | C_Tick
  | C_Flush string
  | C_Outcomes
  | C_Close

definition set_outcomes :: "(string \<Rightarrow> outcome list) \<Rightarrow> Broker \<Rightarrow> Broker" where
  "set_outcomes y b =
     b\<lparr>b_topics := map (\<lambda>(tn, t). (tn, t\<lparr>t_wal := (t_wal t)\<lparr>script := y tn\<rparr>\<rparr>)) (b_topics b)\<rparr>"

inductive broker_step :: "broker_call \<Rightarrow> Broker \<Rightarrow> Broker \<Rightarrow> bool" where
  create: "CreateTopic tn b = Some (r, b') \<Longrightarrow> broker_step (C_CreateTopic tn) b b'"
| produce: "Produce tn key val now b = Some (r, b') \<Longrightarrow> broker_step (C_Produce tn key val) b b'"
| fetch: "Fetch req now b = Some (q, b') \<Longrightarrow> broker_step (C_Fetch req) b b'"
| receive: "Fetch_receive ch b = Some (m, b') \<Longrightarrow> broker_step (C_Receive ch) b b'"
| timeout: "Fetch_timeout req ch b = Some (m, b') \<Longrightarrow> broker_step (C_Timeout req ch) b b'"
| ack: "Ack tn gn off b = Some (u, b') \<Longrightarrow> broker_step (C_Ack tn gn off) b b'"
| nack: "Nack tn gn off now b = Some (u, b') \<Longrightarrow> broker_step (C_Nack tn gn off) b b'"
| tick: "leaseExpiry_tick now b = Some (v, b') \<Longrightarrow> broker_step C_Tick b b'"
| flush: "in_topic tn (run (in_wal Flush)) b = Some (u, b') \<Longrightarrow> broker_step (C_Flush tn) b b'"
| outcomes: "broker_step C_Outcomes b (set_outcomes y b)"
| close: "Broker_Close b = Some (u, b') \<Longrightarrow> broker_step C_Close b b'"

inductive broker_run :: "broker_call list \<Rightarrow> Broker \<Rightarrow> Broker \<Rightarrow> bool" where
  stay: "broker_run [] b b"
| call: "broker_step c b b1 \<Longrightarrow> broker_run cs b1 b' \<Longrightarrow> broker_run (c # cs) b b'"

text \<open>The events a call may cause in a group; every call may open groups it finds on disk.\<close>

fun may :: "broker_call \<Rightarrow> string \<Rightarrow> string \<Rightarrow> lease_event \<Rightarrow> bool" where
  "may _ _ _ (Opened _) = True"
| "may (C_Fetch req) tn gn e = (tn = fq_Topic req \<and> gn = fq_Group req \<and> delivery e)"
| "may (C_Ack t g off) tn gn e = (tn = t \<and> gn = g \<and> (e = Acknowledged (unat off) \<or> (\<exists>k. e = Committed k)))"
| "may (C_Nack t g off) tn gn e = (tn = t \<and> gn = g \<and> (e = Rejected (unat off) \<or> e = HandedOver (unat off)))"
| "may C_Tick tn gn e = delivery e"
| "may _ _ _ _ = False"

lemma opens_may: "opens (may c)"
  by (simp add: opens_def)

lemma may_delivery:
  "delivery e \<Longrightarrow> may (C_Fetch req) (fq_Topic req) (fq_Group req) e"
  "delivery e \<Longrightarrow> may C_Tick tn gn e"
  by (cases e; simp)+

lemma map_of_map_keyed: "map_of (map (\<lambda>(k, v). (k, f k v)) xs) k = map_option (f k) (map_of xs k)"
  by (induction xs) auto

lemma same_set_outcomes: "same_groups b (set_outcomes y b)"
proof -
  have m: "map_of (b_topics (set_outcomes y b)) tn =
      map_option (\<lambda>t. t\<lparr>t_wal := (t_wal t)\<lparr>script := y tn\<rparr>\<rparr>) (map_of (b_topics b) tn)" for tn
    by (simp add: set_outcomes_def map_of_map_keyed)
  show ?thesis
    by (auto simp: same_groups_def group_of_def locked_def m fun_eq_iff split: option.splits) (simp add: set_outcomes_def)
qed

lemma step_leases:
  assumes "broker_step c b b'" and ok: "groups_ok b"
  shows "leases_by (may c) b b'"
  using assms(1)
proof (cases rule: broker_step.cases)
  case (create tn r)
  then show ?thesis using effectD(1) [OF leases_more [OF more_CreateTopic [OF on_more_groups_ok] opens_may] ok] by blast
next
  case (produce tn key val now r)
  then show ?thesis using effectD(1) [OF leases_more [OF more_Produce [OF on_more_groups_ok] opens_may] ok] by blast
next
  case (fetch req now q)
  then show ?thesis using effectD(1) [OF leases_Fetch [OF opens_may may_delivery(1)] ok] by blast
next
  case (receive ch m)
  then have "same_groups b b'"
    by (auto simp: Fetch_receive_def same_groups_def group_of_def locked_def fun_eq_iff split: option.splits)
  then show ?thesis using more_leases [OF same_more] opens_may by (simp add: opens_def)
next
  case (timeout req ch m)
  then show ?thesis using effectD(1) [OF leases_Fetch_timeout [OF opens_may] ok] by blast
next
  case (ack tn gn off u)
  have "may c tn gn (Acknowledged (unat off))" "may c tn gn (Committed k)" for k using ack by simp_all
  from effectD(1) [OF leases_Ack [OF opens_may this] ok ack(2)] show ?thesis .
next
  case (nack tn gn off now u)
  have "may c tn gn (Rejected (unat off))" "may c tn gn (HandedOver (unat off))" using nack by simp_all
  from effectD(1) [OF leases_Nack [OF opens_may this] ok nack(2)] show ?thesis .
next
  case (tick now v)
  then show ?thesis using effectD(1) [OF leases_leaseExpiry_tick [OF opens_may may_delivery(2)] ok] by blast
next
  case (flush tn u)
  then show ?thesis using effectD(1) [OF leases_same [OF same_in_wal [OF on_groups_intros(4)] opens_may] ok] by blast
next
  case (outcomes y)
  then show ?thesis using more_leases [OF same_more [OF same_set_outcomes]] opens_may by (simp add: opens_def)
next
  case (close u)
  then show ?thesis using effectD(1) [OF leases_Broker_Close [OF opens_may] ok] by blast
qed

text \<open>The histories of a run: each event comes from one of the calls.\<close>

lemma run_leases:
  assumes "broker_run cs b b'" and "groups_ok b"
  shows "groups_ok b' \<and> b_cfg b' = b_cfg b \<and>
    (\<exists>es. lease_run (MaxRedeliveries (b_cfg b)) es (ledger_of b tn gn) (ledger_of b' tn gn) \<and>
      (\<forall>e \<in> set es. \<exists>c \<in> set cs. may c tn gn e))"
  using assms
proof (induction rule: broker_run.induct)
  case (stay b)
  then show ?case by (auto intro: lease_run.stop exI [of _ "[]"])
next
  case (call c b b1 cs b')
  have l: "leases_by (may c) b b1" by (rule step_leases [OF call(1,4)])
  then have ok: "groups_ok b1" "b_cfg b1 = b_cfg b" using call(4) by (simp_all add: leases_by_def)
  obtain es where es: "lease_run (MaxRedeliveries (b_cfg b)) es (ledger_of b tn gn) (ledger_of b1 tn gn)"
      "list_all (may c tn gn) es" using l call(4) unfolding leases_by_def by blast
  obtain es' where es': "lease_run (MaxRedeliveries (b_cfg b)) es' (ledger_of b1 tn gn) (ledger_of b' tn gn)"
      "\<forall>e \<in> set es'. \<exists>c \<in> set cs. may c tn gn e" and rest: "groups_ok b'" "b_cfg b' = b_cfg b"
    using call.IH [OF ok(1)] ok(2) by auto
  from lease_run_append [OF es(1) es'(1)]
  have "\<exists>es. lease_run (MaxRedeliveries (b_cfg b)) es (ledger_of b tn gn) (ledger_of b' tn gn) \<and>
      (\<forall>e \<in> set es. \<exists>c \<in> set (c # cs). may c tn gn e)"
    using es(2) es'(2) by (intro exI [of _ "es @ es'"]) (auto simp: list_all_iff)
  with rest show ?case by blast
qed

lemma NewBroker_groups:
  assumes "NewBroker cfg dirs d = Some (r, b)"
  shows "groups_ok b \<and> b_cfg b = cfg"
proof -
  have init: "groups_ok (new_broker cfg dirs d)" "b_cfg (new_broker cfg dirs d) = cfg"
    by (simp_all add: groups_ok_def group_of_def new_broker_def world.defs)
  have disk: "effect same_groups P (run m) (\<lambda>a. P)"
    if "\<And>b. b_topics (snd (m b)) = b_topics b \<and> b_cfg (snd (m b)) = b_cfg b" "on_groups P"
    for P and m :: "(Broker, 'x) prog"
  proof (rule effectI)
    fix b r b' assume "P b" "run m b = Some (r, b')"
    moreover then have "same_groups b b'" using that(1) [of b]
      by (simp add: run_def same_groups_def group_of_def locked_def fun_eq_iff)
    ultimately show "same_groups b b' \<and> (\<forall>a. r = Inr a \<longrightarrow> P b')" using that(2) by (auto dest: on_groupsD)
  qed
  have mkdir: "effect same_groups groups_ok (run sys_mkdir_all) (\<lambda>a. groups_ok)"
    and readdir: "effect same_groups groups_ok (run sys_readdir) (\<lambda>a. groups_ok)"
    by (rule disk [OF _ on_groups_intros(4)]; simp add: sys_mkdir_all_def sys_readdir_def syscall_def and_then_def
        next_outcome_def ret_def gets_def fail_def split: list.splits outcome.splits)+
  have "effect more_groups groups_ok (then_loop (run sys_mkdir_all) (\<lambda>_. loadTopics)) (\<lambda>a. groups_ok)"
    unfolding loadTopics_def
    by (rule more.seq [OF more_same [OF mkdir]],
        rule more.seq [OF more_same [OF mkdir]],
        rule more.seq [OF more_same [OF readdir]], rule more_create_topics)
  from effectD(1) [OF this init(1)] assms have "more_groups (new_broker cfg dirs d) b"
    unfolding NewBroker_def by blast
  then show ?thesis using on_moreD [OF on_more_groups_ok init(1)] init(2) by (simp add: more_groups_def)
qed

end
