(* ===== verification/Broker_Ack.thy ===== *)
theory Broker_Ack
  imports Broker_Runs Wal_Recover
begin

text \<open>
  What \<^verbatim>\<open>Ack\<close> does to a group, what \<^verbatim>\<open>persistState\<close> leaves on disk, and what \<^verbatim>\<open>loadGroups\<close> makes
  of it after a restart.
\<close>


section \<open>Persisted group states\<close>

text \<open>What \<^verbatim>\<open>persistState\<close> does to a topic that has the group.\<close>

definition with_script :: "outcome list \<Rightarrow> Topic \<Rightarrow> Topic" where
  "with_script y t = t\<lparr>t_wal := (t_wal t)\<lparr>script := y\<rparr>\<rparr>"

definition put_state :: "string \<Rightarrow> u64 \<Rightarrow> Topic \<Rightarrow> Topic" where
  "put_state gn c t = t\<lparr>t_states := AList.update (gn @ ''.state'') (False, Some c) (t_states t)\<rparr>"

lemma with_script_simps [simp]:
  "with_script y (with_script y' t) = with_script y t" "t_groups (with_script y t) = t_groups t"
  "t_states (with_script y t) = t_states t" "t_mu (with_script y t) = t_mu t" "t_Name (with_script y t) = t_Name t"
  "with_script (script (t_wal t)) t = t" "t_pending (with_script y t) = t_pending t"
  by (simp_all add: with_script_def)

lemma call_run:
  "\<exists>r y. in_wal (syscall (ret ())) t = (r, with_script y t) \<and> (r = Inr () \<or> (\<exists>e. r = Inl (OsError e))) \<and>
     (script (t_wal t) = [] \<longrightarrow> r = Inr () \<and> y = [])"
  by (cases "script (t_wal t)"; cases "hd (script (t_wal t))")
    (auto simp: in_wal_def syscall_def and_then_def next_outcome_def ret_def fail_def with_script_def)

text \<open>A call followed by a program: it goes on, or ends with the error.\<close>

definition stores :: "(Topic, 'a) prog \<Rightarrow> 'a \<Rightarrow> (Topic \<Rightarrow> Topic) \<Rightarrow> Topic \<Rightarrow> bool" where
  "stores m a f t \<longleftrightarrow> (\<forall>x. \<exists>r y. let t' = with_script x t in
     ((m t' = (Inr a, with_script y (f t))) \<or> (\<exists>e. r = Inl (OsError e) \<and> m t' = (r, with_script y t))) \<and>
     (x = [] \<longrightarrow> y = [] \<and> m t' = (Inr a, with_script [] (f t))))"

lemma stores_call: "stores m a f t \<Longrightarrow> stores (and_then (in_wal (syscall (ret ()))) (\<lambda>_. m)) a f t"
  unfolding stores_def Let_def
proof
  fix x assume m: "\<forall>x. \<exists>r y. (m (with_script x t) = (Inr a, with_script y (f t)) \<or>
      (\<exists>e. r = Inl (OsError e) \<and> m (with_script x t) = (r, with_script y t))) \<and>
      (x = [] \<longrightarrow> y = [] \<and> m (with_script x t) = (Inr a, with_script [] (f t)))"
  let ?c = "in_wal (syscall (ret ())) :: (Topic, unit) prog"
  obtain r y where r: "?c (with_script x t) = (r, with_script y t)" "r = Inr () \<or> (\<exists>e. r = Inl (OsError e))"
      "x = [] \<longrightarrow> r = Inr () \<and> y = []"
    using call_run [of "with_script x t"] by (auto simp: with_script_def)
  show "\<exists>r y. (and_then ?c (\<lambda>_. m) (with_script x t) = (Inr a, with_script y (f t)) \<or>
      (\<exists>e. r = Inl (OsError e) \<and> and_then ?c (\<lambda>_. m) (with_script x t) = (r, with_script y t))) \<and>
      (x = [] \<longrightarrow> y = [] \<and> and_then ?c (\<lambda>_. m) (with_script x t) = (Inr a, with_script [] (f t)))"
  proof (cases r)
    case (Inl e)
    then show ?thesis using r by (auto simp: and_then_def)
  next
    case (Inr u)
    then have "and_then ?c (\<lambda>_. m) (with_script x t) = m (with_script y t)" using r by (simp add: and_then_def)
    then show ?thesis using m [rule_format, of y] r by fastforce
  qed
qed

lemma in_group_gets:
  "map_of (t_groups t) gn = Some g \<Longrightarrow> in_group gn (gets f) t = (Inr (f g), t)"
  by (simp add: in_group_def gets_def update_same)

lemma stores_persistState:
  assumes "map_of (t_groups t) gn = Some g"
  shows "stores (persistState gn) () (put_state gn (g_CommittedOffset g)) t"
proof -
  have last: "stores (modify (\<lambda>t. t\<lparr>t_states := AList.update (gn @ ''.state'') (False, Some c) (t_states t)\<rparr>)) ()
      (put_state gn c) t" for c
    unfolding stores_def Let_def
  proof
    fix x show "\<exists>r y. (modify (\<lambda>t. t\<lparr>t_states := AList.update (gn @ ''.state'') (False, Some c) (t_states t)\<rparr>) (with_script x t) =
        (Inr (), with_script y (put_state gn c t)) \<or> (\<exists>e. r = Inl (OsError e) \<and>
        modify (\<lambda>t. t\<lparr>t_states := AList.update (gn @ ''.state'') (False, Some c) (t_states t)\<rparr>) (with_script x t) = (r, with_script y t))) \<and>
        (x = [] \<longrightarrow> y = [] \<and> modify (\<lambda>t. t\<lparr>t_states := AList.update (gn @ ''.state'') (False, Some c) (t_states t)\<rparr>) (with_script x t) =
        (Inr (), with_script [] (put_state gn c t)))"
      by (intro exI [of _ "Inl Panic"] exI [of _ x]) (simp add: modify_def put_state_def with_script_def)
  qed
  have g: "stores (and_then (in_group gn (gets g_CommittedOffset)) m) () f t"
    if "stores (m (g_CommittedOffset g)) () f t" for m f
  proof -
    have "and_then (in_group gn (gets g_CommittedOffset)) m (with_script x t) = m (g_CommittedOffset g) (with_script x t)" for x
      using assms by (simp add: and_then_def in_group_gets)
    with that show ?thesis by (simp add: stores_def)
  qed
  show ?thesis
    unfolding persistState_def sys_mkdir_all_def by (intro stores_call g last)
qed

lemma persistState_run:
  assumes "map_of (t_groups t) gn = Some g"
  obtains r y where "persistState gn t = (r, with_script y (if r = Inr () then put_state gn (g_CommittedOffset g) t else t))"
    and "r = Inr () \<or> (\<exists>e. r = Inl (OsError e))" and "script (t_wal t) = [] \<Longrightarrow> r = Inr () \<and> y = []"
  using stores_persistState [OF assms, unfolded stores_def, rule_format, of "script (t_wal t)"]
  by (auto simp: Let_def)

lemma slideWindow_run:
  assumes g: "map_of (t_groups t) gn = Some g" and s: "slide g False = (g', adv)"
  obtains t' where "slideWindow gn t = (Inr (), t')" and "t_groups t' = AList.update gn g' (t_groups t)"
    and "t_mu t' = t_mu t"
    and "script (t_wal t) = [] \<longrightarrow> script (t_wal t') = [] \<and> t_states t' =
      (if adv then AList.update (gn @ ''.state'') (False, Some (g_CommittedOffset g')) (t_states t) else t_states t)"
proof -
  let ?t = "t\<lparr>t_groups := AList.update gn g' (t_groups t)\<rparr>"
  have slid: "in_group gn (\<lambda>g. case slide g False of (g', advanced) \<Rightarrow> (Inr advanced, g')) t = (Inr adv, ?t)"
    using g s by (simp add: in_group_def)
  show ?thesis
  proof (cases adv)
    case False
    then have "slideWindow gn t = (Inr (), ?t)"
      using slid by (simp add: slideWindow_def and_then_def ret_def)
    then show ?thesis using False by (intro that [of ?t]) simp_all
  next
    case True
    have g': "map_of (t_groups ?t) gn = Some g'" by (simp add: AList.update_conv')
    obtain r y where p: "persistState gn ?t = (r, with_script y (if r = Inr () then put_state gn (g_CommittedOffset g') ?t else ?t))"
        "script (t_wal ?t) = [] \<Longrightarrow> r = Inr () \<and> y = []"
      using persistState_run [OF g'] by metis
    let ?t' = "with_script y (if r = Inr () then put_state gn (g_CommittedOffset g') ?t else ?t)"
    have run: "slideWindow gn t = (Inr (), ?t')"
      using slid True p(1) by (simp add: slideWindow_def and_then_def attempt_def ret_def)
    show ?thesis
    proof (rule that [OF run])
      show "t_groups ?t' = AList.update gn g' (t_groups t)" "t_mu ?t' = t_mu t" by (simp_all add: put_state_def)
      show "script (t_wal t) = [] \<longrightarrow> script (t_wal ?t') = [] \<and> t_states ?t' =
          (if adv then AList.update (gn @ ''.state'') (False, Some (g_CommittedOffset g')) (t_states t) else t_states t)"
        using p(2) True by (simp add: put_state_def) (simp add: with_script_def)
    qed
  qed
qed

section \<open>Acknowledging\<close>

lemma in_topic_there: "map_of (b_topics b) tn = Some t \<Longrightarrow> m t = Some (r, t') \<Longrightarrow>
    in_topic tn m b = Some (r, b\<lparr>b_topics := AList.update tn t' (b_topics b)\<rparr>)"
  by (simp add: in_topic_def)

lemma in_topic_same: "map_of (b_topics b) tn = Some t \<Longrightarrow> m t = Some (r, t) \<Longrightarrow> in_topic tn m b = Some (r, b)"
  by (simp add: in_topic_def update_same)

lemma getOrCreateGroup_there:
  assumes "map_of (b_topics b) tn = Some t" and "map_of (t_groups t) gn = Some g" and "\<not> t_mu t"
  shows "in_topic tn (getOrCreateGroup gn) b = Some (Inr (), b)"
proof (rule in_topic_same [OF assms(1)])
  have "t\<lparr>t_mu := False\<rparr> = t" using assms(3) by (cases t) simp
  then show "getOrCreateGroup gn t = Some (Inr (), t)"
    using assms(2,3) by (simp add: getOrCreateGroup_def then_loop_def lock_topic_def unlock_topic_def run_def prog_simps)
qed

definition Ack_group :: "string \<Rightarrow> u64 \<Rightarrow> (Topic, unit) prog" where
  "Ack_group gn off =
     and_then (in_group gn (gets g_CommittedOffset)) (\<lambda>committed.
     if off < committed then ret () else
     and_then (in_group gn (gets (\<lambda>g. map_of (g_Leases g) off))) (\<lambda>lease.
     case lease of None \<Rightarrow> fail ErrLeaseNotFound | Some l \<Rightarrow>
     and_then (in_group gn (modify (put_lease off (l\<lparr>l_Acked := True\<rparr>)))) (\<lambda>_. slideWindow gn)))"

lemma Ack_there:
  assumes "map_of (b_topics b) tn = Some t" and "map_of (t_groups t) gn = Some g" and "\<not> t_mu t"
  shows "Ack tn gn off b = in_topic tn (run (Ack_group gn off)) b"
  using getOrCreateGroup_there [OF assms] assms(1)
  by (simp add: Ack_def Ack_group_def then_loop_def run_def gets_def)

lemma Ack_group_early:
  assumes "map_of (t_groups t) gn = Some g"
  shows "off < g_CommittedOffset g \<Longrightarrow> Ack_group gn off t = (Inr (), t)"
    and "\<not> off < g_CommittedOffset g \<Longrightarrow> map_of (g_Leases g) off = None \<Longrightarrow> Ack_group gn off t = (Inl ErrLeaseNotFound, t)"
    and "\<not> off < g_CommittedOffset g \<Longrightarrow> map_of (g_Leases g) off = Some l \<Longrightarrow>
      Ack_group gn off t = slideWindow gn (t\<lparr>t_groups := AList.update gn (put_lease off (l\<lparr>l_Acked := True\<rparr>) g) (t_groups t)\<rparr>)"
  using assms
  by (simp_all add: Ack_group_def and_then_def in_group_gets ret_def fail_def)
    (simp add: in_group_def modify_def)

lemma Ack_run:
  assumes t: "map_of (b_topics b) tn = Some t" "\<not> t_mu t" and g: "map_of (t_groups t) gn = Some g" "group_ok g"
    and off: "\<not> unat off < committed g" and l: "map_of (g_Leases g) off = Some l"
  shows "\<exists>b' t' g'. Ack tn gn off b = Some (Inr (), b') \<and> map_of (b_topics b') tn = Some t' \<and> map_of (t_groups t') gn = Some g' \<and>
    group_ok g' \<and>
    (let ls = (leases_list g)[unat off - committed g := l\<lparr>l_Acked := True\<rparr>] in
       committed g' = committed g + length (takeWhile l_Acked ls) \<and> leases_list g' = dropWhile l_Acked ls \<and>
       (script (t_wal t) = [] \<longrightarrow> script (t_wal t') = [] \<and> t_states t' =
         (if l_Acked (hd ls) then AList.update (gn @ ''.state'') (False, Some (g_CommittedOffset g')) (t_states t) else t_states t)))"
proof -
  let ?l = "l\<lparr>l_Acked := True\<rparr>" and ?g = "put_lease off (l\<lparr>l_Acked := True\<rparr>) g"
  let ?t = "t\<lparr>t_groups := AList.update gn ?g (t_groups t)\<rparr>"
  define ls where "ls = (leases_list g)[unat off - committed g := ?l]"
  have "\<not> off < g_CommittedOffset g" using off by (simp add: committed_def word_less_nat_alt)
  then have run: "Ack_group gn off t = slideWindow gn ?t" using Ack_group_early(3) [OF g(1)] l by simp
  obtain i where i: "i < length (leases_list g)" "unat off = committed g + i"
      "group_ok ?g" "ledger ?g = (committed g, (leases_list g)[i := ?l])"
    using ledger_put [OF g(2) l] by metis
  then have ledger: "committed ?g = committed g" "leases_list ?g = ls" by (simp_all add: ledger_def ls_def)
  have ne: "ls \<noteq> []" unfolding ls_def using i(1) by (metis less_nat_zero_code list.size(3) list_update_nonempty)
  obtain g' adv where s: "slide ?g False = (g', adv)" by (cases "slide ?g False") auto
  note r = slide_refines [OF i(3) s, unfolded ledger]
  have adv: "adv \<longleftrightarrow> l_Acked (hd ls)" using r ne by (cases ls) auto
  have gt: "map_of (t_groups ?t) gn = Some ?g" by (simp add: AList.update_conv')
  obtain t' where t': "slideWindow gn ?t = (Inr (), t')" and groups: "t_groups t' = AList.update gn g' (t_groups ?t)"
    and mu: "t_mu t' = t_mu ?t"
    and states: "script (t_wal ?t) = [] \<longrightarrow> script (t_wal t') = [] \<and> t_states t' =
      (if adv then AList.update (gn @ ''.state'') (False, Some (g_CommittedOffset g')) (t_states ?t) else t_states ?t)"
    by (rule slideWindow_run [OF gt s])
  have "Ack tn gn off b = Some (Inr (), b\<lparr>b_topics := AList.update tn t' (b_topics b)\<rparr>)"
    unfolding Ack_there [OF t(1) g(1) t(2)] by (rule in_topic_there [OF t(1)]) (simp add: run_def run t')
  then show ?thesis
    using groups states r adv unfolding ls_def [symmetric] Let_def
    by (intro exI [of _ "b\<lparr>b_topics := AList.update tn t' (b_topics b)\<rparr>"] exI [of _ t'] exI [of _ g'])
      (simp add: AList.update_conv')
qed

section \<open>Restart\<close>

lemma Ext_state: "Ext (gn @ ''.state'') = ''.state''"
  by (simp add: Ext_def)

lemma Ext_state_split:
  assumes "Ext name = ''.state''"
  obtains gn where "name = gn @ ''.state''"
proof -
  have dot: "CHR ''.'' \<in> set name" using assms by (auto simp: Ext_def split: if_splits)
  let ?p = "\<lambda>c. c \<noteq> CHR ''.''"
  have t: "rev (takeWhile ?p (rev name)) = ''state''" using assms dot by (simp add: Ext_def)
  have "dropWhile ?p (rev name) \<noteq> []" using dot by (auto simp: dropWhile_eq_Nil_conv)
  then obtain d where d: "dropWhile ?p (rev name) = CHR ''.'' # d"
    using hd_dropWhile [of ?p "rev name"] by (cases "dropWhile ?p (rev name)") auto
  have "rev name = takeWhile ?p (rev name) @ dropWhile ?p (rev name)" by simp
  then have "name = rev (dropWhile ?p (rev name)) @ rev (takeWhile ?p (rev name))" by (metis rev_append rev_rev_ident)
  then have "name = rev d @ ''.state''" unfolding d t by simp
  then show ?thesis by (rule that)
qed

lemma TrimSuffix_append: "TrimSuffix (s @ suf) suf = s"
  by (simp add: TrimSuffix_def HasSuffix_def)

lemma load_states_run:
  "script (t_wal t) = [] \<Longrightarrow> distinct (map fst entries) \<Longrightarrow>
    \<exists>t'. load_states entries t = (Inr (), t') \<and> script (t_wal t') = [] \<and> t_Name t' = t_Name t \<and>
      (\<forall>gn. map_of (t_groups t') gn = (case map_of entries (gn @ ''.state'') of
         Some (False, Some c) \<Rightarrow> Some (new_group gn (t_Name t) c) | _ \<Rightarrow> map_of (t_groups t) gn))"
proof (induction entries arbitrary: t)
  case Nil
  then show ?case by (simp add: ret_def)
next
  case (Cons entry entries)
  obtain name isDir decoded where e: "entry = (name, isDir, decoded)" by (cases entry) auto
  have c: "attempt (in_wal (syscall (ret ()))) t = (Inr (Inr ()), t)"
    using call_run [of t] Cons.prems(1) by (metis attempt_def prod.case with_script_simps(6))
  define t1 where "t1 = (if \<not> isDir \<and> Ext name = ''.state'' \<and> decoded \<noteq> None
    then t\<lparr>t_groups := AList.update (TrimSuffix name ''.state'') (new_group (TrimSuffix name ''.state'') (t_Name t) (the decoded)) (t_groups t)\<rparr>
    else t)"
  have step: "load_states (entry # entries) t = load_states entries t1"
    by (auto simp: e t1_def and_then_def c ret_def modify_def Let_def split: option.splits)
  have t1: "script (t_wal t1) = []" "t_Name t1 = t_Name t" using Cons.prems(1) by (simp_all add: t1_def)
  obtain t' where IH: "load_states entries t1 = (Inr (), t')" "script (t_wal t') = []" "t_Name t' = t_Name t"
      "\<And>gn. map_of (t_groups t') gn = (case map_of entries (gn @ ''.state'') of
         Some (False, Some c) \<Rightarrow> Some (new_group gn (t_Name t) c) | _ \<Rightarrow> map_of (t_groups t1) gn)"
    using Cons.IH [OF t1(1), unfolded t1(2)] Cons.prems(2) by auto
  have "map_of (t_groups t') gn = (case map_of (entry # entries) (gn @ ''.state'') of
         Some (False, Some c) \<Rightarrow> Some (new_group gn (t_Name t) c) | _ \<Rightarrow> map_of (t_groups t) gn)" for gn
  proof (cases "name = gn @ ''.state''")
    case True
    then have "map_of entries (gn @ ''.state'') = None"
      using Cons.prems(2) by (auto simp: e map_of_eq_None_iff)
    then show ?thesis using True IH(4) [of gn]
      by (auto simp: e t1_def Ext_state TrimSuffix_append AList.update_conv' split: option.splits bool.splits)
  next
    case False
    have "map_of (t_groups t1) gn = map_of (t_groups t) gn"
    proof (cases "Ext name = ''.state''")
      case True
      then obtain g where "name = g @ ''.state''" by (rule Ext_state_split)
      then show ?thesis using False by (auto simp: t1_def TrimSuffix_append AList.update_conv')
    qed (simp add: t1_def)
    moreover have "map_of (entry # entries) (gn @ ''.state'') = map_of entries (gn @ ''.state'')" using False by (simp add: e)
    ultimately show ?thesis by (simp only: IH(4) [of gn])
  qed
  then show ?case using step IH(1-3) by auto
qed

lemma loadGroups_run:
  assumes "script (t_wal t) = []" and "distinct (map fst (t_states t))"
  shows "\<exists>t'. loadGroups t = (Inr (), t') \<and>
    (\<forall>gn. map_of (t_groups t') gn = (case map_of (t_states t) (gn @ ''.state'') of
         Some (False, Some c) \<Rightarrow> Some (new_group gn (t_Name t) c) | _ \<Rightarrow> map_of (t_groups t) gn))"
proof -
  have c: "in_wal (syscall (ret ())) t = (Inr (), t)"
    using call_run [of t] assms(1) by (metis with_script_simps(6))
  then have "loadGroups t = load_states (t_states t) t"
    by (simp add: loadGroups_def sys_mkdir_all_def and_then_def gets_def)
  then show ?thesis using load_states_run [OF assms] by auto
qed

section \<open>A broker with a lease\<close>

definition leased_group :: ConsumerGroup where
  "leased_group = (new_group ''g'' ''t'' 0)\<lparr>g_Leases := [(0, new_lease 0 ''c1'' 50)]\<rparr>"

definition leased_topic :: Topic where
  "leased_topic = sample_topic\<lparr>t_groups := [(''g'', leased_group)]\<rparr>"

definition leased_broker :: Broker where
  "leased_broker = sample_broker\<lparr>b_topics := [(''t'', leased_topic)]\<rparr>"

lemma leased_simps [simp]:
  "map_of (b_topics leased_broker) ''t'' = Some leased_topic" "map_of (t_groups leased_topic) ''g'' = Some leased_group"
  "t_mu leased_topic = False" "t_wal leased_topic = sample_log" "t_states leased_topic = []"
  "b_cfg leased_broker = DefaultConfig" "committed leased_group = 0" "window_end leased_group = 1"
  "g_Leases leased_group = [(0, new_lease 0 ''c1'' 50)]" "leases_list leased_group = [new_lease 0 ''c1'' 50]"
  by (simp_all add: leased_broker_def leased_topic_def leased_group_def sample_topic_def committed_def window_end_def
      new_group_def leases_list_def)

lemma leased_group_ok [simp]: "group_ok leased_group"
  by (simp add: group_ok_def)

lemma leased_group_of: "group_of leased_broker tn gn = (if tn = ''t'' \<and> gn = ''g'' then Some leased_group else None)"
  by (simp add: group_of_def leased_broker_def leased_topic_def)

lemma leased_groups_ok [simp]: "groups_ok leased_broker"
  by (simp add: groups_ok_def leased_group_of split: if_splits)

lemma leased_Ack: "\<exists>b'. Ack ''t'' ''g'' 0 leased_broker = Some (Inr (), b')"
  using Ack_run [of leased_broker "''t''" leased_topic "''g''" leased_group 0 "new_lease 0 ''c1'' 50"] by auto

lemma new_topic_simps: "t_Name (new_topic tn w st) = tn" "t_wal (new_topic tn w st) = w" "t_groups (new_topic tn w st) = []"
  "t_states (new_topic tn w st) = st"
  by (simp_all add: new_topic_def)




section \<open>Properties\<close>

text \<open>
  C10: \<^verbatim>\<open>Ack\<close>: an offset below the committed one is acknowledged already and nothing
  changes; one without a lease is refused with \<open>ErrLeaseNotFound\<close>; otherwise its lease is
  marked and the committed offset moves past exactly the acknowledged leases at the front of
  the window, the others staying in it.
\<close>

theorem Ack_contract:
  assumes "map_of (b_topics b) tn = Some t" and "\<not> t_mu t" and "map_of (t_groups t) gn = Some g" and "group_ok g"
  shows "\<exists>r b' g'. Ack tn gn off b = Some (r, b') \<and> group_of b' tn gn = Some g' \<and> group_ok g' \<and>
    (if unat off < committed g then r = Inr () \<and> b' = b
     else if map_of (g_Leases g) off = None then r = Inl ErrLeaseNotFound \<and> b' = b
     else r = Inr () \<and>
       (let i = unat off - committed g; ls = (leases_list g)[i := (leases_list g ! i)\<lparr>l_Acked := True\<rparr>]
        in committed g' = committed g + length (takeWhile l_Acked ls) \<and> leases_list g' = dropWhile l_Acked ls))"
proof -
  have gof: "group_of b tn gn = Some g" using assms(1,3) by (simp add: group_of_def)
  have early: "in_topic tn (run (Ack_group gn off)) b = Some (r, b)" if "Ack_group gn off t = (r, t)" for r
    using that by (intro in_topic_same [OF assms(1)]) (simp add: run_def)
  note A = Ack_there [OF assms(1,3,2)] and E = Ack_group_early [OF assms(3), of off]
  have less: "off < g_CommittedOffset g \<longleftrightarrow> unat off < committed g" by (simp add: committed_def word_less_nat_alt)
  show ?thesis
  proof (cases "unat off < committed g")
    case True
    then show ?thesis using A early [OF E(1)] less gof assms(4) by auto
  next
    case below: False
    show ?thesis
    proof (cases "map_of (g_Leases g) off")
      case None
      then show ?thesis using A early [OF E(2)] less below gof assms(4) by auto
    next
      case (Some l)
      then have l: "leases_list g ! (unat off - committed g) = l"
        using group_ok_lookup_word [OF assms(4), of off] by (auto split: if_splits)
      obtain b' t' g' where "Ack tn gn off b = Some (Inr (), b')" "map_of (b_topics b') tn = Some t'"
        "map_of (t_groups t') gn = Some g'" "group_ok g'"
        "let ls = (leases_list g)[unat off - committed g := l\<lparr>l_Acked := True\<rparr>] in
         committed g' = committed g + length (takeWhile l_Acked ls) \<and> leases_list g' = dropWhile l_Acked ls"
        using Ack_run [OF assms(1,2,3,4) below Some] unfolding Let_def by blast
      then show ?thesis using below Some l by (intro exI [of _ "Inr ()"] exI [of _ b'] exI [of _ g']) (simp add: group_of_def Let_def)
    qed
  qed
qed

theorem Ack_contract_witness:
  "\<exists>r b' g'. Ack ''t'' ''g'' 0 leased_broker = Some (r, b') \<and> group_of b' ''t'' ''g'' = Some g' \<and>
    r = Inr () \<and> committed g' = 1 \<and> leases_list g' = []"
  using Ack_contract [of leased_broker "''t''" leased_topic "''g''" leased_group 0] by (simp add: Let_def) blast



text \<open>
  C7: every call on the broker, with any outcome of its system calls, is a run of the machine
  of leases for every consumer group, and only events the call stands for occur: an \<^verbatim>\<open>Ack\<close>
  acknowledges its offset and commits, a \<^verbatim>\<open>Nack\<close> rejects its offset, a \<^verbatim>\<open>Fetch\<close> delivers to its
  group, and every other call leaves the leases of every group alone.
\<close>

theorem calls_run_the_lease_machine:
  assumes "broker_step c b b'" and "groups_ok b"
  shows "groups_ok b' \<and>
    (\<exists>es. lease_run (MaxRedeliveries (b_cfg b)) es (ledger_of b tn gn) (ledger_of b' tn gn) \<and> list_all (may c tn gn) es)"
  using step_leases [OF assms] assms(2) unfolding leases_by_def by blast

theorem calls_run_the_lease_machine_witness:
  "\<exists>b'. broker_step (C_Ack ''t'' ''g'' 0) leased_broker b' \<and> groups_ok b' \<and>
    (\<exists>es. lease_run 5 es (Some (0, [new_lease 0 ''c1'' 50])) (ledger_of b' ''t'' ''g'') \<and>
      list_all (may (C_Ack ''t'' ''g'' 0) ''t'' ''g'') es)"
proof -
  obtain b' where s: "broker_step (C_Ack ''t'' ''g'' 0) leased_broker b'"
    using leased_Ack broker_step.ack by blast
  have l: "ledger_of leased_broker ''t'' ''g'' = Some (0, [new_lease 0 ''c1'' 50])"
    by (simp add: ledger_of_def leased_group_of ledger_def)
  have m: "MaxRedeliveries (b_cfg leased_broker) = 5" by (simp add: DefaultConfig_def)
  from calls_run_the_lease_machine [OF s leased_groups_ok, of "''t''" "''g''", unfolded l m] s show ?thesis by blast
qed



text \<open>
  C15: new messages are leased in the order of the log: the leases granted in a run are those
  of the offsets from the end of the window on, each once and without a gap.
\<close>

theorem leases_granted_in_order:
  assumes "broker_run cs b b'" and "groups_ok b" and "group_of b tn gn = Some g"
  shows "\<exists>g' es. group_of b' tn gn = Some g' \<and>
    lease_run (MaxRedeliveries (b_cfg b)) es (Some (ledger g)) (Some (ledger g')) \<and>
    filter (\<lambda>e. \<exists>k. e = Granted k) es = map Granted [window_end g ..< window_end g']"
proof -
  obtain es where es: "lease_run (MaxRedeliveries (b_cfg b)) es (Some (ledger g)) (ledger_of b' tn gn)"
    using run_leases [OF assms(1,2), of tn gn] assms(3) by (auto simp: ledger_of_def)
  obtain g' where g': "group_of b' tn gn = Some g'"
    using committed_run [OF es refl] by (auto simp: ledger_of_def)
  have es': "lease_run (MaxRedeliveries (b_cfg b)) es (Some (ledger g)) (Some (ledger g'))"
    using es g' by (simp add: ledger_of_def)
  with granted_run [OF es' refl] g' show ?thesis by (auto simp: ledger_def window_end_def)
qed

theorem leases_granted_in_order_witness:
  "\<exists>b' g' es. broker_run [C_Ack ''t'' ''g'' 0] leased_broker b' \<and> group_of b' ''t'' ''g'' = Some g' \<and>
    filter (\<lambda>e. \<exists>k. e = Granted k) es = map Granted [1 ..< window_end g']"
proof -
  obtain b' where s: "broker_step (C_Ack ''t'' ''g'' 0) leased_broker b'"
    using leased_Ack broker_step.ack by blast
  then have r: "broker_run [C_Ack ''t'' ''g'' 0] leased_broker b'" by (rule broker_run.call [OF _ broker_run.stay])
  have g: "group_of leased_broker ''t'' ''g'' = Some leased_group" by (simp add: leased_group_of)
  have w: "window_end leased_group = 1" by simp
  from leases_granted_in_order [OF r leased_groups_ok g, unfolded w] r show ?thesis by blast
qed



text \<open>
  C16: in every run of a broker from its start the leases of a group are those of the
  consecutive offsets from its committed offset on, one each.
\<close>

theorem windows_stay_consecutive:
  assumes "NewBroker cfg dirs d = Some (r, b)" and "broker_run cs b b'" and "group_of b' tn gn = Some g"
  shows "distinct (map fst (g_Leases g)) \<and>
    set (map fst (g_Leases g)) = of_nat ` {committed g ..< committed g + length (g_Leases g)} \<and>
    committed g + length (g_Leases g) < 2 ^ 64"
proof -
  have "groups_ok b" using NewBroker_groups [OF assms(1)] by simp
  from run_leases [OF assms(2) this] assms(3) have "group_ok g" by (simp add: groups_ok_def)
  then show ?thesis by (auto simp: group_ok_def window_end_def)
qed

definition stored_topic :: topic_dir where
  "stored_topic = \<lparr>td_wal = sample_dir, td_states = [(''g.state'', False, Some 0)]\<rparr>"

lemma stored_broker_opens:
  "\<exists>b. NewBroker DefaultConfig [(''t'', stored_topic)] \<lparr>files = [(''t'', DirE)], durable = [], script = []\<rparr> = Some (Inr (), b) \<and>
     group_of b ''t'' ''g'' = Some (new_group ''g'' ''t'' 0)"
proof -
  have "entries_ok 0 (concat [[sample_entry]])" by (simp add: entries_ok_def entry_fits_def sample_entry_def)
  moreover have "script sample_dir = []" by (simp add: sample_dir_def)
  ultimately obtain w where w: "NewWAL True (200 * Millisecond) (64 * 1024 * 1024) sample_dir = Some (Inr (), w)" "script w = []"
    using NewWAL_run [OF sample_dir_log, of "64 * 1024 * 1024" True "200 * Millisecond"] by auto
  obtain t where t: "loadGroups (new_topic ''t'' w [(''g.state'', False, Some 0)]) = (Inr (), t)"
    "map_of (t_groups t) ''g'' = Some (new_group ''g'' ''t'' 0)"
    using loadGroups_run [of "new_topic ''t'' w [(''g.state'', False, Some 0)]", unfolded new_topic_simps, OF w(2)] by auto
  let ?b = "new_broker DefaultConfig [(''t'', stored_topic)] \<lparr>files = [(''t'', DirE)], durable = [], script = []\<rparr>"
  let ?b' = "?b\<lparr>files := AList.update ''t'' DirE (files ?b), b_topics := AList.update ''t'' t (b_topics ?b)\<rparr>"
  have b: "b_topics ?b = []" "b_cfg ?b = DefaultConfig" "b_dirs ?b = [(''t'', stored_topic)]" "files ?b = [(''t'', DirE)]" "script ?b = []"
    by (simp_all add: new_broker_def world.defs)
  have c: "SyncEveryWrite DefaultConfig" "SyncInterval DefaultConfig = 200 * Millisecond"
      "MaxSegmentBytes DefaultConfig = 64 * 1024 * 1024" "td_wal stored_topic = sample_dir"
      "td_states stored_topic = [(''g.state'', False, Some 0)]"
    by (simp_all add: DefaultConfig_def stored_topic_def)
  have create: "CreateTopic ''t'' ?b = Some (Inr (), ?b')"
    using w(1) t(1) by (simp add: CreateTopic_def b dir_of_def c)
  have "NewBroker DefaultConfig [(''t'', stored_topic)] \<lparr>files = [(''t'', DirE)], durable = [], script = []\<rparr> = Some (Inr (), ?b')"
    by (simp add: NewBroker_def loadTopics_def then_loop_def run_def sys_mkdir_all_def sys_readdir_def syscall_Nil b
        ret_def gets_def create)
  moreover have "group_of ?b' ''t'' ''g'' = Some (new_group ''g'' ''t'' 0)"
    using t(2) by (simp add: group_of_def AList.update_conv')
  ultimately show ?thesis by blast
qed

theorem windows_stay_consecutive_witness:
  "\<exists>b b' g. NewBroker DefaultConfig [(''t'', stored_topic)] \<lparr>files = [(''t'', DirE)], durable = [], script = []\<rparr> = Some (Inr (), b) \<and>
     broker_run [C_Outcomes] b b' \<and> group_of b' ''t'' ''g'' = Some g \<and> distinct (map fst (g_Leases g))"
proof -
  obtain b where b: "NewBroker DefaultConfig [(''t'', stored_topic)] \<lparr>files = [(''t'', DirE)], durable = [], script = []\<rparr> = Some (Inr (), b)"
      "group_of b ''t'' ''g'' = Some (new_group ''g'' ''t'' 0)"
    using stored_broker_opens by blast
  let ?b' = "set_outcomes (\<lambda>_. [Fault 0 ''input/output error'']) b"
  have r: "broker_run [C_Outcomes] b ?b'" by (rule broker_run.call [OF broker_step.outcomes broker_run.stay])
  have g: "group_of ?b' ''t'' ''g'' = Some (new_group ''g'' ''t'' 0)"
    using same_set_outcomes b(2) by (simp add: same_groups_def)
  from windows_stay_consecutive [OF b(1) r g] b(1) r g show ?thesis by blast
qed

end
