(* ===== verification/Broker_Produce.thy ===== *)
theory Broker_Produce
  imports Broker_Ack
begin

text \<open>
  \<^verbatim>\<open>Produce\<close> and \<^verbatim>\<open>Fetch\<close> of \<^verbatim>\<open>pkg/broker/coordinator.go\<close> from the call to the return: what they
  leave in the log and the groups, and what a waiting fetch does to the producers.
\<close>

section \<open>Produce\<close>

lemma update_topic_again [simp]:
  "b\<lparr>b_topics := AList.update tn t' (AList.update tn t (b_topics b))\<rparr> = b\<lparr>b_topics := AList.update tn t' (b_topics b)\<rparr>"
  by (simp add: update_update)

definition nobody_waits :: "Topic \<Rightarrow> bool" where
  "nobody_waits t \<longleftrightarrow> (\<forall>gn. pending_of t gn = [])"

lemma dispatch_groups_idle:
  assumes "map_of (b_topics b) tn = Some t" and "nobody_waits t"
  shows "dispatch_groups tn msg now gns b = Some (Inr (), b)"
proof (induction gns)
  case (Cons gn gns)
  have "in_topic tn (run (gets (\<lambda>t. pending_of t gn))) b = Some (Inr [], b)"
    using assms(2) by (intro in_topic_same [OF assms(1)]) (simp add: run_def gets_def nobody_waits_def)
  with Cons show ?case by (simp add: then_loop_def)
qed (simp add: run_def ret_def)

lemma dispatch_idle:
  assumes t: "map_of (b_topics b) tn = Some t" and "nobody_waits t" and "\<not> t_mu t"
  shows "dispatchMessage tn msg now b = Some (Inr (), b)"
proof -
  let ?t = "t\<lparr>t_mu := True\<rparr>"
  let ?b = "b\<lparr>b_topics := AList.update tn ?t (b_topics b)\<rparr>"
  have l: "in_topic tn lock_topic b = Some (Inr (), ?b)"
    using assms(3) by (intro in_topic_there [OF t]) (simp add: lock_topic_def)
  have t1: "map_of (b_topics ?b) tn = Some ?t" by (simp add: AList.update_conv')
  have idle: "nobody_waits ?t" using assms(2) by (simp add: nobody_waits_def pending_of_def)
  have g: "in_topic tn (run (gets (\<lambda>t. map fst (t_pending t)))) ?b = Some (Inr (map fst (t_pending t)), ?b)"
    by (rule in_topic_same [OF t1]) (simp add: run_def gets_def)
  have "t\<lparr>t_mu := False\<rparr> = t" using assms(3) by (cases t) simp
  then have u: "in_topic tn unlock_topic ?b = Some (Inr (), b)"
    using in_topic_there [OF t1, of unlock_topic "Inr ()" t] t by (simp add: unlock_topic_def update_same)
  show ?thesis
    unfolding dispatchMessage_def
    by (simp only: then_loop_def l g dispatch_groups_idle [OF t1 idle] u option.case prod.case sum.case)
qed

text \<open>With a waiting fetch the lock that is held is taken again.\<close>

lemma dispatch_groups_stuck:
  assumes "map_of (b_topics b) tn = Some t" and "t_mu t" and "\<exists>gn \<in> set gns. pending_of t gn \<noteq> []"
  shows "dispatch_groups tn msg now gns b = None"
  using assms(3)
proof (induction gns)
  case (Cons gn gns)
  have g: "in_topic tn (run (gets (\<lambda>t. pending_of t gn))) b = Some (Inr (pending_of t gn), b)"
    by (intro in_topic_same [OF assms(1)]) (simp add: run_def gets_def)
  have "in_topic tn (getOrCreateGroup gn) b = None" using assms(1,2) by (intro relock) (simp add: locked_def)
  then show ?case using Cons by (auto simp: g then_loop_def)
qed simp

lemma dispatch_stuck:
  assumes t: "map_of (b_topics b) tn = Some t" and "pending_of t gn \<noteq> []"
  shows "dispatchMessage tn msg now b = None"
proof (cases "t_mu t")
  case True
  then show ?thesis using t by (simp add: dispatchMessage_def then_loop_def in_topic_def lock_topic_def)
next
  case False
  let ?t = "t\<lparr>t_mu := True\<rparr>"
  let ?b = "b\<lparr>b_topics := AList.update tn ?t (b_topics b)\<rparr>"
  have l: "in_topic tn lock_topic b = Some (Inr (), ?b)"
    using False by (intro in_topic_there [OF t]) (simp add: lock_topic_def)
  have t1: "map_of (b_topics ?b) tn = Some ?t" by (simp add: AList.update_conv')
  have g: "in_topic tn (run (gets (\<lambda>t. map fst (t_pending t)))) ?b = Some (Inr (map fst (t_pending t)), ?b)"
    by (rule in_topic_same [OF t1]) (simp add: run_def gets_def)
  have "gn \<in> set (map fst (t_pending t))"
    using assms(2) by (auto simp: pending_of_def split: option.splits dest: map_of_SomeD) (metis fst_conv image_eqI map_of_SomeD)
  then have "dispatch_groups tn msg now (map fst (t_pending t)) ?b = None"
    using assms(2) by (intro dispatch_groups_stuck [OF t1]) (auto simp: pending_of_def)
  then show ?thesis
    unfolding dispatchMessage_def by (simp only: then_loop_def l g option.case prod.case sum.case)
qed

text \<open>The three steps before the dispatch, and the dispatch as an unknown.\<close>

lemma Produce_there:
  assumes t: "map_of (b_topics b) tn = Some t" and ok: "log_ok b0 es (t_wal t)"
    and room: "room_for b0 es (next_entry b0 es (of_int now) key val)"
  obtains (failed) e w where "Produce tn key val now b = Some (Inl e, b\<lparr>b_topics := AList.update tn (t\<lparr>t_wal := w\<rparr>) (b_topics b)\<rparr>)"
      and "log_ok b0 es w \<or> log_ok b0 (es @ [next_entry b0 es (of_int now) key val]) w" and "script (t_wal t) \<noteq> []"
    | (stored) w where "Produce tn key val now b =
          Some (Inr (of_nat (b0 + length es)), b\<lparr>b_topics := AList.update tn (t\<lparr>t_wal := w\<rparr>) (b_topics b)\<rparr>)"
      and "log_ok b0 (es @ [next_entry b0 es (of_int now) key val]) w" and "script (t_wal t) \<noteq> []"
    | (dispatched) w msg where "Produce tn key val now b = then_loop (dispatchMessage tn msg now)
          (\<lambda>_. run (ret (of_nat (b0 + length es)))) (b\<lparr>b_topics := AList.update tn (t\<lparr>t_wal := w\<rparr>) (b_topics b)\<rparr>)"
      and "log_ok b0 (es @ [next_entry b0 es (of_int now) key val]) w" and "script (t_wal t) = [] \<longrightarrow> script w = []"
      and "msg = message_of (record_of (next_entry b0 es (of_int now) key val))"
proof -
  let ?e = "next_entry b0 es (of_int now) key val" and ?N = "b0 + length es"
  let ?put = "\<lambda>w. b\<lparr>b_topics := AList.update tn (t\<lparr>t_wal := w\<rparr>) (b_topics b)\<rparr>"
  have create: "CreateTopic tn b = Some (Inr (), b)" using t by (simp add: CreateTopic_def)
  obtain r w where a: "Append (of_int now) key val (t_wal t) = (r, w)" by (cases "Append (of_int now) key val (t_wal t)") auto
  have app: "in_topic tn (run (in_wal (Append (of_int now) key val))) b = Some (r, ?put w)"
    by (rule in_topic_there [OF t]) (simp add: run_def in_wal_def a)
  note T = Append_triple [OF room, unfolded triple_def, rule_format, OF ok, unfolded a prod.case]
  show ?thesis
  proof (cases r)
    case (Inl e)
    have "script (t_wal t) \<noteq> []" using Append_succeeds [OF ok, of "of_int now" key val] a Inl by auto
    then show ?thesis using T Inl create app by (intro failed [of e w]) (auto simp: Produce_def then_loop_def)
  next
    case (Inr off)
    then have off: "off = of_nat ?N" and w: "log_ok b0 (es @ [?e]) w" using T by simp_all
    have rd: "reads w (Read (of_nat ?N)) (Inr (record_of ?e))"
      using Read_reads [OF w, of "length es"] by simp
    obtain q y where q: "Read (of_nat ?N) (w\<lparr>script := script w\<rparr>) = (q, w\<lparr>script := y\<rparr>)"
        "q = Inr (record_of ?e) \<or> (\<exists>x. q = Inl (OsError x))"
      using rd unfolding reads_def by blast
    then have read: "try_loop (in_topic tn (run (in_wal (Read (of_nat ?N))))) (?put w) = Some (Inr q, ?put (w\<lparr>script := y\<rparr>))"
      by (auto simp: try_loop_def in_topic_def run_def in_wal_def AList.update_conv')
    have w': "log_ok b0 (es @ [?e]) (w\<lparr>script := y\<rparr>)" using w by simp
    have nofault: "script w = []" if "script (t_wal t) = []"
      using Append_succeeds [OF ok that, of "of_int now" key val] a by auto
    show ?thesis
    proof (cases q)
      case (Inl e)
      have "script (t_wal t) \<noteq> []"
      proof
        assume "script (t_wal t) = []"
        from reads_Nil [OF rd nofault [OF this]] q Inl show False by simp
      qed
      with w' create app Inr off read Inl show ?thesis
        by (intro stored [of "w\<lparr>script := y\<rparr>"]) (simp_all add: Produce_def then_loop_def run_def ret_def)
    next
      case rec: (Inr rec)
      then have "rec = record_of ?e" using q(2) by auto
      moreover have "script (t_wal t) = [] \<longrightarrow> script (w\<lparr>script := y\<rparr>) = []"
        using reads_Nil [OF rd] nofault q(1) by (auto dest: arg_cong [where f = script])
      ultimately show ?thesis using w' create app Inr off read rec
        by (intro dispatched [of "message_of rec" "w\<lparr>script := y\<rparr>"]) (simp_all add: Produce_def then_loop_def)
    qed
  qed
qed

section \<open>Fetch\<close>

text \<open>What \<^verbatim>\<open>Fetch\<close> does when \<^verbatim>\<open>fetchAvailable\<close> gave it nothing.\<close>

definition ack_timeout :: "Config \<Rightarrow> FetchRequest \<Rightarrow> int" where
  "ack_timeout cfg req =
     (let ackTimeout = int (unat (fq_AckTimeoutMs req)) * Millisecond
      in if ackTimeout = 0 then DefaultLeaseTimeout cfg else ackTimeout)"

definition wait_for_message :: "FetchRequest \<Rightarrow> int \<Rightarrow> int \<Rightarrow> (Broker, fetched) loop" where
  "wait_for_message req ackTimeout now =
     (if fq_LongPollTimeoutMs req = 0 then run (ret (Returned []))
      else
       then_loop (run (gets b_fetches)) (\<lambda>ch.
       let pf = \<lparr>pf_id = ch, pf_ConsumerID = fq_ConsumerID req, pf_MaxMessages = fq_MaxMessages req,
                 pf_AckTimeout = ackTimeout,
                 pf_Expiry = now + int (unat (fq_LongPollTimeoutMs req)) * Millisecond\<rparr>
       in
       then_loop (run (modify (\<lambda>b. b\<lparr>b_fetches := ch + 1, b_chans := (b_chans b)(ch := None)\<rparr>))) (\<lambda>_.
       then_loop (in_topic (fq_Topic req) lock_topic) (\<lambda>_.
       then_loop (in_topic (fq_Topic req) (run (modify (\<lambda>t.
         set_pending (fq_Group req) (pending_of t (fq_Group req) @ [pf]) t)))) (\<lambda>_.
       then_loop (in_topic (fq_Topic req) unlock_topic) (\<lambda>_.
       run (ret (Waiting ch))))))))"

lemma Fetch_split:
  "Fetch req now =
     then_loop (CreateTopic (fq_Topic req)) (\<lambda>_.
     then_loop (in_topic (fq_Topic req) (getOrCreateGroup (fq_Group req))) (\<lambda>_.
     then_loop (run (gets (\<lambda>b. ack_timeout (b_cfg b) req))) (\<lambda>ackTimeout.
     then_loop (fetchAvailable (fq_Topic req) (fq_Group req) (fq_ConsumerID req) (fq_MaxMessages req) ackTimeout now) (\<lambda>messages.
     if messages \<noteq> [] then run (ret (Returned messages)) else wait_for_message req ackTimeout now))))"
  by (simp only: Fetch_def ack_timeout_def wait_for_message_def)

lemma wait_for_message_run:
  assumes t: "map_of (b_topics b) (fq_Topic req) = Some t" and "\<not> t_mu t" and "fq_LongPollTimeoutMs req \<noteq> 0"
  shows "\<exists>b' t' pf. wait_for_message req ackTimeout now b = Some (Inr (Waiting (b_fetches b)), b') \<and>
    map_of (b_topics b') (fq_Topic req) = Some t' \<and> pf_id pf = b_fetches b \<and> pf_ConsumerID pf = fq_ConsumerID req \<and>
    t' = set_pending (fq_Group req) (pending_of t (fq_Group req) @ [pf]) t"
proof -
  let ?tn = "fq_Topic req" and ?ch = "b_fetches b"
  let ?b1 = "b\<lparr>b_fetches := ?ch + 1, b_chans := (b_chans b)(?ch := None)\<rparr>"
  define pf where "pf = \<lparr>pf_id = ?ch, pf_ConsumerID = fq_ConsumerID req, pf_MaxMessages = fq_MaxMessages req,
     pf_AckTimeout = ackTimeout, pf_Expiry = now + int (unat (fq_LongPollTimeoutMs req)) * Millisecond\<rparr>"
  let ?t1 = "t\<lparr>t_mu := True\<rparr>"
  let ?t2 = "set_pending (fq_Group req) (pending_of ?t1 (fq_Group req) @ [pf]) ?t1"
  let ?t3 = "?t2\<lparr>t_mu := False\<rparr>"
  let ?put = "\<lambda>t. ?b1\<lparr>b_topics := AList.update ?tn t (b_topics b)\<rparr>"
  have there: "map_of (b_topics (?put t)) ?tn = Some t" for t by (simp add: AList.update_conv')
  have again: "?put t\<lparr>b_topics := AList.update ?tn t' (b_topics (?put t))\<rparr> = ?put t'" for t t' by (simp add: update_update)
  have l: "in_topic ?tn lock_topic ?b1 = Some (Inr (), ?put ?t1)"
    using t assms(2) by (simp add: in_topic_def lock_topic_def)
  have e: "in_topic ?tn (run (modify (\<lambda>t. set_pending (fq_Group req) (pending_of t (fq_Group req) @ [pf]) t))) (?put ?t1) =
      Some (Inr (), ?put ?t2)"
    using in_topic_there [OF there, of "run (modify (\<lambda>t. set_pending (fq_Group req) (pending_of t (fq_Group req) @ [pf]) t))" ?t1 "Inr ()" ?t2]
    unfolding again by (simp add: run_def modify_def)
  have u: "in_topic ?tn unlock_topic (?put ?t2) = Some (Inr (), ?put ?t3)"
    using in_topic_there [OF there, of unlock_topic ?t2 "Inr ()" ?t3] unfolding again by (simp add: unlock_topic_def)
  have c: "run (gets b_fetches) b = Some (Inr ?ch, b)" "run (modify (\<lambda>b. b\<lparr>b_fetches := ?ch + 1, b_chans := (b_chans b)(?ch := None)\<rparr>)) b = Some (Inr (), ?b1)"
    by (simp_all add: run_def gets_def modify_def)
  have run: "wait_for_message req ackTimeout now b = Some (Inr (Waiting ?ch), ?put ?t3)"
    unfolding wait_for_message_def Let_def pf_def [symmetric] if_not_P [OF assms(3)] then_loop_def c option.case prod.case sum.case
    unfolding pf_def [symmetric]
    by (simp only: l e u option.case prod.case sum.case) (simp add: run_def ret_def)
  have "?t3 = set_pending (fq_Group req) (pending_of t (fq_Group req) @ [pf]) t"
    using assms(2) by (cases t) (simp add: set_pending_def pending_of_def)
  then show ?thesis using run there by (intro exI [of _ "?put ?t3"] exI [of _ ?t3] exI [of _ pf]) (simp add: pf_def)
qed


lemma put_there: "map_of (b_topics (b\<lparr>b_topics := AList.update tn t (b_topics b)\<rparr>)) tn = Some t"
  by (simp add: AList.update_conv')

lemma Produce_stuck:
  assumes t: "map_of (b_topics b) tn = Some t" and ok: "log_ok b0 es (t_wal t)"
    and room: "room_for b0 es (next_entry b0 es (of_int now) key val)"
    and "pending_of t gn \<noteq> []" and "script (t_wal t) = []"
  shows "Produce tn key val now b = None"
proof (rule Produce_there [OF t ok room])
  fix w msg
  assume p: "Produce tn key val now b = then_loop (dispatchMessage tn msg now)
      (\<lambda>_. run (ret (of_nat (b0 + length es)))) (b\<lparr>b_topics := AList.update tn (t\<lparr>t_wal := w\<rparr>) (b_topics b)\<rparr>)"
  have "pending_of (t\<lparr>t_wal := w\<rparr>) gn \<noteq> []" using assms(4) by (simp add: pending_of_def)
  from dispatch_stuck [OF put_there this] show ?thesis unfolding p by (simp add: then_loop_def)
qed (use assms(5) in simp_all)

lemma Produce_run:
  assumes t: "map_of (b_topics b) tn = Some t" "\<not> t_mu t" "nobody_waits t" and ok: "log_ok b0 es (t_wal t)"
    and room: "room_for b0 es (next_entry b0 es (of_int now) key val)"
  shows "\<exists>r w. Produce tn key val now b = Some (r, b\<lparr>b_topics := AList.update tn (t\<lparr>t_wal := w\<rparr>) (b_topics b)\<rparr>) \<and>
    (r = Inr (of_nat (b0 + length es)) \<and> log_ok b0 (es @ [next_entry b0 es (of_int now) key val]) w \<or>
     (\<exists>e. r = Inl e \<and> (log_ok b0 es w \<or> log_ok b0 (es @ [next_entry b0 es (of_int now) key val]) w))) \<and>
    (script (t_wal t) = [] \<longrightarrow> r = Inr (of_nat (b0 + length es)) \<and> script w = [])"
proof (rule Produce_there [OF t(1) ok room])
  fix w msg
  assume p: "Produce tn key val now b = then_loop (dispatchMessage tn msg now)
      (\<lambda>_. run (ret (of_nat (b0 + length es)))) (b\<lparr>b_topics := AList.update tn (t\<lparr>t_wal := w\<rparr>) (b_topics b)\<rparr>)"
    and w: "log_ok b0 (es @ [next_entry b0 es (of_int now) key val]) w" "script (t_wal t) = [] \<longrightarrow> script w = []"
  have "nobody_waits (t\<lparr>t_wal := w\<rparr>)" "\<not> t_mu (t\<lparr>t_wal := w\<rparr>)"
    using t by (simp_all add: nobody_waits_def pending_of_def)
  from dispatch_idle [OF put_there this] w show ?thesis
    unfolding p by (intro exI [of _ "Inr (of_nat (b0 + length es))"] exI [of _ w]) (simp add: then_loop_def run_def ret_def)
qed blast+

text \<open>The offsets a fetch owes its consumer, of a log that ends at \<open>N\<close>.\<close>

definition due :: "int \<Rightarrow> u32 \<Rightarrow> nat \<Rightarrow> ConsumerGroup \<Rightarrow> u64 list" where
  "due now maxCount N g = take (unat maxCount) (sort (expired_offsets now g) @ map of_nat [window_end g ..< N])"

lemma Fetch_there:
  assumes t: "map_of (b_topics b) (fq_Topic req) = Some t" "\<not> t_mu t" and gr: "map_of (t_groups t) (fq_Group req) = Some g"
    and f: "fetchAvailable (fq_Topic req) (fq_Group req) (fq_ConsumerID req) (fq_MaxMessages req) (ack_timeout (b_cfg b) req) now b =
      Some (Inr msgs, b1)"
  shows "Fetch req now b =
    (if msgs \<noteq> [] then Some (Inr (Returned msgs), b1) else wait_for_message req (ack_timeout (b_cfg b) req) now b1)"
proof -
  have c: "CreateTopic (fq_Topic req) b = Some (Inr (), b)" using t by (simp add: CreateTopic_def)
  have a: "run (gets (\<lambda>b. ack_timeout (b_cfg b) req)) b = Some (Inr (ack_timeout (b_cfg b) req), b)"
    by (simp add: run_def gets_def)
  show ?thesis
    unfolding Fetch_split then_loop_def c getOrCreateGroup_there [OF t(1) gr t(2)] option.case prod.case sum.case a f
    by (simp add: run_def ret_def)
qed

lemma Fetch_run:
  assumes t: "map_of (b_topics b) (fq_Topic req) = Some t" "\<not> t_mu t" and gr: "map_of (t_groups t) (fq_Group req) = Some g"
    and ok: "log_ok b0 es (t_wal t)" and g: "group_ok g" "b0 \<le> committed g" "window_end g \<le> b0 + length es"
    and few: "\<forall>off l. map_of (g_Leases g) off = Some l \<longrightarrow> is_expired now l \<longrightarrow> l_Redeliveries l < MaxRedeliveries (b_cfg b)"
    and script: "script (t_wal t) = []"
  shows "\<exists>q b' t' g'. Fetch req now b = Some (Inr q, b') \<and> map_of (b_topics b') (fq_Topic req) = Some t' \<and> t_wal t' = t_wal t \<and>
    map_of (t_groups t') (fq_Group req) = Some g' \<and>
    (let offs = due now (fq_MaxMessages req) (b0 + length es) g in
      q = (if offs \<noteq> [] then Returned (map (msg_at b0 es) offs)
           else if fq_LongPollTimeoutMs req = 0 then Returned [] else Waiting (b_fetches b)) \<and>
      (\<forall>off. map_of (g_Leases g') off = map_of (g_Leases g) off \<or> off \<in> set offs) \<and>
      (\<forall>off \<in> set offs. \<exists>l. map_of (g_Leases g') off = Some l \<and> l_ConsumerID l = fq_ConsumerID req \<and>
        l_Expiry l = now + ack_timeout (b_cfg b) req \<and> \<not> l_Acked l) \<and>
      (case q of
         Returned msgs \<Rightarrow> t_pending t' = t_pending t
       | Waiting ch \<Rightarrow> \<exists>pf. pf_id pf = ch \<and> pf_ConsumerID pf = fq_ConsumerID req \<and>
           pending_of t' (fq_Group req) = pending_of t (fq_Group req) @ [pf]))"
proof -
  let ?tn = "fq_Topic req" and ?gn = "fq_Group req" and ?a = "ack_timeout (b_cfg b) req"
  let ?offs = "due now (fq_MaxMessages req) (b0 + length es) g"
  obtain g' where f: "fetchAvailable ?tn ?gn (fq_ConsumerID req) (fq_MaxMessages req) ?a now b =
      Some (Inr (map (msg_at b0 es) ?offs), with_group b ?tn t ?gn g' [])"
    and new: "\<forall>off \<in> set ?offs. \<exists>l. map_of (g_Leases g') off = Some l \<and> l_ConsumerID l = fq_ConsumerID req \<and>
        l_Expiry l = now + ?a \<and> \<not> l_Acked l"
    and old: "\<forall>off. map_of (g_Leases g') off = map_of (g_Leases g) off \<or> off \<in> set ?offs"
    using fetchAvailable_run [OF t(1) gr ok g few, of "fq_ConsumerID req" "fq_MaxMessages req" ?a] script
    unfolding due_def [symmetric] by blast
  let ?b = "with_group b ?tn t ?gn g' []"
  let ?t = "t\<lparr>t_wal := (t_wal t)\<lparr>script := []\<rparr>, t_groups := AList.update ?gn g' (t_groups t)\<rparr>"
  have w: "(t_wal t)\<lparr>script := []\<rparr> = t_wal t" using script by simp
  have t': "map_of (b_topics ?b) ?tn = Some ?t" and "b_fetches ?b = b_fetches b"
    by (simp_all add: with_group_def set_topic_def AList.update_conv')
  have p: "\<not> t_mu ?t" "t_wal ?t = t_wal t" "map_of (t_groups ?t) ?gn = Some g'" "t_pending ?t = t_pending t"
    using t(2) w by (simp_all add: AList.update_conv')
  note F = Fetch_there [OF t gr f]
  consider (some) "?offs \<noteq> []" | (none) "?offs = []" "fq_LongPollTimeoutMs req = 0" | (wait) "?offs = []" "fq_LongPollTimeoutMs req \<noteq> 0"
    by blast
  then show ?thesis
  proof cases
    case some
    then have "Fetch req now b = Some (Inr (Returned (map (msg_at b0 es) ?offs)), ?b)" unfolding F by simp
    with p new old some show ?thesis
      by (intro exI [of _ "Returned (map (msg_at b0 es) ?offs)"] exI [of _ ?b] exI [of _ ?t] exI [of _ g']) (simp add: Let_def)
  next
    case none
    then have "Fetch req now b = Some (Inr (Returned []), ?b)" unfolding F by (simp add: wait_for_message_def run_def ret_def)
    with p new old none show ?thesis
      by (intro exI [of _ "Returned []"] exI [of _ ?b] exI [of _ ?t] exI [of _ g']) (simp add: Let_def)
  next
    case wait
    obtain b' t'' pf where r: "wait_for_message req ?a now ?b = Some (Inr (Waiting (b_fetches b)), b')"
      "map_of (b_topics b') ?tn = Some t''" "pf_id pf = b_fetches b" "pf_ConsumerID pf = fq_ConsumerID req"
      "t'' = set_pending ?gn (pending_of ?t ?gn @ [pf]) ?t"
      using wait_for_message_run [OF t' p(1) wait(2), of ?a now] \<open>b_fetches ?b = b_fetches b\<close> by auto
    have "Fetch req now b = Some (Inr (Waiting (b_fetches b)), b')" unfolding F using wait r(1) by simp
    moreover have "t_wal t'' = t_wal t" "map_of (t_groups t'') ?gn = Some g'" "pending_of t'' ?gn = pending_of t ?gn @ [pf]"
      using p w by (simp_all add: r(5) set_pending_def pending_of_def AList.update_conv')
    ultimately show ?thesis using r(2-4) new old wait
      by (intro exI [of _ "Waiting (b_fetches b)"] exI [of _ b'] exI [of _ t''] exI [of _ g']) (auto simp: Let_def)
  qed
qed

lemma sample_nobody_waits [simp]: "nobody_waits sample_topic" "\<not> t_mu sample_topic"
  by (simp_all add: nobody_waits_def pending_of_def sample_topic_def)

section \<open>Properties\<close>

text \<open>
  C12: \<^verbatim>\<open>Produce\<close> on an open topic with no long poll waiting: it returns under any outcome of
  the system calls; success gives the next offset of the log and the record is in the log;
  after an error the log holds what it held, or the record as well; the consumer groups and
  every other topic stay; without faults it succeeds.
\<close>

theorem Produce_contract:
  assumes "map_of (b_topics b) tn = Some t" and "\<not> t_mu t" and "nobody_waits t" and "log_ok b0 es (t_wal t)"
    and "b0 + length es + 1 < 2 ^ 64" and "29 + length key + length val < 2 ^ 32"
    and "length (enc_log es) + (29 + length key + length val) < 2 ^ 63"
  shows "\<exists>r w. Produce tn key val now b = Some (r, set_topic tn (t\<lparr>t_wal := w\<rparr>) b) \<and>
    (let es' = es @ [\<lparr>e_Offset = of_nat (b0 + length es), e_Timestamp = of_int now, e_Key = key, e_Value = val\<rparr>] in
       (case r of
          Inr off \<Rightarrow> off = of_nat (b0 + length es) \<and> log_ok b0 es' w
        | Inl e \<Rightarrow> log_ok b0 es w \<or> log_ok b0 es' w) \<and>
       (script (t_wal t) = [] \<longrightarrow> (\<exists>off. r = Inr off)))"
proof -
  have room: "room_for b0 es (next_entry b0 es (of_int now) key val)"
    using assms(5-7) by (simp add: room_for_def next_entry_def entry_fits_def length_enc)
  from Produce_run [OF assms(1-4) room] show ?thesis
    unfolding next_entry_def set_topic_def Let_def by (elim exE conjE disjE) auto
qed

theorem Produce_contract_witness:
  "\<exists>w. Produce ''t'' [1] [2] 9 sample_broker = Some (Inr 1, set_topic ''t'' (sample_topic\<lparr>t_wal := w\<rparr>) sample_broker) \<and>
    log_ok 0 [sample_entry, \<lparr>e_Offset = 1, e_Timestamp = 9, e_Key = [1], e_Value = [2]\<rparr>] w"
proof -
  have "log_ok 0 [sample_entry] (t_wal sample_topic)" by (simp add: sample_log_ok)
  from Produce_contract [OF sample_broker_simps(1) sample_nobody_waits(2,1) this, of "[1]" "[2]" 9] show ?thesis
    by (auto simp: length_enc sample_entry_def sample_log_def Let_def)
qed

text \<open>
  C13: \<^verbatim>\<open>Fetch\<close> without faults: it returns the messages that are due (expired leases by
  offset, then new records) and leases exactly these to the consumer, for the time it asked
  for or the configured one; with nothing due it returns no message, or, asked to poll, waits
  behind the fetches that wait already.
\<close>

theorem Fetch_contract:
  assumes "map_of (b_topics b) (fq_Topic req) = Some t" and "\<not> t_mu t" and "map_of (t_groups t) (fq_Group req) = Some g"
    and "log_ok b0 es (t_wal t)" and "group_ok g" and "b0 \<le> committed g" and "window_end g \<le> b0 + length es"
    and "\<forall>off l. map_of (g_Leases g) off = Some l \<longrightarrow> is_expired now l \<longrightarrow> l_Redeliveries l < MaxRedeliveries (b_cfg b)"
    and "script (t_wal t) = []"
  shows "\<exists>q b' t' g'. Fetch req now b = Some (Inr q, b') \<and> map_of (b_topics b') (fq_Topic req) = Some t' \<and>
    map_of (t_groups t') (fq_Group req) = Some g' \<and>
    (let offs = due now (fq_MaxMessages req) (b0 + length es) g;
         lease_time = (if fq_AckTimeoutMs req = 0 then DefaultLeaseTimeout (b_cfg b) else int (unat (fq_AckTimeoutMs req)) * Millisecond)
     in
      q = (if offs \<noteq> [] then Returned (map (\<lambda>off. message_of (record_of (es ! (unat off - b0)))) offs)
           else if fq_LongPollTimeoutMs req = 0 then Returned [] else Waiting (b_fetches b)) \<and>
      (\<forall>off. map_of (g_Leases g') off = map_of (g_Leases g) off \<or> off \<in> set offs) \<and>
      (\<forall>off \<in> set offs. \<exists>l. map_of (g_Leases g') off = Some l \<and> l_ConsumerID l = fq_ConsumerID req \<and>
        l_Expiry l = now + lease_time \<and> \<not> l_Acked l) \<and>
      (case q of
         Returned msgs \<Rightarrow> t_pending t' = t_pending t
       | Waiting ch \<Rightarrow> \<exists>pf. pf_id pf = ch \<and> pf_ConsumerID pf = fq_ConsumerID req \<and>
           pending_of t' (fq_Group req) = pending_of t (fq_Group req) @ [pf]))"
proof -
  have a: "ack_timeout (b_cfg b) req =
      (if fq_AckTimeoutMs req = 0 then DefaultLeaseTimeout (b_cfg b) else int (unat (fq_AckTimeoutMs req)) * Millisecond)"
    by (simp add: ack_timeout_def Millisecond_def Let_def uint_0_iff)
  from Fetch_run [OF assms] show ?thesis unfolding Let_def a msg_at_def by blast
qed

definition poll :: FetchRequest where
  "poll = \<lparr>fq_Topic = ''t'', fq_Group = ''g'', fq_ConsumerID = ''c1'', fq_MaxMessages = 10,
     fq_AckTimeoutMs = 0, fq_LongPollTimeoutMs = 1000\<rparr>"

lemma poll_simps [simp]:
  "fq_Topic poll = ''t''" "fq_Group poll = ''g''" "fq_ConsumerID poll = ''c1''" "fq_MaxMessages poll = 10"
  "fq_LongPollTimeoutMs poll = 1000" "fq_AckTimeoutMs poll = 0"
  by (simp_all add: poll_def)

theorem Fetch_contract_witness:
  "\<exists>b' t' g'. Fetch poll 100 sample_broker = Some (Inr (Returned [message_of (record_of sample_entry)]), b') \<and>
    map_of (b_topics b') ''t'' = Some t' \<and> map_of (t_groups t') ''g'' = Some g' \<and>
    (\<exists>l. map_of (g_Leases g') 0 = Some l \<and> l_ConsumerID l = ''c1'' \<and> l_Expiry l = 100 + 30 * Second \<and> \<not> l_Acked l)"
proof -
  have t: "map_of (b_topics sample_broker) (fq_Topic poll) = Some sample_topic"
    "map_of (t_groups sample_topic) (fq_Group poll) = Some (new_group ''g'' ''t'' 0)" by simp_all
  have "log_ok 0 [sample_entry] (t_wal sample_topic)" "script (t_wal sample_topic) = []"
    by (simp_all add: sample_log_ok) (simp add: sample_log_def)
  note it = Fetch_contract [OF t(1) sample_nobody_waits(2) t(2) this(1) new_group_ok(1) sample_group_fits sample_group_running this(2)]
  have offs: "due 100 (fq_MaxMessages poll) (0 + length [sample_entry]) (new_group ''g'' ''t'' 0) = [0]"
    by (simp add: due_def expired_offsets_def)
  have d: "DefaultLeaseTimeout (b_cfg sample_broker) = 30 * Second" by (simp add: DefaultConfig_def)
  from it show ?thesis unfolding offs d Let_def by auto
qed

text \<open>
  C14: the long poll and the producer deadlock: once a fetch waits for a message on a topic,
  the next \<^verbatim>\<open>Produce\<close> to this topic, whatever its key and value, never returns:
  \<^verbatim>\<open>dispatchMessage\<close> holds the mutex of the topic and \<^verbatim>\<open>getOrCreateGroup\<close> locks it again.
\<close>

theorem long_poll_blocks_Produce:
  assumes "map_of (b_topics b) (fq_Topic req) = Some t" and "\<not> t_mu t" and "map_of (t_groups t) (fq_Group req) = Some g"
    and "log_ok b0 es (t_wal t)" and "group_ok g" and "b0 \<le> committed g" and "window_end g = b0 + length es"
    and "\<forall>off l. map_of (g_Leases g) off = Some l \<longrightarrow> \<not> is_expired now l"
    and "script (t_wal t) = []" and "fq_LongPollTimeoutMs req \<noteq> 0"
    and "b0 + length es + 1 < 2 ^ 64" and "29 + length key + length val < 2 ^ 32"
    and "length (enc_log es) + (29 + length key + length val) < 2 ^ 63"
  shows "\<exists>b'. Fetch req now b = Some (Inr (Waiting (b_fetches b)), b') \<and> Produce (fq_Topic req) key val now' b' = None"
proof -
  have few: "\<forall>off l. map_of (g_Leases g) off = Some l \<longrightarrow> is_expired now l \<longrightarrow> l_Redeliveries l < MaxRedeliveries (b_cfg b)"
    using assms(8) by blast
  have "distinct (map fst (g_Leases g))" using assms(5) by (simp add: group_ok_def)
  from expired_offsets_set [OF this, of _ now] have "x \<notin> set (expired_offsets now g)" for x using assms(8) by blast
  then have "expired_offsets now g = []" by (cases "expired_offsets now g") auto
  then have none: "due now (fq_MaxMessages req) (b0 + length es) g = []" using assms(7) by (simp add: due_def)
  have reach: "window_end g \<le> b0 + length es" using assms(7) by simp
  obtain q b' t' pf where f: "Fetch req now b = Some (Inr (Waiting (b_fetches b)), b')"
    "map_of (b_topics b') (fq_Topic req) = Some t'" "t_wal t' = t_wal t" "pending_of t' (fq_Group req) = pending_of t (fq_Group req) @ [pf]"
    using Fetch_run [OF assms(1-6) reach few assms(9)] assms(10) unfolding none Let_def by auto
  have room: "room_for b0 es (next_entry b0 es (of_int now') key val)"
    using assms(11-13) by (simp add: room_for_def next_entry_def entry_fits_def length_enc)
  have "Produce (fq_Topic req) key val now' b' = None"
    using assms(4,9) f(3,4) by (intro Produce_stuck [OF f(2) _ room, of "fq_Group req"]) simp_all
  with f(1) show ?thesis by blast
qed

definition idle_group :: ConsumerGroup where
  "idle_group = new_group ''g'' ''t'' 1"

definition idle_broker :: Broker where
  "idle_broker = sample_broker\<lparr>b_topics := [(''t'', sample_topic\<lparr>t_groups := [(''g'', idle_group)]\<rparr>)]\<rparr>"

theorem long_poll_blocks_Produce_witness:
  "\<exists>b'. Fetch poll 100 idle_broker = Some (Inr (Waiting 0), b') \<and> Produce ''t'' [1] [2] 200 b' = None"
proof -
  let ?t = "sample_topic\<lparr>t_groups := [(''g'', idle_group)]\<rparr>"
  have t: "map_of (b_topics idle_broker) (fq_Topic poll) = Some ?t" "map_of (t_groups ?t) (fq_Group poll) = Some idle_group"
    "\<not> t_mu ?t" "log_ok 0 [sample_entry] (t_wal ?t)" "script (t_wal ?t) = []" "b_fetches idle_broker = 0"
    by (simp_all add: idle_broker_def sample_log_ok sample_broker_def sample_topic_def world.defs) (simp add: sample_log_def)
  have g: "group_ok idle_group" "0 \<le> committed idle_group" "window_end idle_group = 0 + length [sample_entry]"
    "\<forall>off l. map_of (g_Leases idle_group) off = Some l \<longrightarrow> \<not> is_expired 100 l"
    by (simp_all add: idle_group_def)
  from long_poll_blocks_Produce [OF t(1,3,2,4) g t(5), of "[1]" "[2]" 200] show ?thesis
    by (simp add: t(6) length_enc sample_entry_def)
qed

end
