(* ===== verification/Broker_Nack.thy ===== *)
theory Broker_Nack
  imports Broker_Produce
begin

text \<open>
  \<^verbatim>\<open>Nack\<close>, the dead letters and the scan for expired leases of \<^verbatim>\<open>pkg/broker/coordinator.go\<close>:
  what they leave in the groups and logs, without a waiting fetch and with one.
\<close>

section \<open>Nack\<close>

lemma in_group_topic:
  assumes "map_of (b_topics b) tn = Some t" and "map_of (t_groups t) gn = Some g"
  shows "in_topic tn (run (in_group gn (gets f))) b = Some (Inr (f g), b)"
    and "in_topic tn (run (in_group gn (modify h))) b =
      Some (Inr (), set_topic tn (t\<lparr>t_groups := AList.update gn (h g) (t_groups t)\<rparr>) b)"
proof -
  show "in_topic tn (run (in_group gn (gets f))) b = Some (Inr (f g), b)"
    using assms(2) by (intro in_topic_same [OF assms(1)]) (simp add: run_def in_group_gets)
  show "in_topic tn (run (in_group gn (modify h))) b =
      Some (Inr (), set_topic tn (t\<lparr>t_groups := AList.update gn (h g) (t_groups t)\<rparr>) b)"
    unfolding set_topic_def using assms(2) by (intro in_topic_there [OF assms(1)]) (simp add: run_def in_group_def modify_def)
qed

lemma set_topic_simps [simp]:
  "map_of (b_topics (set_topic tn t b)) tn' = (if tn' = tn then Some t else map_of (b_topics b) tn')"
  "set_topic tn t' (set_topic tn t b) = set_topic tn t' b"
  "b_cfg (set_topic tn t b) = b_cfg b" "b_chans (set_topic tn t b) = b_chans b"
  by (simp_all add: set_topic_def AList.update_conv' update_update)

lemma topic_ops:
  assumes "map_of (b_topics b) tn = Some t"
  shows "in_topic tn (run (gets f)) b = Some (Inr (f t), b)"
    and "in_topic tn (run (modify h)) b = Some (Inr (), set_topic tn (h t) b)"
    and "\<not> t_mu t \<Longrightarrow> in_topic tn lock_topic b = Some (Inr (), set_topic tn (t\<lparr>t_mu := True\<rparr>) b)"
    and "in_topic tn unlock_topic b = Some (Inr (), set_topic tn (t\<lparr>t_mu := False\<rparr>) b)"
proof -
  show "in_topic tn (run (gets f)) b = Some (Inr (f t), b)"
    by (intro in_topic_same [OF assms]) (simp add: run_def gets_def)
  show "in_topic tn (run (modify h)) b = Some (Inr (), set_topic tn (h t) b)"
    unfolding set_topic_def by (intro in_topic_there [OF assms]) (simp add: run_def modify_def)
  show "in_topic tn unlock_topic b = Some (Inr (), set_topic tn (t\<lparr>t_mu := False\<rparr>) b)"
    unfolding set_topic_def by (intro in_topic_there [OF assms]) (simp add: unlock_topic_def)
  show "in_topic tn lock_topic b = Some (Inr (), set_topic tn (t\<lparr>t_mu := True\<rparr>) b)" if "\<not> t_mu t"
    unfolding set_topic_def using that by (intro in_topic_there [OF assms]) (simp add: lock_topic_def)
qed

lemma loop_step: "m b = Some (Inr a, b1) \<Longrightarrow> then_loop m f b = f a b1"
  by (simp add: then_loop_def)

lemma topic_steps:
  assumes "map_of (b_topics b) tn = Some t"
  shows "then_loop (in_topic tn (run (gets f))) k b = k (f t) b"
    and "then_loop (in_topic tn (run (modify h))) k' b = k' () (set_topic tn (h t) b)"
    and "\<not> t_mu t \<Longrightarrow> then_loop (in_topic tn lock_topic) k' b = k' () (set_topic tn (t\<lparr>t_mu := True\<rparr>) b)"
    and "then_loop (in_topic tn unlock_topic) k' b = k' () (set_topic tn (t\<lparr>t_mu := False\<rparr>) b)"
  by (simp_all add: then_loop_def topic_ops [OF assms])

lemma group_steps:
  assumes "map_of (b_topics b) tn = Some t" and "map_of (t_groups t) gn = Some g"
  shows "then_loop (in_topic tn (run (in_group gn (gets f)))) k b = k (f g) b"
    and "then_loop (in_topic tn (run (in_group gn (modify h)))) k' b =
      k' () (set_topic tn (t\<lparr>t_groups := AList.update gn (h g) (t_groups t)\<rparr>) b)"
  by (simp_all add: then_loop_def in_group_topic [OF assms])

text \<open>The two ends of \<^verbatim>\<open>Nack\<close>, from the lookup of the lease on.\<close>

definition Nack_found :: "string \<Rightarrow> string \<Rightarrow> u64 \<Rightarrow> int \<Rightarrow> LeaseState \<Rightarrow> (Broker, unit) loop" where
  "Nack_found topicName groupName off now l =
     then_loop (in_topic topicName (run (in_group groupName (modify (put_lease off (l\<lparr>l_Expiry := now\<rparr>)))))) (\<lambda>_.
     then_loop (in_topic topicName lock_topic) (\<lambda>_.
     then_loop (in_topic topicName (run (gets (\<lambda>t. pending_of t groupName)))) (\<lambda>fetches.
     if fetches \<noteq> [] then
       let pf = hd fetches in
       then_loop (in_topic topicName (run (modify (set_pending groupName (tl fetches))))) (\<lambda>_.
       then_loop (in_topic topicName unlock_topic) (\<lambda>_.
       then_loop (in_topic topicName (run (in_group groupName (modify (put_lease off
         (release (pf_ConsumerID pf) (now + pf_AckTimeout pf) l)))))) (\<lambda>_.
       then_loop (try_loop (in_topic topicName (run (in_wal (Read off))))) (\<lambda>rec.
       case rec of
         Inl _ \<Rightarrow> run (ret ())
       | Inr rec \<Rightarrow> run (modify (try_send (pf_id pf) [message_of rec]))))))
     else in_topic topicName unlock_topic)))"

lemma Nack_there:
  assumes t: "map_of (b_topics b) tn = Some t" "\<not> t_mu t" and g: "map_of (t_groups t) gn = Some g"
  shows "Nack tn gn off now b =
    (case map_of (g_Leases g) off of
       None \<Rightarrow> Some (Inl ErrLeaseNotFound, b)
     | Some l \<Rightarrow> if l_Acked l then Some (Inl ErrLeaseNotFound, b) else Nack_found tn gn off now l b)"
proof -
  have f: "run (gets (\<lambda>b. map_of (b_topics b) tn)) b = Some (Inr (Some t), b)" using t by (simp add: run_def gets_def)
  have c: "in_topic tn (getOrCreateGroup gn) b = Some (Inr (), b)" by (rule getOrCreateGroup_there [OF t(1) g t(2)])
  show ?thesis
    unfolding Nack_def loop_step [where m = "run (gets (\<lambda>b. map_of (b_topics b) tn))", OF f] if_not_P [OF option.distinct(2)]
      loop_step [where m = "in_topic tn (getOrCreateGroup gn)", OF c] group_steps(1) [OF t(1) g] Nack_found_def [symmetric]
    by (simp add: run_def fail_def split: option.splits)
qed

lemma put_lease_again [simp]: "put_lease off l' (put_lease off l g) = put_lease off l' g"
  by (simp add: put_lease_def update_update)

lemma Nack_found_idle:
  assumes t: "map_of (b_topics b) tn = Some t" "\<not> t_mu t" and g: "map_of (t_groups t) gn = Some g" and "pending_of t gn = []"
  shows "Nack_found tn gn off now l b =
    Some (Inr (), set_topic tn (t\<lparr>t_groups := AList.update gn (put_lease off (l\<lparr>l_Expiry := now\<rparr>) g) (t_groups t)\<rparr>) b)"
proof -
  let ?t = "t\<lparr>t_groups := AList.update gn (put_lease off (l\<lparr>l_Expiry := now\<rparr>) g) (t_groups t)\<rparr>"
  have p: "pending_of (?t\<lparr>t_mu := True\<rparr>) gn = []" using assms(4) by (simp add: pending_of_def)
  have u: "?t\<lparr>t_mu := True, t_mu := False\<rparr> = ?t" using t(2) by (cases t) simp
  have 1: "map_of (b_topics (set_topic tn ?t b)) tn = Some ?t" and 2: "\<not> t_mu ?t"
    and 3: "map_of (b_topics (set_topic tn (?t\<lparr>t_mu := True\<rparr>) b)) tn = Some (?t\<lparr>t_mu := True\<rparr>)"
    using t(2) by simp_all
  show ?thesis
    unfolding Nack_found_def group_steps(2) [OF t(1) g] topic_steps(3) [OF 1 2] set_topic_simps(2) topic_steps(1) [OF 3] p
      simp_thms if_False topic_ops(4) [OF 3] u ..
qed

text \<open>The topic after the lease was given to the first waiting fetch.\<close>

definition handed_over :: "string \<Rightarrow> PendingFetch \<Rightarrow> PendingFetch list \<Rightarrow> u64 \<Rightarrow> int \<Rightarrow> LeaseState \<Rightarrow> ConsumerGroup \<Rightarrow> Topic \<Rightarrow> Topic" where
  "handed_over gn pf pfs off now l g t = set_pending gn pfs (t\<lparr>t_groups :=
      AList.update gn (put_lease off (release (pf_ConsumerID pf) (now + pf_AckTimeout pf) l) g) (t_groups t)\<rparr>)"

lemma Nack_found_waiting:
  assumes t: "map_of (b_topics b) tn = Some t" "\<not> t_mu t" and g: "map_of (t_groups t) gn = Some g"
    and p: "pending_of t gn = pf # pfs"
  shows "Nack_found tn gn off now l b =
     then_loop (try_loop (in_topic tn (run (in_wal (Read off))))) (\<lambda>rec.
       case rec of
         Inl _ \<Rightarrow> run (ret ())
       | Inr rec \<Rightarrow> run (modify (try_send (pf_id pf) [message_of rec]))) (set_topic tn (handed_over gn pf pfs off now l g t) b)"
proof -
  let ?g = "put_lease off (l\<lparr>l_Expiry := now\<rparr>) g"
  let ?t = "t\<lparr>t_groups := AList.update gn ?g (t_groups t)\<rparr>"
  let ?t1 = "?t\<lparr>t_mu := True\<rparr>"
  let ?t3 = "set_pending gn pfs ?t1\<lparr>t_mu := False\<rparr>"
  have p1: "pending_of ?t1 gn = pf # pfs" using p by (simp add: pending_of_def)
  have there: "map_of (b_topics (set_topic tn t b)) tn = Some t" for t by simp
  have free: "\<not> t_mu ?t" using t(2) by simp
  have g3: "map_of (t_groups ?t3) gn = Some ?g" by (simp add: set_pending_def AList.update_conv')
  have last: "?t3\<lparr>t_groups := AList.update gn (put_lease off (release (pf_ConsumerID pf) (now + pf_AckTimeout pf) l) ?g)
      (t_groups ?t3)\<rparr> = handed_over gn pf pfs off now l g t"
    using t(2) by (cases t) (simp add: handed_over_def set_pending_def update_update)
  have ne: "(pf # pfs \<noteq> []) = True" by simp
  show ?thesis
    unfolding Nack_found_def group_steps(2) [OF t(1) g] topic_steps(3) [OF there free]
      set_topic_simps(2) topic_steps(1) [OF there] p1 ne if_True Let_def list.sel
      topic_steps(2) [OF there] topic_steps(4) [OF there] group_steps(2) [OF there g3] last ..
qed

section \<open>Dead letters\<close>

text \<open>When the message can be read, the outcome of \<^verbatim>\<open>Produce\<close> makes no difference to the lease.\<close>

lemma settle_run:
  assumes "group_of b tn gn = Some g" and ok: "group_ok g" and l: "map_of (g_Leases g) off = Some l"
  shows "\<exists>t' g'. in_topic tn (run (and_then
       (in_group gn (modify (\<lambda>g. case map_of (g_Leases g) off of
          None \<Rightarrow> g | Some l \<Rightarrow> put_lease off (l\<lparr>l_Acked := True\<rparr>) g))) (\<lambda>_. slideWindow gn))) b =
      Some (Inr (), set_topic tn t' b) \<and> map_of (t_groups t') gn = Some g' \<and> group_ok g' \<and>
    (let ls = (leases_list g)[unat off - committed g := l\<lparr>l_Acked := True\<rparr>] in
       committed g' = committed g + length (takeWhile l_Acked ls) \<and> leases_list g' = dropWhile l_Acked ls)"
proof -
  obtain t where t: "map_of (b_topics b) tn = Some t" "map_of (t_groups t) gn = Some g"
    using assms(1) by (auto simp: group_of_def split: option.splits)
  let ?g = "put_lease off (l\<lparr>l_Acked := True\<rparr>) g"
  let ?t = "t\<lparr>t_groups := AList.update gn ?g (t_groups t)\<rparr>"
  obtain i where i: "i < length (leases_list g)" "unat off = committed g + i"
      "group_ok ?g" "ledger ?g = (committed g, (leases_list g)[i := l\<lparr>l_Acked := True\<rparr>])"
    using ledger_put [OF ok l] by metis
  obtain g' adv where s: "slide ?g False = (g', adv)" by (cases "slide ?g False") auto
  have gt: "map_of (t_groups ?t) gn = Some ?g" by (simp add: AList.update_conv')
  obtain t' where t': "slideWindow gn ?t = (Inr (), t')" "t_groups t' = AList.update gn g' (t_groups ?t)"
    by (rule slideWindow_run [OF gt s])
  have "in_topic tn (run (and_then (in_group gn (modify (\<lambda>g. case map_of (g_Leases g) off of
          None \<Rightarrow> g | Some l \<Rightarrow> put_lease off (l\<lparr>l_Acked := True\<rparr>) g))) (\<lambda>_. slideWindow gn))) b = Some (Inr (), set_topic tn t' b)"
    unfolding set_topic_def using t(2) l t'(1)
    by (intro in_topic_there [OF t(1)]) (simp add: run_def and_then_def in_group_def modify_def)
  then show ?thesis using slide_refines [OF i(3) s] t'(2) i(2,4)
    by (intro exI [of _ t'] exI [of _ g']) (simp add: AList.update_conv' ledger_def)
qed

lemma try_loop_Inr: "m b = Some (r, b') \<Longrightarrow> r \<noteq> Inl Panic \<Longrightarrow> try_loop m b = Some (Inr r, b')"
  by (simp add: try_loop_def)

lemma to_dlq_run:
  assumes t: "map_of (b_topics b) tn = Some t" and script: "script (t_wal t) = []" and ok: "log_ok b0 es (t_wal t)"
    and i: "i < length es" "unat off = b0 + i"
    and g: "group_of b tn gn = Some g" "group_ok g" "map_of (g_Leases g) off = Some l"
    and p: "Produce (tn @ ''-dlq'') (e_Key (es ! i)) (e_Value (es ! i)) now b = Some (r, b1)" "r \<noteq> Inl Panic"
  shows "\<exists>t' g'. to_dlq tn gn off now b = Some (Inr (), set_topic tn t' b1) \<and> map_of (t_groups t') gn = Some g' \<and> group_ok g' \<and>
    (let ls = (leases_list g)[unat off - committed g := l\<lparr>l_Acked := True\<rparr>] in
       committed g' = committed g + length (takeWhile l_Acked ls) \<and> leases_list g' = dropWhile l_Acked ls)"
proof -
  have off: "of_nat (b0 + i) = off" using i(2) by (metis word_nat_cases unat_of_nat_u64 unat_u64_bound of_nat_unat ucast_id)
  have "Read off (t_wal t) = (Inr (record_of (es ! i)), t_wal t)"
    using reads_Nil [OF Read_reads [OF ok i(1)] script] unfolding off .
  then have rd: "try_loop (in_topic tn (run (in_wal (Read off)))) b = Some (Inr (Inr (record_of (es ! i))), b)"
    by (intro try_loop_Inr in_topic_same [OF t]) (simp_all add: run_def in_wal_def)
  have rec: "r_Key (record_of (es ! i)) = e_Key (es ! i)" "r_Value (record_of (es ! i)) = e_Value (es ! i)"
    by (simp_all add: record_of_def)
  have pr: "then_loop (try_loop (Produce (tn @ ''-dlq'') (e_Key (es ! i)) (e_Value (es ! i)) now)) (\<lambda>_. run (ret ())) b =
      Some (Inr (), b1)"
    using p by (simp add: then_loop_def try_loop_def run_def ret_def)
  have "more_groups b b1"
    using effectD(1) [OF more_Produce [of "\<lambda>b. True"], OF _ _ p(1)] on_more_intros(1) by blast
  then have g1: "group_of b1 tn gn = Some g" using g(1) by (simp add: more_groups_def)
  show ?thesis
    unfolding to_dlq_def loop_step [where m = "try_loop (in_topic tn (run (in_wal (Read off))))", OF rd] sum.case rec
    by (subst loop_step, rule pr) (rule settle_run [OF g1 g(2,3)])
qed

section \<open>The first expired lease\<close>

lemma first_expired_fold:
  "foldl (\<lambda>found (off, l). if is_expired now l
       then (case found of None \<Rightarrow> Some off | Some e \<Rightarrow> if off < e then Some off else found)
       else found) (Some m) (xs :: (u64 \<times> LeaseState) list) =
     Some (Min (insert m (fst ` {x \<in> set xs. is_expired now (snd x)})))"
proof (induction xs arbitrary: m)
  case (Cons x xs)
  obtain off l where x: "x = (off, l)" by (cases x) auto
  let ?S = "fst ` {x \<in> set xs. is_expired now (snd x)}"
  show ?case
  proof (cases "is_expired now l")
    case True
    have "{y \<in> set (x # xs). is_expired now (snd y)} = insert x {y \<in> set xs. is_expired now (snd y)}" using True x by auto
    then have "fst ` {y \<in> set (x # xs). is_expired now (snd y)} = insert off ?S" using x by simp
    moreover have "Min (insert (min m off) A) = Min (insert m (insert off A))" if "finite A" for A
      using that by (cases "A = {}") (simp_all add: min.assoc)
    moreover have "(if off < m then Some off else Some m) = Some (min m off)" by (auto simp: min_def)
    ultimately show ?thesis using Cons.IH [of "min m off"] True x by simp
  next
    case False
    then have "{y \<in> set (x # xs). is_expired now (snd y)} = {y \<in> set xs. is_expired now (snd y)}" using x by auto
    then show ?thesis using Cons.IH [of m] False x by simp
  qed
qed simp

section \<open>Properties\<close>

text \<open>
  C35: \<^verbatim>\<open>Nack\<close> when no fetch of the group waits: without a lease, or with one acknowledged
  already, it is refused with \<open>ErrLeaseNotFound\<close> and nothing changes; otherwise the lease
  expires now, its redeliveries are not counted yet, and nothing else changes.
\<close>

theorem Nack_contract:
  assumes "map_of (b_topics b) tn = Some t" and "\<not> t_mu t" and "map_of (t_groups t) gn = Some g"
    and "pending_of t gn = []"
  shows "Nack tn gn off now b =
    (case map_of (g_Leases g) off of
       None \<Rightarrow> Some (Inl ErrLeaseNotFound, b)
     | Some l \<Rightarrow>
         if l_Acked l then Some (Inl ErrLeaseNotFound, b)
         else Some (Inr (), set_topic tn (t\<lparr>t_groups :=
           AList.update gn (g\<lparr>g_Leases := AList.update off (l\<lparr>l_Expiry := now\<rparr>) (g_Leases g)\<rparr>) (t_groups t)\<rparr>) b))"
  using Nack_there [OF assms(1-3)] Nack_found_idle [OF assms]
  by (simp add: put_lease_def split: option.splits)

theorem Nack_contract_witness:
  "Nack ''t'' ''g'' 0 40 leased_broker = Some (Inr (), set_topic ''t'' (leased_topic\<lparr>t_groups :=
     [(''g'', leased_group\<lparr>g_Leases := [(0, new_lease 0 ''c1'' 40)]\<rparr>)]\<rparr>) leased_broker) \<and>
   Nack ''t'' ''g'' 3 40 leased_broker = Some (Inl ErrLeaseNotFound, leased_broker)"
proof -
  have p: "pending_of leased_topic ''g'' = []" by (simp add: leased_topic_def sample_topic_def pending_of_def)
  have l: "(new_lease 0 ''c1'' 50)\<lparr>l_Expiry := 40\<rparr> = new_lease 0 ''c1'' 40" by (simp add: new_lease_def)
  have t: "t_groups leased_topic = [(''g'', leased_group)]" by (simp add: leased_topic_def)
  have mu: "\<not> t_mu leased_topic" by simp
  note it = Nack_contract [OF leased_simps(1) mu leased_simps(2) p]
  show ?thesis by (simp add: it l t)
qed

text \<open>
  C34: a rejected message comes back: after a \<^verbatim>\<open>Nack\<close> the next fetch of the group that may
  take as many messages as there are leases, at any later time and by any consumer, returns
  the message and leases it to that consumer.
\<close>

theorem Nack_then_Fetch:
  assumes "map_of (b_topics b) (fq_Topic req) = Some t" and "\<not> t_mu t" and "map_of (t_groups t) (fq_Group req) = Some g"
    and "pending_of t (fq_Group req) = []"
    and "log_ok b0 es (t_wal t)" and "group_ok g" and "b0 \<le> committed g" and "window_end g \<le> b0 + length es"
    and "script (t_wal t) = []" and "\<forall>l \<in> snd ` set (g_Leases g). l_Redeliveries l < MaxRedeliveries (b_cfg b)"
    and "map_of (g_Leases g) off = Some l" and "\<not> l_Acked l" and "now < now'"
    and "length (g_Leases g) \<le> unat (fq_MaxMessages req)"
  shows "\<exists>b1 msgs b2 g2 l2. Nack (fq_Topic req) (fq_Group req) off now b = Some (Inr (), b1) \<and>
    Fetch req now' b1 = Some (Inr (Returned msgs), b2) \<and>
    message_of (record_of (es ! (unat off - b0))) \<in> set msgs \<and>
    group_of b2 (fq_Topic req) (fq_Group req) = Some g2 \<and> map_of (g_Leases g2) off = Some l2 \<and>
    l_ConsumerID l2 = fq_ConsumerID req \<and> \<not> l_Acked l2"
proof -
  let ?tn = "fq_Topic req" and ?gn = "fq_Group req"
  let ?g1 = "put_lease off (l\<lparr>l_Expiry := now\<rparr>) g"
  let ?t1 = "t\<lparr>t_groups := AList.update ?gn ?g1 (t_groups t)\<rparr>"
  let ?b1 = "set_topic ?tn ?t1 b"
  have n: "Nack ?tn ?gn off now b = Some (Inr (), ?b1)"
    using Nack_there [OF assms(1-3)] Nack_found_idle [OF assms(1-4)] assms(11,12) by simp
  have keys: "map fst (g_Leases ?g1) = map fst (g_Leases g)"
    using assms(11) by (simp add: put_lease_def AList.update_keys) (metis map_of_eq_None_iff option.distinct(1) set_map)
  have "g_CommittedOffset ?g1 = g_CommittedOffset g" by (simp add: put_lease_def)
  from group_ok_same_keys [OF assms(6) keys this]
  have g1: "group_ok ?g1" "b0 \<le> committed ?g1" "window_end ?g1 \<le> b0 + length es" using assms(7,8) by simp_all
  have look: "map_of (g_Leases ?g1) o' = (if o' = off then Some (l\<lparr>l_Expiry := now\<rparr>) else map_of (g_Leases g) o')" for o'
    by (simp add: put_lease_def AList.update_conv')
  have few: "\<forall>off' l'. map_of (g_Leases ?g1) off' = Some l' \<longrightarrow> is_expired now' l' \<longrightarrow> l_Redeliveries l' < MaxRedeliveries (b_cfg ?b1)"
    using assms(10,11) by (auto simp: look split: if_splits dest!: map_of_SomeD)
  have t1: "map_of (b_topics ?b1) ?tn = Some ?t1" "\<not> t_mu ?t1" "map_of (t_groups ?t1) ?gn = Some ?g1" "log_ok b0 es (t_wal ?t1)"
      "script (t_wal ?t1) = []"
    using assms(2,5,9) by (simp_all add: AList.update_conv')
  let ?offs = "due now' (fq_MaxMessages req) (b0 + length es) ?g1"
  have d: "distinct (map fst (g_Leases ?g1))" using g1(1) by (simp add: group_ok_def)
  have "off \<in> set (expired_offsets now' ?g1)"
    using expired_offsets_set [OF d, of off now'] assms(12,13) look by (simp add: is_expired_def)
  moreover have "length (expired_offsets now' ?g1) \<le> unat (fq_MaxMessages req)"
  proof -
    have "length (expired_offsets now' ?g1) \<le> length (map fst (g_Leases ?g1))" by (simp add: expired_offsets_def)
    then show ?thesis unfolding keys using assms(14) by simp
  qed
  ultimately have off: "off \<in> set ?offs" by (simp add: due_def)
  then have ne: "?offs \<noteq> []" by auto
  obtain q b2 t2 g2 where f: "Fetch req now' ?b1 = Some (Inr q, b2)" "map_of (b_topics b2) ?tn = Some t2"
    "map_of (t_groups t2) ?gn = Some g2" "q = Returned (map (msg_at b0 es) ?offs)"
    "\<forall>off \<in> set ?offs. \<exists>l. map_of (g_Leases g2) off = Some l \<and> l_ConsumerID l = fq_ConsumerID req \<and>
        l_Expiry l = now' + ack_timeout (b_cfg ?b1) req \<and> \<not> l_Acked l"
    using Fetch_run [OF t1(1-4) g1 few t1(5)] ne unfolding Let_def by (auto simp del: set_topic_simps)
  have "msg_at b0 es off \<in> set (map (msg_at b0 es) ?offs)" using off by simp
  moreover have "group_of b2 ?tn ?gn = Some g2" using f(2,3) by (simp add: group_of_def)
  ultimately show ?thesis using n f(1,4,5) off unfolding msg_at_def by blast
qed

theorem Nack_then_Fetch_witness:
  "\<exists>b1 msgs b2. Nack ''t'' ''g'' 0 40 leased_broker = Some (Inr (), b1) \<and> Fetch poll 41 b1 = Some (Inr (Returned msgs), b2) \<and>
    message_of (record_of sample_entry) \<in> set msgs"
proof -
  have t: "map_of (b_topics leased_broker) (fq_Topic poll) = Some leased_topic" "\<not> t_mu leased_topic"
    "map_of (t_groups leased_topic) (fq_Group poll) = Some leased_group" "pending_of leased_topic (fq_Group poll) = []"
    "log_ok 0 [sample_entry] (t_wal leased_topic)" "script (t_wal leased_topic) = []"
    by (simp_all add: sample_log_ok leased_topic_def sample_topic_def pending_of_def) (simp add: sample_log_def)
  have g: "0 \<le> committed leased_group" "window_end leased_group \<le> 0 + length [sample_entry]"
    "\<forall>l \<in> snd ` set (g_Leases leased_group). l_Redeliveries l < MaxRedeliveries (b_cfg leased_broker)"
    "map_of (g_Leases leased_group) 0 = Some (new_lease 0 ''c1'' 50)" "\<not> l_Acked (new_lease 0 ''c1'' 50)"
    "length (g_Leases leased_group) \<le> unat (fq_MaxMessages poll)" "(40 :: int) < 41"
    by (simp_all add: DefaultConfig_def)
  from Nack_then_Fetch [OF t(1-5) leased_group_ok g(1,2) t(6) g(3-5,7,6)] show ?thesis by auto
qed

text \<open>
  C36: with a fetch of the group waiting a rejected message is handed to it at once, whatever
  the number of its deliveries: the redelivery limit of the configuration is not consulted,
  and the count grows beyond it.
\<close>

theorem Nack_ignores_redelivery_limit:
  assumes "map_of (b_topics b) tn = Some t" and "\<not> t_mu t" and "map_of (t_groups t) gn = Some g"
    and "pending_of t gn = pf # pfs" and "log_ok b0 es (t_wal t)" and "script (t_wal t) = []"
    and "map_of (g_Leases g) off = Some l" and "\<not> l_Acked l" and "b0 \<le> unat off" and "unat off < b0 + length es"
    and "b_chans b (pf_id pf) = None" and "MaxRedeliveries (b_cfg b) \<le> l_Redeliveries l"
  shows "\<exists>b' g' l'. Nack tn gn off now b = Some (Inr (), b') \<and>
    b_chans b' (pf_id pf) = Some [message_of (record_of (es ! (unat off - b0)))] \<and>
    group_of b' tn gn = Some g' \<and> map_of (g_Leases g') off = Some l' \<and>
    l_ConsumerID l' = pf_ConsumerID pf \<and> MaxRedeliveries (b_cfg b') < l_Redeliveries l'"
proof -
  let ?t = "handed_over gn pf pfs off now l g t" and ?l = "release (pf_ConsumerID pf) (now + pf_AckTimeout pf) l"
  let ?b = "set_topic tn ?t b" and ?i = "unat off - b0"
  have i: "?i < length es" "of_nat (b0 + ?i) = off" using assms(9,10) by simp_all
  have "t_wal ?t = t_wal t" by (simp add: handed_over_def set_pending_def)
  then have "Read off (t_wal ?t) = (Inr (record_of (es ! ?i)), t_wal ?t)"
    using reads_Nil [OF Read_reads [OF assms(5) i(1)] assms(6)] unfolding i(2) by simp
  then have rd: "try_loop (in_topic tn (run (in_wal (Read off)))) ?b = Some (Inr (Inr (record_of (es ! ?i))), ?b)"
    by (intro try_loop_Inr in_topic_same [of _ _ ?t]) (simp_all add: run_def in_wal_def)
  have n: "Nack tn gn off now b = Some (Inr (), try_send (pf_id pf) [message_of (record_of (es ! ?i))] ?b)"
    unfolding Nack_there [OF assms(1-3)] assms(7) option.case if_not_P [OF assms(8)] Nack_found_waiting [OF assms(1-4)]
    by (subst loop_step, rule rd) (simp add: run_def modify_def)
  have g': "group_of (try_send ch msgs ?b) tn gn = Some (put_lease off ?l g)" for ch msgs
    by (simp add: group_of_def try_send_def handed_over_def set_pending_def AList.update_conv' split: option.splits)
  have "b_chans (try_send (pf_id pf) msgs ?b) (pf_id pf) = Some msgs" "b_cfg (try_send (pf_id pf) msgs ?b) = b_cfg b" for msgs
    using assms(11) by (simp_all add: try_send_def split: option.splits)
  then show ?thesis using n g' assms(12)
    by (intro exI [of _ "try_send (pf_id pf) [message_of (record_of (es ! ?i))] ?b"] exI [of _ "put_lease off ?l g"] exI [of _ ?l])
      (simp add: map_of_put_lease)
qed

definition exhausted_group :: ConsumerGroup where
  "exhausted_group = leased_group\<lparr>g_Leases := [(0, (new_lease 0 ''c1'' 50)\<lparr>l_Redeliveries := 5\<rparr>)]\<rparr>"

definition exhausted_topic :: Topic where
  "exhausted_topic = leased_topic\<lparr>t_groups := [(''g'', exhausted_group)],
     t_pending := [(''g'', [\<lparr>pf_id = 0, pf_ConsumerID = ''c2'', pf_MaxMessages = 1, pf_AckTimeout = 10, pf_Expiry = 900\<rparr>])]\<rparr>"

definition exhausted_broker :: Broker where
  "exhausted_broker = leased_broker\<lparr>b_topics := [(''t'', exhausted_topic)]\<rparr>"

lemma exhausted_simps [simp]:
  "map_of (b_topics exhausted_broker) ''t'' = Some exhausted_topic" "\<not> t_mu exhausted_topic"
  "map_of (t_groups exhausted_topic) ''g'' = Some exhausted_group"
  "t_wal exhausted_topic = sample_log" "b_cfg exhausted_broker = DefaultConfig" "b_chans exhausted_broker 0 = None"
  "g_Leases exhausted_group = [(0, (new_lease 0 ''c1'' 50)\<lparr>l_Redeliveries := 5\<rparr>)]" "committed exhausted_group = 0"
  "group_of exhausted_broker ''t'' ''g'' = Some exhausted_group" "script sample_log = []"
  by (simp_all add: exhausted_broker_def exhausted_topic_def exhausted_group_def leased_broker_def sample_broker_def
      leased_topic_def sample_topic_def world.defs group_of_def leased_group_def committed_def new_group_def)
    (simp add: sample_log_def)

theorem Nack_ignores_redelivery_limit_witness:
  "\<exists>b' g' l'. Nack ''t'' ''g'' 0 40 exhausted_broker = Some (Inr (), b') \<and>
    b_chans b' 0 = Some [message_of (record_of sample_entry)] \<and>
    group_of b' ''t'' ''g'' = Some g' \<and> map_of (g_Leases g') 0 = Some l' \<and>
    l_ConsumerID l' = ''c2'' \<and> MaxRedeliveries (b_cfg b') < l_Redeliveries l'"
proof -
  let ?pf = "\<lparr>pf_id = 0, pf_ConsumerID = ''c2'', pf_MaxMessages = 1, pf_AckTimeout = 10, pf_Expiry = 900\<rparr>"
  have p: "pending_of exhausted_topic ''g'' = [?pf]" by (simp add: exhausted_topic_def pending_of_def)
  have ok: "log_ok 0 [sample_entry] (t_wal exhausted_topic)" by (simp add: sample_log_ok)
  show ?thesis
    using Nack_ignores_redelivery_limit [OF exhausted_simps(1-3) p ok, of 0 "(new_lease 0 ''c1'' 50)\<lparr>l_Redeliveries := 5\<rparr>" 40]
    by (simp add: DefaultConfig_def new_lease_def)
qed




text \<open>
  C33: a dead letter can be lost: when the first system call on the directory of a dead-letter
  topic that is not open fails, the message is not stored anywhere else, no error is
  reported, and the lease is settled all the same, so the window moves over the message.
\<close>

theorem dead_letter_lost_on_error:
  assumes "map_of (b_topics b) tn = Some t" and "log_ok b0 es (t_wal t)" and "script (t_wal t) = []"
    and "group_of b tn gn = Some g" and "group_ok g" and "map_of (g_Leases g) off = Some l" and "unat off = committed g"
    and "b0 \<le> unat off" and "unat off < b0 + length es"
    and "map_of (b_topics b) (tn @ ''-dlq'') = None" and "script (td_wal (dir_of b (tn @ ''-dlq''))) = Fault n text # y"
  shows "\<exists>b' g'. to_dlq tn gn off now b = Some (Inr (), b') \<and> map_of (b_topics b') (tn @ ''-dlq'') = None \<and>
    files (td_wal (dir_of b' (tn @ ''-dlq''))) = files (td_wal (dir_of b (tn @ ''-dlq''))) \<and>
    group_of b' tn gn = Some g' \<and> committed g < committed g'"
proof -
  let ?e = "es ! (unat off - b0)" and ?dlq = "tn @ ''-dlq''"
  let ?td = "td_wal (dir_of b ?dlq)" and ?cfg = "b_cfg b"
  let ?w = "(new_wal (SyncEveryWrite ?cfg) (SyncInterval ?cfg) (MaxSegmentBytes ?cfg) ?td)\<lparr>script := y\<rparr>"
  let ?b = "left_behind ?dlq ?w (td_states (dir_of b ?dlq)) b"
  have i: "unat off - b0 < length es" "unat off = b0 + (unat off - b0)" using assms(8,9) by simp_all
  have "\<exists>e. NewWAL (SyncEveryWrite ?cfg) (SyncInterval ?cfg) (MaxSegmentBytes ?cfg) ?td = Some (Inl e, ?w) \<and> e \<noteq> Panic"
    using assms(11) by (simp add: NewWAL_def then_loop_def run_def wrap_error_def sys_mkdir_all_def syscall_def and_then_def
        next_outcome_def new_wal_def fail_def world.defs)
  then obtain e where e: "Produce ?dlq (e_Key ?e) (e_Value ?e) now b = Some (Inl e, ?b)" "e \<noteq> Panic"
    using assms(10) by (auto simp: Produce_def then_loop_def CreateTopic_def Let_def)
  obtain t' g' where r: "to_dlq tn gn off now b = Some (Inr (), set_topic tn t' ?b)" "map_of (t_groups t') gn = Some g'"
    "let ls = (leases_list g)[unat off - committed g := l\<lparr>l_Acked := True\<rparr>] in
       committed g' = committed g + length (takeWhile l_Acked ls) \<and> leases_list g' = dropWhile l_Acked ls"
    using to_dlq_run [OF assms(1,3,2) i assms(4-6) e(1)] e(2) by auto
  have "g_Leases g \<noteq> []" using assms(6) by auto
  then have "leases_list g \<noteq> []" by (metis length_0_conv length_leases_list)
  then have "committed g < committed g'" using r(3) assms(7) by (cases "leases_list g") (simp_all add: Let_def)
  moreover have "map_of (b_topics (set_topic tn t' ?b)) ?dlq = None" using assms(10) by (simp add: left_behind_def)
  moreover have "files (td_wal (dir_of (set_topic tn t' ?b) ?dlq)) = files ?td"
    by (simp add: dir_of_def set_topic_def left_behind_def AList.update_conv' new_wal_def world.defs)
  moreover have "group_of (set_topic tn t' ?b) tn gn = Some g'" using r(2) by (simp add: group_of_def)
  ultimately show ?thesis using r(1) by blast
qed

definition faulty_broker :: Broker where
  "faulty_broker = exhausted_broker\<lparr>b_dirs := [(''t-dlq'',
     \<lparr>td_wal = \<lparr>files = [], durable = [], script = [Fault 0 ''no space left on device'']\<rparr>, td_states = []\<rparr>)]\<rparr>"

theorem dead_letter_lost_on_error_witness:
  "\<exists>b' g'. to_dlq ''t'' ''g'' 0 60 faulty_broker = Some (Inr (), b') \<and> map_of (b_topics b') ''t-dlq'' = None \<and>
    files (td_wal (dir_of b' ''t-dlq'')) = [] \<and> group_of b' ''t'' ''g'' = Some g' \<and> 0 < committed g'"
proof -
  have td: "td_wal (dir_of faulty_broker (''t'' @ ''-dlq'')) =
      \<lparr>files = [], durable = [], script = [Fault 0 ''no space left on device'']\<rparr>"
    by (simp add: dir_of_def faulty_broker_def)
  have t: "map_of (b_topics faulty_broker) ''t'' = Some exhausted_topic" "map_of (b_topics faulty_broker) (''t'' @ ''-dlq'') = None"
    "log_ok 0 [sample_entry] (t_wal exhausted_topic)" "script (t_wal exhausted_topic) = []"
    "group_of faulty_broker ''t'' ''g'' = Some exhausted_group"
    "script (td_wal (dir_of faulty_broker (''t'' @ ''-dlq''))) = Fault 0 ''no space left on device'' # []"
    unfolding td by (simp_all add: sample_log_ok) (simp_all add: faulty_broker_def exhausted_broker_def group_of_def)
  have g: "group_ok exhausted_group" "map_of (g_Leases exhausted_group) 0 = Some ((new_lease 0 ''c1'' 50)\<lparr>l_Redeliveries := 5\<rparr>)"
    by (simp_all add: group_ok_def window_end_def)
  from dead_letter_lost_on_error [OF t(1,3,4,5) g _ _ _ t(2,6), of 60, unfolded td] show ?thesis by simp
qed

text \<open>
  The scan of \<^verbatim>\<open>checkExpiredLeases\<close> over the leases, in whatever order the map gives them,
  finds the least expired offset, and nothing exactly when no lease is expired.
\<close>

theorem first_expired_is_least:
  "first_expired now g =
    (if expired_offsets now g = [] then None else Some (Min (set (expired_offsets now g))))"
proof -
  have "foldl (\<lambda>found (off, l). if is_expired now l
       then (case found of None \<Rightarrow> Some off | Some e \<Rightarrow> if off < e then Some off else found)
       else found) None xs =
    (let es = map fst (filter (\<lambda>(off, l). is_expired now l) xs) in if es = [] then None else Some (Min (set es)))"
    for xs :: "(u64 \<times> LeaseState) list"
  proof (induction xs)
    case (Cons x xs)
    obtain off l where x: "x = (off, l)" by (cases x) auto
    have "set (map fst (filter (\<lambda>(off, l). is_expired now l) xs)) = fst ` {x \<in> set xs. is_expired now (snd x)}" by force
    then show ?case using Cons first_expired_fold [of now off xs] x by (simp add: Let_def)
  qed simp
  then show ?thesis by (simp add: first_expired_def expired_offsets_def Let_def)
qed

end

