(* ===== verification/Client.thy ===== *)
theory Client
  imports Protocol Wal
begin

text \<open>
  The client library, \<^verbatim>\<open>pkg/client/client.go\<close>: the address it dials, and the calls, each a
  request frame written and a response frame read on the client's connection.
\<close>

section \<open>Addresses\<close>

text \<open>\<^verbatim>\<open>strings.HasPrefix\<close>, the index of the first and of the last occurrence of a character.\<close>

definition HasPrefix :: "string \<Rightarrow> string \<Rightarrow> bool" where
  "HasPrefix s p \<longleftrightarrow> take (length p) s = p"

definition IndexByte :: "string \<Rightarrow> char \<Rightarrow> nat option" where
  "IndexByte s c = (if c \<in> set s then Some (length (takeWhile (\<lambda>x. x \<noteq> c) s)) else None)"

definition LastIndexByte :: "string \<Rightarrow> char \<Rightarrow> nat option" where
  "LastIndexByte s c = (if c \<in> set s then Some (length s - 1 - length (takeWhile (\<lambda>x. x \<noteq> c) (rev s))) else None)"

text \<open>
  \<^verbatim>\<open>net.SplitHostPort\<close> of the standard library: the port starts after the last colon, an
  address with colons in its host has it in brackets.
\<close>

definition addr_error :: "string \<Rightarrow> string \<Rightarrow> (string \<times> string) result" where
  "addr_error addr why = Inl (Errorf (''address '' @ addr @ '': '' @ why))"

definition split_port :: "string \<Rightarrow> nat \<Rightarrow> string \<Rightarrow> nat \<Rightarrow> nat \<Rightarrow> (string \<times> string) result" where
  "split_port hostport i host j k =
     (if CHR ''['' \<in> set (drop j hostport) then addr_error hostport ''unexpected '[' in address''
      else if CHR '']'' \<in> set (drop k hostport) then addr_error hostport ''unexpected ']' in address''
      else Inr (host, drop (i + 1) hostport))"

definition SplitHostPort :: "string \<Rightarrow> (string \<times> string) result" where
  "SplitHostPort hostport =
     (case LastIndexByte hostport CHR '':'' of
        None \<Rightarrow> addr_error hostport ''missing port in address''
      | Some i \<Rightarrow>
          if hostport ! 0 = CHR ''['' then
            (case IndexByte hostport CHR '']'' of
               None \<Rightarrow> addr_error hostport ''missing ']' in address''
             | Some e \<Rightarrow>
                 if e + 1 = length hostport then addr_error hostport ''missing port in address''
                 else if e + 1 = i then split_port hostport i (take (e - 1) (drop 1 hostport)) 1 (e + 1)
                 else if hostport ! (e + 1) = CHR '':'' then addr_error hostport ''too many colons in address''
                 else addr_error hostport ''missing port in address'')
          else if CHR '':'' \<in> set (take i hostport) then addr_error hostport ''too many colons in address''
          else split_port hostport i (take i hostport) 0 0)"

definition normalizeAddr :: "string \<Rightarrow> string \<Rightarrow> string" where
  "normalizeAddr addr defaultPort =
     (if addr = '''' then ''localhost'' @ defaultPort
      else if HasPrefix addr '':'' then ''localhost'' @ addr
      else
        (case SplitHostPort addr of
           Inl _ \<Rightarrow>
             if CHR '':'' \<in> set addr \<and> CHR ''['' \<notin> set addr then ''['' @ addr @ '']'' @ defaultPort
             else addr @ defaultPort
         | Inr _ \<Rightarrow> addr))"

section \<open>The connection\<close>

text \<open>
  The client's end of a TCP connection: its writing side, and the bytes the broker has sent
  or will still send, after which it closes. A nil connection panics.
\<close>

record Link =
  lk_out :: Writer
  lk_in :: "byte list"
  lk_closed :: bool

record Client =
  cl_addr :: string
  cl_conn :: "Link option"
  cl_reqID :: u32

definition NewClient :: "string \<Rightarrow> Client" where
  "NewClient addr = \<lparr>cl_addr = addr, cl_conn = None, cl_reqID = 0\<rparr>"

text \<open>\<open>dial\<close> is \<^verbatim>\<open>net.Dial("tcp", _)\<close>.\<close>

definition Connect :: "(string \<Rightarrow> Link result) \<Rightarrow> (Client, unit) prog" where
  "Connect dial =
     and_then (gets (\<lambda>c. dial (normalizeAddr (cl_addr c) '':8765''))) (\<lambda>conn.
     case conn of Inl err \<Rightarrow> fail err | Inr lk \<Rightarrow> modify (\<lambda>c. c\<lparr>cl_conn := Some lk\<rparr>))"

definition closed_error :: go_error where
  "closed_error = OsError ''use of closed network connection''"

definition Client_Close :: "(Client, unit) prog" where
  "Client_Close =
     and_then (gets cl_conn) (\<lambda>conn.
     case conn of
       None \<Rightarrow> ret ()
     | Some lk \<Rightarrow>
         if lk_closed lk then fail closed_error else modify (\<lambda>c. c\<lparr>cl_conn := Some (lk\<lparr>lk_closed := True\<rparr>)\<rparr>))"

definition link_write :: "Frame \<Rightarrow> (Client, unit) prog" where
  "link_write f =
     and_then (gets cl_conn) (\<lambda>conn.
     case conn of
       None \<Rightarrow> fail Panic
     | Some lk \<Rightarrow>
         if lk_closed lk then fail closed_error
         else (case WriteFrame (lk_out lk) f of
                 (r, w) \<Rightarrow> and_then (modify (\<lambda>c. c\<lparr>cl_conn := Some (lk\<lparr>lk_out := w\<rparr>)\<rparr>)) (\<lambda>_. of_result r)))"

definition link_read :: "(Client, Frame) prog" where
  "link_read =
     and_then (gets cl_conn) (\<lambda>conn.
     case conn of
       None \<Rightarrow> fail Panic
     | Some lk \<Rightarrow>
         if lk_closed lk then fail closed_error
         else (case ReadFrame (lk_in lk) of
                 (r, rest) \<Rightarrow> and_then (modify (\<lambda>c. c\<lparr>cl_conn := Some (lk\<lparr>lk_in := rest\<rparr>)\<rparr>)) (\<lambda>_. of_result r)))"

section \<open>Calls\<close>

text \<open>\<^verbatim>\<open>if err != nil { return fmt.Errorf("...: %w", err) }\<close>; a panic is not an error.\<close>

definition wrapf :: "string \<Rightarrow> ('s, 'a) prog \<Rightarrow> ('s, 'a) prog" where
  "wrapf t m s =
     (case m s of
        (Inl err, s') \<Rightarrow> (Inl (if err = Panic then Panic else Wrapped t err), s')
      | (Inr a, s') \<Rightarrow> (Inr a, s'))"

text \<open>\<^verbatim>\<open>%02x\<close> of a byte.\<close>

definition hex2 :: "byte \<Rightarrow> string" where
  "hex2 b = [''0123456789abcdef'' ! (unat b div 16), ''0123456789abcdef'' ! (unat b mod 16)]"

definition nextReqID :: "(Client, u32) prog" where
  "nextReqID = and_then (modify (\<lambda>c. c\<lparr>cl_reqID := cl_reqID c + 1\<rparr>)) (\<lambda>_. gets cl_reqID)"

definition execute :: "byte \<Rightarrow> byte list \<Rightarrow> (Client, Frame) prog" where
  "execute reqType body =
     and_then nextReqID (\<lambda>reqID.
     let reqFrame = \<lparr>f_Type = reqType, f_ReqID = reqID, f_Length = of_nat (length body), f_Body = body\<rparr> in
     and_then (wrapf ''failed to write frame'' (link_write reqFrame)) (\<lambda>_.
     and_then (wrapf ''failed to read frame'' link_read) (\<lambda>respFrame.
     if f_Type respFrame = TypeRespError then
       and_then (wrapf ''error response unmarshal failed'' (of_result (UnmarshalErrorResponse (f_Body respFrame)))) (\<lambda>errResp.
       fail (Errorf (''broker error (code '' @ decimal (unat (er_Code errResp)) @ ''): '' @ er_Message errResp)))
     else ret respFrame)))"

text \<open>The test of the response's type every call makes.\<close>

definition expect :: "byte \<Rightarrow> Frame \<Rightarrow> (Client, unit) prog" where
  "expect t resp = (if f_Type resp \<noteq> t then fail (Errorf (''unexpected response type: 0x'' @ hex2 (f_Type resp))) else ret ())"

text \<open>The latency \<^verbatim>\<open>Ping\<close> measures is left out.\<close>

definition Client_Ping :: "(Client, unit) prog" where
  "Client_Ping = and_then (execute TypeReqPing []) (\<lambda>resp. expect TypeRespPong resp)"

definition Client_CreateTopic :: "string \<Rightarrow> (Client, unit) prog" where
  "Client_CreateTopic topic =
     and_then (of_result (Marshal_CreateTopicRequest \<lparr>ct_Topic = topic\<rparr>)) (\<lambda>body.
     and_then (execute TypeReqCreateTopic body) (\<lambda>resp. expect TypeRespCreateTopic resp))"

definition Client_Produce :: "string \<Rightarrow> byte list \<Rightarrow> byte list \<Rightarrow> (Client, u64) prog" where
  "Client_Produce topic key val =
     and_then (of_result (Marshal_ProduceRequest \<lparr>pr_Topic = topic, pr_Key = key, pr_Value = val\<rparr>)) (\<lambda>body.
     and_then (execute TypeReqProduce body) (\<lambda>resp.
     and_then (expect TypeRespProduce resp) (\<lambda>_.
     and_then (wrapf ''failed to unmarshal produce response'' (of_result (UnmarshalProduceResponse (f_Body resp)))) (\<lambda>prodResp.
     ret (prs_Offset prodResp)))))"

definition Client_Fetch :: "FetchRequest \<Rightarrow> (Client, Message list) prog" where
  "Client_Fetch req =
     and_then (of_result (Marshal_FetchRequest req)) (\<lambda>body.
     and_then (execute TypeReqFetch body) (\<lambda>resp.
     and_then (expect TypeRespFetch resp) (\<lambda>_.
     and_then (wrapf ''failed to unmarshal fetch response'' (of_result (UnmarshalFetchResponse (f_Body resp)))) (\<lambda>fetchResp.
     ret (fr_Messages fetchResp)))))"

definition Client_Ack :: "string \<Rightarrow> string \<Rightarrow> u64 \<Rightarrow> (Client, unit) prog" where
  "Client_Ack topic grp offset =
     and_then (of_result (Marshal_AckRequest \<lparr>ar_Topic = topic, ar_Group = grp, ar_Offset = offset\<rparr>)) (\<lambda>body.
     and_then (execute TypeReqAck body) (\<lambda>resp. expect TypeRespAck resp))"

definition Client_Nack :: "string \<Rightarrow> string \<Rightarrow> u64 \<Rightarrow> (Client, unit) prog" where
  "Client_Nack topic grp offset =
     and_then (of_result (Marshal_NackRequest \<lparr>nr_Topic = topic, nr_Group = grp, nr_Offset = offset\<rparr>)) (\<lambda>body.
     and_then (execute TypeReqNack body) (\<lambda>resp. expect TypeRespNack resp))"

definition Client_ListTopics :: "(Client, string list) prog" where
  "Client_ListTopics =
     and_then (execute TypeReqListTopics []) (\<lambda>resp.
     and_then (expect TypeRespListTopics resp) (\<lambda>_.
     and_then (wrapf ''failed to unmarshal list topics response'' (of_result (UnmarshalListTopicsResponse (f_Body resp)))) (\<lambda>listResp.
     ret (lt_Topics listResp))))"

end
