(* ===== verification/Client_Addr.thy ===== *)
theory Client_Addr
  imports Client
begin

text \<open>
  What \<^verbatim>\<open>normalizeAddr\<close> of \<^verbatim>\<open>pkg/client/client.go\<close> makes of an address, as \<^verbatim>\<open>net.SplitHostPort\<close>
  reads it.
\<close>

section \<open>Splitting\<close>

lemma takeWhile_split: "c \<notin> set h \<Longrightarrow> takeWhile (\<lambda>x. x \<noteq> c) (h @ c # p) = h"
  by (induction h) auto

lemma takeWhile_rev: "c \<notin> set p \<Longrightarrow> takeWhile (\<lambda>x. x \<noteq> c) (rev (h @ c # p)) = rev p"
  using takeWhile_split [of c "rev p" "rev h"] by simp

lemma LastIndexByte_split: "c \<notin> set p \<Longrightarrow> LastIndexByte (h @ c # p) c = Some (length h)"
  using takeWhile_rev [of c p h] by (simp add: LastIndexByte_def)

lemma LastIndexByte_none: "c \<notin> set s \<Longrightarrow> LastIndexByte s c = None"
  by (simp add: LastIndexByte_def)

lemma IndexByte_split: "c \<notin> set h \<Longrightarrow> IndexByte (h @ c # p) c = Some (length h)"
  by (simp add: IndexByte_def takeWhile_split)

lemma last_colon:
  assumes "CHR '':'' \<in> set s"
  obtains h p where "s = h @ CHR '':'' # p" and "CHR '':'' \<notin> set p"
  using split_list_last [OF assms] by blast

lemma SplitHostPort_plain:
  assumes "CHR '':'' \<notin> set p" and "h \<noteq> [] \<Longrightarrow> hd h \<noteq> CHR ''[''"
  shows "SplitHostPort (h @ CHR '':'' # p) =
    (if CHR '':'' \<in> set h then addr_error (h @ CHR '':'' # p) ''too many colons in address''
     else split_port (h @ CHR '':'' # p) (length h) h 0 0)"
proof -
  have "(h @ CHR '':'' # p) ! 0 \<noteq> CHR ''[''" using assms(2) by (cases h) simp_all
  then show ?thesis using LastIndexByte_split [OF assms(1), of h] by (simp add: SplitHostPort_def)
qed

lemma SplitHostPort_host_port:
  assumes "CHR '':'' \<notin> set h" and "CHR '':'' \<notin> set p" and "set (h @ p) \<inter> {CHR ''['', CHR '']''} = {}"
  shows "SplitHostPort (h @ CHR '':'' # p) = Inr (h, p)"
proof -
  have "h \<noteq> [] \<Longrightarrow> hd h \<noteq> CHR ''[''" using assms(3) by (cases h) auto
  from SplitHostPort_plain [OF assms(2) this] show ?thesis using assms(1,3) by (auto simp: split_port_def)
qed

lemma SplitHostPort_bracketed:
  assumes "set a \<inter> {CHR ''['', CHR '']''} = {}" and "set p \<inter> {CHR '':'', CHR ''['', CHR '']''} = {}"
  shows "SplitHostPort (''['' @ a @ '']'' @ '':'' @ p) = Inr (a, p)"
proof -
  let ?s = "''['' @ a @ '']'' @ '':'' @ p"
  have i: "LastIndexByte ?s CHR '':'' = Some (length a + 2)"
    using LastIndexByte_split [of "CHR '':''" p "''['' @ a @ '']''"] assms(2) by simp
  have e: "IndexByte ?s CHR '']'' = Some (length a + 1)"
    using IndexByte_split [of "CHR '']''" "''['' @ a" "CHR '':'' # p"] assms(1) by simp
  have d: "drop (length a + 2) ?s = CHR '':'' # p" "drop (length a + 3) ?s = p" by (simp_all add: drop_Cons')
  have "split_port ?s (length a + 2) a 1 (length a + 2) = Inr (a, p)"
    using assms d by (auto simp: split_port_def)
  then show ?thesis by (simp add: SplitHostPort_def i [simplified] e [simplified])
qed

section \<open>Properties\<close>

text \<open>
  C38: what \<^verbatim>\<open>Connect\<close> dials for an address without brackets: a missing host is \<^verbatim>\<open>localhost\<close>, a
  missing port 8765, an IPv6 address is put in brackets; but one that begins with a colon,
  as \<^verbatim>\<open>::1\<close> does, is taken for a port and becomes an address that cannot be dialled.
\<close>

theorem normalizeAddr_dials:
  assumes "CHR ''['' \<notin> set addr" and "CHR '']'' \<notin> set addr"
  shows "SplitHostPort (normalizeAddr addr '':8765'') =
    (if addr = [] then Inr (''localhost'', ''8765'')
     else if hd addr = CHR '':'' then
       (if CHR '':'' \<in> set (tl addr) then addr_error (''localhost'' @ addr) ''too many colons in address''
        else Inr (''localhost'', tl addr))
     else if length (filter (\<lambda>c. c = CHR '':'') addr) = 1
     then (let host = takeWhile (\<lambda>c. c \<noteq> CHR '':'') addr in Inr (host, drop (length host + 1) addr))
     else Inr (addr, ''8765''))"
proof -
  have port: "set ''8765'' \<inter> {CHR '':'', CHR ''['', CHR '']''} = {}" by simp
  consider (empty) "addr = []" | (colon) p where "addr = CHR '':'' # p" | (bare) "addr \<noteq> []" "CHR '':'' \<notin> set addr"
    | (host) h p where "addr = h @ CHR '':'' # p" "CHR '':'' \<notin> set p" "h \<noteq> []" "hd h \<noteq> CHR '':''"
  proof (cases "addr = [] \<or> hd addr = CHR '':'' \<or> CHR '':'' \<notin> set addr")
    case True
    then show ?thesis using empty colon [of "tl addr"] bare by (cases addr) auto
  next
    case False
    then obtain h p where "addr = h @ CHR '':'' # p" "CHR '':'' \<notin> set p" using last_colon [of addr] by auto
    with False show ?thesis using host [of h p] by (cases h) auto
  qed
  then show ?thesis
  proof cases
    case empty
    then show ?thesis using SplitHostPort_host_port [of "''localhost''" "''8765''"] by (simp add: normalizeAddr_def)
  next
    case colon
    then have n: "normalizeAddr addr '':8765'' = ''localhost'' @ CHR '':'' # p" by (simp add: normalizeAddr_def HasPrefix_def)
    show ?thesis
    proof (cases "CHR '':'' \<in> set p")
      case True
      then obtain h q where q: "p = h @ CHR '':'' # q" "CHR '':'' \<notin> set q" by (rule last_colon)
      have "SplitHostPort ((''localhost'' @ CHR '':'' # h) @ CHR '':'' # q) =
          addr_error ((''localhost'' @ CHR '':'' # h) @ CHR '':'' # q) ''too many colons in address''"
        using SplitHostPort_plain [OF q(2), of "''localhost'' @ CHR '':'' # h"] by simp
      then show ?thesis using n colon q(1) by simp
    next
      case False
      then have "SplitHostPort (''localhost'' @ CHR '':'' # p) = Inr (''localhost'', p)"
        using assms colon by (intro SplitHostPort_host_port) auto
      then show ?thesis using n colon False by simp
    qed
  next
    case bare
    then have "SplitHostPort addr = addr_error addr ''missing port in address''"
      by (simp add: SplitHostPort_def LastIndexByte_none)
    then have n: "normalizeAddr addr '':8765'' = addr @ CHR '':'' # ''8765''"
      using bare by (cases addr) (auto simp: normalizeAddr_def HasPrefix_def addr_error_def)
    have "filter (\<lambda>c. c = CHR '':'') addr = []" using bare(2) by (auto simp: filter_empty_conv)
    then show ?thesis using SplitHostPort_host_port [OF bare(2), of "''8765''"] assms bare n by (cases addr) auto
  next
    case host
    then have hd: "hd addr \<noteq> CHR '':''" "addr \<noteq> []" by (simp_all)
    have nb: "h \<noteq> [] \<Longrightarrow> hd h \<noteq> CHR ''[''" using assms(1) host(1) by (cases h) auto
    have pre: "\<not> HasPrefix addr '':''" using host by (cases h) (simp_all add: HasPrefix_def)
    show ?thesis
    proof (cases "CHR '':'' \<in> set h")
      case True
      then have "SplitHostPort addr = addr_error addr ''too many colons in address''"
        using SplitHostPort_plain [OF host(2) nb] host(1) by simp
      then have n: "normalizeAddr addr '':8765'' = ''['' @ addr @ '']'' @ '':'' @ ''8765''"
        using hd(2) pre assms(1) host(1) by (simp add: normalizeAddr_def addr_error_def)
      have "length (filter (\<lambda>c. c = CHR '':'') addr) \<noteq> 1"
        using True host(1) by (auto simp: filter_empty_conv)
      then show ?thesis using SplitHostPort_bracketed [OF _ port, of addr] assms hd n by simp
    next
      case False
      then have s: "SplitHostPort addr = Inr (h, p)"
        using assms host(1,2) SplitHostPort_host_port [of h p] by auto
      then have n: "normalizeAddr addr '':8765'' = addr" using hd(2) pre by (simp add: normalizeAddr_def)
      have "filter (\<lambda>c. c = CHR '':'') h = []" "filter (\<lambda>c. c = CHR '':'') p = []" using False host(2) by (auto simp: filter_empty_conv)
      then have "length (filter (\<lambda>c. c = CHR '':'') addr) = 1" using host(1) by simp
      moreover have "takeWhile (\<lambda>c. c \<noteq> CHR '':'') addr = h" using False host(1) by (simp add: takeWhile_split)
      ultimately show ?thesis using s n hd host(1) by simp
    qed
  qed
qed

theorem normalizeAddr_dials_witness:
  "SplitHostPort (normalizeAddr ''fe80::1'' '':8765'') = Inr (''fe80::1'', ''8765'') \<and>
   SplitHostPort (normalizeAddr ''::1'' '':8765'') = addr_error ''localhost::1'' ''too many colons in address'' \<and>
   SplitHostPort (normalizeAddr ''host'' '':8765'') = Inr (''host'', ''8765'')"
  using normalizeAddr_dials [of "''fe80::1''"] normalizeAddr_dials [of "''::1''"] normalizeAddr_dials [of "''host''"]
  by simp

end
