(* ===== verification/Cli.thy ===== *)
theory Cli
  imports Client
begin

text \<open>
  The command line, \<^verbatim>\<open>cmd/tumbleweed-cli/main.go\<close>: the global flags that may stand anywhere,
  what the \<^verbatim>\<open>flag\<close> package of the standard library makes of the flags, and the commands, from
  their arguments to what they print and the exit code.
\<close>

section \<open>Global flags\<close>

text \<open>The loop of \<^verbatim>\<open>rearrangeArgs\<close>, on the arguments that are left.\<close>

fun rearrange_from :: "string list \<Rightarrow> string list \<Rightarrow> string list \<Rightarrow> string list" where
  "rearrange_from [] globalFlags otherArgs = globalFlags @ otherArgs"
| "rearrange_from (arg # args) globalFlags otherArgs =
     (if arg = ''-addr'' \<or> arg = ''--addr'' then
        (case args of
           v # args' \<Rightarrow> rearrange_from args' (globalFlags @ [arg, v]) otherArgs
         | [] \<Rightarrow> rearrange_from [] (globalFlags @ [arg]) otherArgs)
      else if HasPrefix arg ''-addr='' \<or> HasPrefix arg ''--addr='' then
        rearrange_from args (globalFlags @ [arg]) otherArgs
      else rearrange_from args globalFlags (otherArgs @ [arg]))"

definition rearrangeArgs :: "string list \<Rightarrow> string list" where
  "rearrangeArgs args = rearrange_from args [] []"

section \<open>Integers\<close>

text \<open>
  \<^verbatim>\<open>strconv.ParseInt(s, 0, 64)\<close>, which parses the integer flags: a sign, a prefix that gives
  the base, and digits that underscores may separate. \<open>None\<close> is a syntax or range error.
\<close>

definition lower :: "char \<Rightarrow> nat" where
  "lower c = (let n = of_char c in if 65 \<le> n \<and> n \<le> 90 then n + 32 else n)"

definition digit_in :: "nat \<Rightarrow> char \<Rightarrow> nat option" where
  "digit_in base c =
     (let d = if is_digit c then of_char c - 48
              else if 97 \<le> lower c \<and> lower c \<le> 122 then lower c - 87 else base
      in if d < base then Some d else None)"

fun parse_digits :: "nat \<Rightarrow> string \<Rightarrow> nat \<Rightarrow> nat option" where
  "parse_digits base [] n = Some n"
| "parse_digits base (c # cs) n =
     (if c = CHR ''_'' then parse_digits base cs n
      else
        (case digit_in base c of
           None \<Rightarrow> None
         | Some d \<Rightarrow> if 2 ^ 64 \<le> n * base + d then None else parse_digits base cs (n * base + d)))"

text \<open>
  \<^verbatim>\<open>underscoreOK\<close> behind the base prefix, on characters that are digits of the base or
  underscores; \<open>saw\<close> is what it has seen last, \<^verbatim>\<open>^\<close> at the beginning, a digit or the prefix (\<^verbatim>\<open>0\<close>) or
  an underscore.
\<close>

fun underscore_ok :: "char \<Rightarrow> string \<Rightarrow> bool" where
  "underscore_ok saw [] = (saw \<noteq> CHR ''_'')"
| "underscore_ok saw (c # cs) =
     (if c = CHR ''_'' then saw = CHR ''0'' \<and> underscore_ok CHR ''_'' cs else underscore_ok CHR ''0'' cs)"

text \<open>The base of a number, its digits, and what \<^verbatim>\<open>underscoreOK\<close> has seen before them.\<close>

definition base_prefix :: "string \<Rightarrow> nat \<times> string \<times> char" where
  "base_prefix s =
     (if hd s \<noteq> CHR ''0'' then (10, s, CHR ''^'')
      else if 3 \<le> length s \<and> lower (s ! 1) = of_char (CHR ''b'') then (2, drop 2 s, CHR ''0'')
      else if 3 \<le> length s \<and> lower (s ! 1) = of_char (CHR ''o'') then (8, drop 2 s, CHR ''0'')
      else if 3 \<le> length s \<and> lower (s ! 1) = of_char (CHR ''x'') then (16, drop 2 s, CHR ''0'')
      else (8, drop 1 s, CHR ''0''))"

definition ParseUint0 :: "string \<Rightarrow> nat option" where
  "ParseUint0 s =
     (if s = [] then None
      else
        (case base_prefix s of
           (base, digits, saw) \<Rightarrow>
             (case parse_digits base digits 0 of
                None \<Rightarrow> None
              | Some n \<Rightarrow> if CHR ''_'' \<in> set digits \<and> \<not> underscore_ok saw digits then None else Some n)))"

definition ParseInt0 :: "string \<Rightarrow> int option" where
  "ParseInt0 s =
     (if s = [] then None
      else
        (case ParseUint0 (if hd s = CHR ''+'' \<or> hd s = CHR ''-'' then tl s else s) of
           None \<Rightarrow> None
         | Some n \<Rightarrow>
             if hd s = CHR ''-'' then (if n \<le> 2 ^ 63 then Some (- int n) else None)
             else (if n < 2 ^ 63 then Some (int n) else None)))"

section \<open>The flag package\<close>

text \<open>
  \<^verbatim>\<open>FlagSet.Parse\<close>: the names of the flags with their values, and the arguments behind the
  flags. The name of a flag ends at an \<open>=\<close> that is not its first character. The errors are kept
  as what they say; all of them are printed with the usage and end the process.
\<close>

datatype flag_value = StringFlag string | IntFlag int

datatype flag_error =
    ErrHelp
  | BadFlagSyntax string
  | FlagNotDefined string
  | FlagNeedsArgument string
  | InvalidFlagValue string string

definition flag_name :: "string \<Rightarrow> string \<times> string option" where
  "flag_name name =
     (let n = takeWhile (\<lambda>c. c \<noteq> CHR ''='') (tl name); r = drop (length n) (tl name)
      in (hd name # n, if r = [] then None else Some (tl r)))"

definition undefined_flag :: "string \<Rightarrow> flag_error" where
  "undefined_flag n = (if n = ''help'' \<or> n = ''h'' then ErrHelp else FlagNotDefined n)"

text \<open>\<^verbatim>\<open>Set\<close> of the value of the flag \<open>n\<close>.\<close>

definition set_flag :: "(string \<times> flag_value) list \<Rightarrow> string \<Rightarrow> string \<Rightarrow> flag_error + (string \<times> flag_value) list" where
  "set_flag flags n v =
     (case map_of flags n of
        None \<Rightarrow> Inl (undefined_flag n)
      | Some (StringFlag _) \<Rightarrow> Inr (AList.update n (StringFlag v) flags)
      | Some (IntFlag _) \<Rightarrow>
          (case ParseInt0 v of
             None \<Rightarrow> Inl (InvalidFlagValue v n)
           | Some i \<Rightarrow> Inr (AList.update n (IntFlag i) flags)))"

fun parse_flags :: "(string \<times> flag_value) list \<Rightarrow> string list \<Rightarrow>
    flag_error + ((string \<times> flag_value) list \<times> string list)" where
  "parse_flags flags [] = Inr (flags, [])"
| "parse_flags flags (s # args) =
     (if length s < 2 \<or> s ! 0 \<noteq> CHR ''-'' then Inr (flags, s # args)
      else if s = ''--'' then Inr (flags, args)
      else
        (let name = drop (if s ! 1 = CHR ''-'' then 2 else 1) s
         in if name = [] \<or> hd name = CHR ''-'' \<or> hd name = CHR ''='' then Inl (BadFlagSyntax s)
         else if map_of flags (fst (flag_name name)) = None then Inl (undefined_flag (fst (flag_name name)))
         else
           (case flag_name name of
              (n, Some v) \<Rightarrow>
                (case set_flag flags n v of Inl err \<Rightarrow> Inl err | Inr flags' \<Rightarrow> parse_flags flags' args)
            | (n, None) \<Rightarrow>
                (case args of
                   [] \<Rightarrow> Inl (FlagNeedsArgument n)
                 | v # args' \<Rightarrow>
                     (case set_flag flags n v of Inl err \<Rightarrow> Inl err | Inr flags' \<Rightarrow> parse_flags flags' args')))))"

definition string_flag :: "(string \<times> flag_value) list \<Rightarrow> string \<Rightarrow> string" where
  "string_flag flags n = (case map_of flags n of Some (StringFlag v) \<Rightarrow> v | _ \<Rightarrow> [])"

definition int_flag :: "(string \<times> flag_value) list \<Rightarrow> string \<Rightarrow> int" where
  "int_flag flags n = (case map_of flags n of Some (IntFlag i) \<Rightarrow> i | _ \<Rightarrow> 0)"

text \<open>What \<^verbatim>\<open>main\<close> makes of its arguments: the address, and the command with its arguments.\<close>

definition global_args :: "string list \<Rightarrow> flag_error + (string \<times> string list)" where
  "global_args argv =
     (case parse_flags [(''addr'', StringFlag '':8765'')] (rearrangeArgs argv) of
        Inl err \<Rightarrow> Inl err
      | Inr (flags, args) \<Rightarrow> Inr (string_flag flags ''addr'', args))"

section \<open>Commands\<close>

text \<open>
  What the process prints, line by line, and how it ends. The usage texts and those of the flag
  package are not spelled out. The client is there when the process got as far as to connect.
\<close>

datatype line =
    Stdout string
  | Stderr string
  | Usage
  | CommandUsage string
  | FlagError flag_error
  | InvalidOffset string

record Exit =
  x_code :: int
  x_lines :: "line list"
  x_client :: "Client option"

definition exits :: "int \<Rightarrow> line list \<Rightarrow> Client \<Rightarrow> Exit" where
  "exits code ls c = \<lparr>x_code = code, x_lines = ls, x_client = Some c\<rparr>"

text \<open>
  A call of the client: an error is printed behind \<open>failed\<close> and ends the process with 1, a panic
  with 2. \<^verbatim>\<open>os.Exit\<close> does not run the deferred \<^verbatim>\<open>cli.Close()\<close>; the return from \<^verbatim>\<open>main\<close> does.
\<close>

definition calls :: "(Client, 'a) prog \<Rightarrow> string \<Rightarrow> ('a \<Rightarrow> line list) \<Rightarrow> Client \<Rightarrow> Exit" where
  "calls op failed shown c =
     (case op c of
        (Inl err, c') \<Rightarrow> if err = Panic then exits 2 [] c' else exits 1 [Stderr (failed @ '': '' @ error_text err)] c'
      | (Inr a, c') \<Rightarrow> exits 0 (shown a) (snd (Client_Close c')))"

text \<open>The flags of a command, with \<^verbatim>\<open>flag.ExitOnError\<close>.\<close>

definition with_flags :: "string \<Rightarrow> (string \<times> flag_value) list \<Rightarrow> string list \<Rightarrow>
    ((string \<times> flag_value) list \<Rightarrow> string list \<Rightarrow> Client \<Rightarrow> Exit) \<Rightarrow> Client \<Rightarrow> Exit" where
  "with_flags name flags cmdArgs k c =
     (case parse_flags flags cmdArgs of
        Inl err \<Rightarrow> if err = ErrHelp then exits 0 [CommandUsage name] c else exits 2 [FlagError err, CommandUsage name] c
      | Inr (flags', args) \<Rightarrow> k flags' args c)"

text \<open>A text in single quotes.\<close>

definition quoted :: "string \<Rightarrow> string" where
  "quoted t = CHR 0x27 # t @ [CHR 0x27]"

definition cmd_ping :: "string \<Rightarrow> Client \<Rightarrow> Exit" where
  "cmd_ping latency = calls Client_Ping ''Ping failed'' (\<lambda>_. [Stdout (''Pong! Latency: '' @ latency)])"

definition cmd_create_topic :: "string list \<Rightarrow> Client \<Rightarrow> Exit" where
  "cmd_create_topic cmdArgs =
     (if length cmdArgs < 1 then exits 1 [CommandUsage ''create-topic'']
      else
        (let topic = cmdArgs ! 0
         in calls (Client_CreateTopic topic) (''Error creating topic '' @ quoted topic)
              (\<lambda>_. [Stdout (''Topic '' @ quoted topic @ '' created successfully.'')])))"

definition cmd_produce :: "string list \<Rightarrow> Client \<Rightarrow> Exit" where
  "cmd_produce cmdArgs =
     with_flags ''produce'' [(''key'', StringFlag [])] cmdArgs (\<lambda>flags pArgs.
       if length pArgs < 2 then exits 1 [CommandUsage ''produce'']
       else
         calls (Client_Produce (pArgs ! 0) (bytes_of (string_flag flags ''key'')) (bytes_of (pArgs ! 1)))
           ''Error producing message''
           (\<lambda>offset. [Stdout (''Message produced successfully! Offset: '' @ decimal (unat offset))]))"

text \<open>
  \<open>rnd\<close> is what \<^verbatim>\<open>rand.Intn(100000)\<close> gives, \<open>stamp\<close> formats a time in nanoseconds in the local
  time zone.
\<close>

definition fetch_flags :: "(string \<times> flag_value) list" where
  "fetch_flags =
     [(''consumer'', StringFlag []), (''max'', IntFlag 1), (''ack-timeout'', IntFlag 30000), (''poll-timeout'', IntFlag 0)]"

definition fetch_request :: "nat \<Rightarrow> (string \<times> flag_value) list \<Rightarrow> string list \<Rightarrow> FetchRequest" where
  "fetch_request rnd flags fArgs =
     \<lparr>fq_Topic = fArgs ! 0, fq_Group = fArgs ! 1,
      fq_ConsumerID = (let consumerID = string_flag flags ''consumer''
                       in if consumerID = [] then ''cli-consumer-'' @ decimal rnd else consumerID),
      fq_MaxMessages = word_of_int (int_flag flags ''max''),
      fq_AckTimeoutMs = word_of_int (int_flag flags ''ack-timeout''),
      fq_LongPollTimeoutMs = word_of_int (int_flag flags ''poll-timeout'')\<rparr>"

definition show_message :: "(u64 \<Rightarrow> string) \<Rightarrow> Message \<Rightarrow> line list" where
  "show_message stamp m =
     [Stdout (''--- Message '' @ decimal (unat (m_Offset m)) @ '' ---''),
      Stdout (''  Offset:    '' @ decimal (unat (m_Offset m))),
      Stdout (''  Timestamp: '' @ stamp (m_Timestamp m)),
      Stdout (''  Key:       '' @ (if 0 < length (m_Key m) then string_of (m_Key m) else ''<empty>'')),
      Stdout (''  Value:     '' @ string_of (m_Value m)),
      Stdout []]"

definition show_messages :: "(u64 \<Rightarrow> string) \<Rightarrow> string \<Rightarrow> Message list \<Rightarrow> line list" where
  "show_messages stamp consumerID messages =
     (if length messages = 0 then [Stdout ''No messages found.'']
      else
        [Stdout (''Fetched '' @ decimal (length messages) @ '' message(s) (Consumer ID: '' @ consumerID @ ''):''), Stdout []] @
        concat (map (show_message stamp) messages))"

definition cmd_fetch :: "nat \<Rightarrow> (u64 \<Rightarrow> string) \<Rightarrow> string list \<Rightarrow> Client \<Rightarrow> Exit" where
  "cmd_fetch rnd stamp cmdArgs =
     with_flags ''fetch'' fetch_flags cmdArgs (\<lambda>flags fArgs.
       if length fArgs < 2 then exits 1 [CommandUsage ''fetch'']
       else
         (let req = fetch_request rnd flags fArgs
          in calls (Client_Fetch req) ''Error fetching messages'' (show_messages stamp (fq_ConsumerID req))))"

text \<open>The commands \<^verbatim>\<open>ack\<close> and \<^verbatim>\<open>nack\<close> differ in the call and in one word of what they print.\<close>

definition cmd_settle :: "string \<Rightarrow> string \<Rightarrow> (string \<Rightarrow> string \<Rightarrow> u64 \<Rightarrow> (Client, unit) prog) \<Rightarrow> string list \<Rightarrow> Client \<Rightarrow> Exit" where
  "cmd_settle name shout op cmdArgs =
     (if length cmdArgs < 3 then exits 1 [CommandUsage name]
      else
        (let topic = cmdArgs ! 0; grp = cmdArgs ! 1
         in case ParseUint (cmdArgs ! 2) of
              None \<Rightarrow> exits 1 [InvalidOffset (cmdArgs ! 2)]
            | Some offsetVal \<Rightarrow>
                calls (op topic grp offsetVal) (''Error sending '' @ shout)
                  (\<lambda>_. [Stdout (shout @ '' sent successfully for offset '' @ decimal (unat offsetVal) @ '' in group '' @
                     quoted grp @ '' (topic '' @ quoted topic @ '').'')])))"

definition cmd_ack :: "string list \<Rightarrow> Client \<Rightarrow> Exit" where
  "cmd_ack = cmd_settle ''ack'' ''ACK'' Client_Ack"

definition cmd_nack :: "string list \<Rightarrow> Client \<Rightarrow> Exit" where
  "cmd_nack = cmd_settle ''nack'' ''NACK'' Client_Nack"

definition cmd_list_topics :: "Client \<Rightarrow> Exit" where
  "cmd_list_topics =
     calls Client_ListTopics ''Error listing topics''
       (\<lambda>topics. if length topics = 0 then [Stdout ''No topics found.'']
                 else Stdout ''Topics:'' # map (\<lambda>t. Stdout (''  - '' @ t)) topics)"

definition command :: "nat \<Rightarrow> (u64 \<Rightarrow> string) \<Rightarrow> string \<Rightarrow> string \<Rightarrow> string list \<Rightarrow> Client \<Rightarrow> Exit" where
  "command rnd stamp latency cmd cmdArgs =
     (if cmd = ''ping'' then cmd_ping latency
      else if cmd = ''create-topic'' then cmd_create_topic cmdArgs
      else if cmd = ''produce'' then cmd_produce cmdArgs
      else if cmd = ''fetch'' then cmd_fetch rnd stamp cmdArgs
      else if cmd = ''ack'' then cmd_ack cmdArgs
      else if cmd = ''nack'' then cmd_nack cmdArgs
      else if cmd = ''list-topics'' \<or> cmd = ''list'' \<or> cmd = ''topics'' then cmd_list_topics
      else exits 1 [Stderr (''Unknown command: '' @ cmd), Stderr [], Usage])"

text \<open>\<^verbatim>\<open>main\<close> on the arguments behind the name of the program.\<close>

definition exits_early :: "int \<Rightarrow> line list \<Rightarrow> Exit" where
  "exits_early code ls = \<lparr>x_code = code, x_lines = ls, x_client = None\<rparr>"

definition cli_main :: "(string \<Rightarrow> Link result) \<Rightarrow> nat \<Rightarrow> (u64 \<Rightarrow> string) \<Rightarrow> string \<Rightarrow> string list \<Rightarrow> Exit" where
  "cli_main dial rnd stamp latency argv =
     (if length (rearrangeArgs argv) = 0 then exits_early 0 [Usage]
      else
        (case global_args argv of
           Inl err \<Rightarrow> if err = ErrHelp then exits_early 0 [Usage] else exits_early 2 [FlagError err, Usage]
         | Inr (addr, args) \<Rightarrow>
             (case args of
                [] \<Rightarrow> exits_early 0 [Usage]
              | cmd # cmdArgs \<Rightarrow>
                  (case Connect dial (NewClient addr) of
                     (Inl err, cli) \<Rightarrow>
                       exits_early 1 [Stderr (''Error connecting to broker at '' @ addr @ '': '' @ error_text err)]
                   | (Inr _, cli) \<Rightarrow> command rnd stamp latency cmd cmdArgs cli))))"

end
