(* ===== verification/Cli_Args.thy ===== *)
theory Cli_Args
  imports Cli
begin

text \<open>
  The global flags of the command line: rearranging and parsing them is one pass over the
  arguments.
\<close>

section \<open>One pass over the arguments\<close>

text \<open>The address and the other arguments, read off the command line directly.\<close>

fun split_globals :: "string list \<Rightarrow> string \<Rightarrow> (string \<times> string list) option" where
  "split_globals [] a = Some (a, [])"
| "split_globals (arg # args) a =
     (if arg = ''-addr'' \<or> arg = ''--addr'' then (case args of [] \<Rightarrow> None | v # args' \<Rightarrow> split_globals args' v)
      else if HasPrefix arg ''-addr='' then split_globals args (drop 6 arg)
      else if HasPrefix arg ''--addr='' then split_globals args (drop 7 arg)
      else map_option (\<lambda>(a, os). (a, arg # os)) (split_globals args a))"

lemma HasPrefix_split: "HasPrefix s p \<Longrightarrow> s = p @ drop (length p) s"
  unfolding HasPrefix_def by (metis append_take_drop_id)

lemma parse_addr:
  "parse_flags [(''addr'', StringFlag a)] (''-addr'' # v # args) = parse_flags [(''addr'', StringFlag v)] args"
  "parse_flags [(''addr'', StringFlag a)] (''--addr'' # v # args) = parse_flags [(''addr'', StringFlag v)] args"
  "parse_flags [(''addr'', StringFlag a)] ((''-addr='' @ v) # args) = parse_flags [(''addr'', StringFlag v)] args"
  "parse_flags [(''addr'', StringFlag a)] ((''--addr='' @ v) # args) = parse_flags [(''addr'', StringFlag v)] args"
  by (simp_all add: flag_name_def set_flag_def)

lemma rearranged:
  "split_globals args a = Some (a', os) \<Longrightarrow>
    \<exists>gs. (\<forall>g o'. rearrange_from args g o' = g @ gs @ o' @ os) \<and>
      (\<forall>rest. parse_flags [(''addr'', StringFlag a)] (gs @ rest) = parse_flags [(''addr'', StringFlag a')] rest)"
proof (induction args a arbitrary: a' os rule: split_globals.induct)
  case (1 a)
  then show ?case by (intro exI [of _ "[]"]) simp
next
  case (2 arg args a)
  consider (flag) "arg = ''-addr'' \<or> arg = ''--addr''"
    | (single) "arg \<noteq> ''-addr''" "arg \<noteq> ''--addr''" "HasPrefix arg ''-addr=''"
    | (double) "arg \<noteq> ''-addr''" "arg \<noteq> ''--addr''" "\<not> HasPrefix arg ''-addr=''" "HasPrefix arg ''--addr=''"
    | (other) "arg \<noteq> ''-addr''" "arg \<noteq> ''--addr''" "\<not> HasPrefix arg ''-addr=''" "\<not> HasPrefix arg ''--addr=''"
    by blast
  then show ?case
  proof cases
    case flag
    then obtain v args' where v: "args = v # args'" "split_globals args' v = Some (a', os)"
      using 2(5) by (auto split: list.splits)
    obtain gs where gs: "\<forall>g o'. rearrange_from args' g o' = g @ gs @ o' @ os"
      "\<forall>rest. parse_flags [(''addr'', StringFlag v)] (gs @ rest) = parse_flags [(''addr'', StringFlag a')] rest"
      using 2(1) [OF flag v(1) v(2)] by blast
    have "rearrange_from (arg # args) g o' = g @ (arg # v # gs) @ o' @ os" for g o' using flag v(1) gs(1) by simp
    moreover have "parse_flags [(''addr'', StringFlag a)] ((arg # v # gs) @ rest) = parse_flags [(''addr'', StringFlag a')] rest" for rest
      using flag gs(2) parse_addr(1,2) [of a v "gs @ rest"] by (elim disjE) simp_all
    ultimately show ?thesis by blast
  next
    case single
    let ?v = "drop 6 arg"
    have arg: "arg = ''-addr='' @ ?v" using HasPrefix_split [OF single(3)] by (simp add: numeral_eq_Suc)
    obtain gs where gs: "\<forall>g o'. rearrange_from args g o' = g @ gs @ o' @ os"
      "\<forall>rest. parse_flags [(''addr'', StringFlag ?v)] (gs @ rest) = parse_flags [(''addr'', StringFlag a')] rest"
      using 2(2) [of a' os] 2(5) single by auto
    have "rearrange_from (arg # args) g o' = g @ (arg # gs) @ o' @ os" for g o' using single gs(1) by simp
    moreover have "parse_flags [(''addr'', StringFlag a)] ((arg # gs) @ rest) = parse_flags [(''addr'', StringFlag a')] rest" for rest
      using gs(2) parse_addr(3) [of a ?v "gs @ rest"] unfolding arg [symmetric] by simp
    ultimately show ?thesis by blast
  next
    case double
    let ?v = "drop 7 arg"
    have arg: "arg = ''--addr='' @ ?v" using HasPrefix_split [OF double(4)] by (simp add: numeral_eq_Suc)
    obtain gs where gs: "\<forall>g o'. rearrange_from args g o' = g @ gs @ o' @ os"
      "\<forall>rest. parse_flags [(''addr'', StringFlag ?v)] (gs @ rest) = parse_flags [(''addr'', StringFlag a')] rest"
      using 2(3) [of a' os] 2(5) double by auto
    have "rearrange_from (arg # args) g o' = g @ (arg # gs) @ o' @ os" for g o' using double gs(1) by simp
    moreover have "parse_flags [(''addr'', StringFlag a)] ((arg # gs) @ rest) = parse_flags [(''addr'', StringFlag a')] rest" for rest
      using gs(2) parse_addr(4) [of a ?v "gs @ rest"] unfolding arg [symmetric] by simp
    ultimately show ?thesis by blast
  next
    case other
    then obtain os' where os': "os = arg # os'" "split_globals args a = Some (a', os')"
      using 2(5) by auto
    then obtain gs where gs: "\<forall>g o'. rearrange_from args g o' = g @ gs @ o' @ os'"
      "\<forall>rest. parse_flags [(''addr'', StringFlag a)] (gs @ rest) = parse_flags [(''addr'', StringFlag a')] rest"
      using 2(4) [of a' os'] other by auto
    moreover have "rearrange_from (arg # args) g o' = g @ gs @ o' @ os" for g o' using other gs(1) os'(1) by simp
    ultimately show ?thesis by blast
  qed
qed

text \<open>An argument the flag package takes for a flag.\<close>

definition flag_like :: "string \<Rightarrow> bool" where
  "flag_like s \<longleftrightarrow> 2 \<le> length s \<and> s ! 0 = CHR ''-''"

text \<open>A trailing \<^verbatim>\<open>-addr\<close> without a value moves to the front and takes the command for its value.\<close>

lemma trailing_addr_takes_command:
  assumes "cmd \<noteq> ''-addr''" and "cmd \<noteq> ''--addr''" and "\<not> HasPrefix cmd ''-addr=''" and "\<not> HasPrefix cmd ''--addr=''"
  shows "global_args [cmd, ''-addr''] = Inr (cmd, [])"
proof -
  have "rearrangeArgs [cmd, ''-addr''] = [''-addr'', cmd]" using assms by (simp add: rearrangeArgs_def)
  then show ?thesis using parse_addr(1) [of "'':8765''" cmd "[]"] by (simp add: global_args_def string_flag_def)
qed

section \<open>Properties\<close>

text \<open>
  C40: the address flag may stand anywhere, before, between or after the command and its
  arguments, in each of its four spellings: the last one counts, and the command and its
  arguments reach the rest of the program complete and in order.
\<close>

theorem address_flag_anywhere:
  assumes "split_globals argv '':8765'' = Some (addr, os)" and "\<forall>cmd rest. os = cmd # rest \<longrightarrow> \<not> flag_like cmd"
  shows "global_args argv = Inr (addr, os)"
proof -
  obtain gs where r: "rearrange_from argv [] [] = gs @ os"
    and gs: "parse_flags [(''addr'', StringFlag '':8765'')] (gs @ os) = parse_flags [(''addr'', StringFlag addr)] os"
    using rearranged [OF assms(1)] by force
  have "parse_flags [(''addr'', StringFlag addr)] os = Inr ([(''addr'', StringFlag addr)], os)"
    using assms(2) by (cases os) (auto simp: flag_like_def)
  then show ?thesis by (simp add: global_args_def rearrangeArgs_def r gs string_flag_def)
qed

theorem address_flag_anywhere_witness:
  "global_args [''fetch'', ''-addr'', ''a:1'', ''orders'', ''--addr=b:2'', ''g1'', ''-max'', ''5''] =
    Inr (''b:2'', [''fetch'', ''orders'', ''g1'', ''-max'', ''5''])"
  by (rule address_flag_anywhere) (simp_all add: HasPrefix_def flag_like_def)

end
