(* ===== verification/Server.thy ===== *)
theory Server
  imports Broker
begin

text \<open>
  The TCP server, \<^verbatim>\<open>pkg/server/server.go\<close>: the answer to a request frame, the loop over the
  frames of a connection, and \<^verbatim>\<open>Start\<close> and \<^verbatim>\<open>Stop\<close>. The goroutines of the connections run turn by
  turn; a turn ends with the answer, or with a wait in \<^verbatim>\<open>Fetch\<close>.
\<close>

section \<open>Answering a request\<close>

text \<open>\<^verbatim>\<open>&protocol.Frame{Type: t, ReqID: id, Body: body}\<close>: the length is left to the writer.\<close>

definition response :: "byte \<Rightarrow> u32 \<Rightarrow> byte list \<Rightarrow> Frame" where
  "response t reqID body = \<lparr>f_Type = t, f_ReqID = reqID, f_Length = 0, f_Body = body\<rparr>"

definition makeErrorFrame :: "u32 \<Rightarrow> u16 \<Rightarrow> string \<Rightarrow> Frame result" where
  "makeErrorFrame reqID code message =
     rbind (Marshal_ErrorResponse \<lparr>er_Code = code, er_Message = message\<rparr>) (\<lambda>body.
     Inr (response TypeRespError reqID body))"

text \<open>
  \<^verbatim>\<open>processFrame\<close> answers, or the handler waits in \<^verbatim>\<open>Fetch\<close> on a channel. An error of the
  broker becomes an error frame; a panic goes on to the caller.
\<close>

datatype processed = Reply Frame | Waits FetchRequest nat

definition reply :: "Frame result \<Rightarrow> (Broker, processed) loop" where
  "reply m = (case m of Inl e \<Rightarrow> run (fail e) | Inr f \<Rightarrow> run (ret (Reply f)))"

definition reply_error :: "u32 \<Rightarrow> u16 \<Rightarrow> go_error \<Rightarrow> (Broker, processed) loop" where
  "reply_error reqID code err =
     (if err = Panic then run (fail Panic) else reply (makeErrorFrame reqID code (error_text err)))"

definition reply_body :: "byte \<Rightarrow> u32 \<Rightarrow> byte list result \<Rightarrow> (Broker, processed) loop" where
  "reply_body t reqID body = reply (rbind body (\<lambda>body. Inr (response t reqID body)))"

definition process_Produce :: "Frame \<Rightarrow> int \<Rightarrow> (Broker, processed) loop" where
  "process_Produce f now =
     (case UnmarshalProduceRequest (f_Body f) of
        Inl err \<Rightarrow> reply_error (f_ReqID f) ErrCodeInvalidPayload err
      | Inr req \<Rightarrow>
          then_loop (try_loop (Produce (pr_Topic req) (pr_Key req) (pr_Value req) now)) (\<lambda>r.
          case r of
            Inl err \<Rightarrow> reply_error (f_ReqID f) ErrCodeInternalError err
          | Inr offset \<Rightarrow>
              reply_body TypeRespProduce (f_ReqID f) (Marshal_ProduceResponse \<lparr>prs_Offset = offset\<rparr>)))"

text \<open>The end of the \<^verbatim>\<open>Fetch\<close> case, for messages that are there at once or after a wait.\<close>

definition reply_messages :: "u32 \<Rightarrow> Message list result \<Rightarrow> (Broker, processed) loop" where
  "reply_messages reqID r =
     (case r of
        Inl err \<Rightarrow>
          reply_error reqID (if errors_Is err ErrTopicNotFound then ErrCodeTopicNotFound else ErrCodeInternalError) err
      | Inr msgs \<Rightarrow> reply_body TypeRespFetch reqID (Marshal_FetchResponse \<lparr>fr_Messages = msgs\<rparr>))"

definition process_Fetch :: "Frame \<Rightarrow> int \<Rightarrow> (Broker, processed) loop" where
  "process_Fetch f now =
     (case UnmarshalFetchRequest (f_Body f) of
        Inl err \<Rightarrow> reply_error (f_ReqID f) ErrCodeInvalidPayload err
      | Inr req \<Rightarrow>
          then_loop (try_loop (Fetch req now)) (\<lambda>r.
          case r of
            Inl err \<Rightarrow> reply_messages (f_ReqID f) (Inl err)
          | Inr (Returned msgs) \<Rightarrow> reply_messages (f_ReqID f) (Inr msgs)
          | Inr (Waiting ch) \<Rightarrow> run (ret (Waits req ch))))"

definition lease_error_code :: "go_error \<Rightarrow> u16" where
  "lease_error_code err =
     (if errors_Is err ErrLeaseNotFound then ErrCodeLeaseExpired
      else if errors_Is err ErrTopicNotFound then ErrCodeTopicNotFound
      else ErrCodeInternalError)"

definition process_Ack :: "Frame \<Rightarrow> (Broker, processed) loop" where
  "process_Ack f =
     (case UnmarshalAckRequest (f_Body f) of
        Inl err \<Rightarrow> reply_error (f_ReqID f) ErrCodeInvalidPayload err
      | Inr req \<Rightarrow>
          then_loop (try_loop (Ack (ar_Topic req) (ar_Group req) (ar_Offset req))) (\<lambda>r.
          case r of
            Inl err \<Rightarrow> reply_error (f_ReqID f) (lease_error_code err) err
          | Inr _ \<Rightarrow> run (ret (Reply (response TypeRespAck (f_ReqID f) [])))))"

definition process_Nack :: "Frame \<Rightarrow> int \<Rightarrow> (Broker, processed) loop" where
  "process_Nack f now =
     (case UnmarshalNackRequest (f_Body f) of
        Inl err \<Rightarrow> reply_error (f_ReqID f) ErrCodeInvalidPayload err
      | Inr req \<Rightarrow>
          then_loop (try_loop (Nack (nr_Topic req) (nr_Group req) (nr_Offset req) now)) (\<lambda>r.
          case r of
            Inl err \<Rightarrow> reply_error (f_ReqID f) (lease_error_code err) err
          | Inr _ \<Rightarrow> run (ret (Reply (response TypeRespNack (f_ReqID f) [])))))"

definition process_CreateTopic :: "Frame \<Rightarrow> (Broker, processed) loop" where
  "process_CreateTopic f =
     (case UnmarshalCreateTopicRequest (f_Body f) of
        Inl err \<Rightarrow> reply_error (f_ReqID f) ErrCodeInvalidPayload err
      | Inr req \<Rightarrow>
          then_loop (try_loop (CreateTopic (ct_Topic req))) (\<lambda>r.
          case r of
            Inl err \<Rightarrow> reply_error (f_ReqID f) ErrCodeInternalError err
          | Inr _ \<Rightarrow> run (ret (Reply (response TypeRespCreateTopic (f_ReqID f) [])))))"

definition processFrame :: "Frame \<Rightarrow> int \<Rightarrow> (Broker, processed) loop" where
  "processFrame f now =
     (if f_Type f = TypeReqPing then run (ret (Reply (response TypeRespPong (f_ReqID f) [])))
      else if f_Type f = TypeReqProduce then process_Produce f now
      else if f_Type f = TypeReqFetch then process_Fetch f now
      else if f_Type f = TypeReqAck then process_Ack f
      else if f_Type f = TypeReqNack then process_Nack f now
      else if f_Type f = TypeReqCreateTopic then process_CreateTopic f
      else if f_Type f = TypeReqListTopics then
        then_loop (run (gets ListTopics)) (\<lambda>topics.
        reply_body TypeRespListTopics (f_ReqID f) (Marshal_ListTopicsResponse \<lparr>lt_Topics = topics\<rparr>))
      else reply (makeErrorFrame (f_ReqID f) ErrCodeUnknown ''unknown request type''))"

section \<open>A connection\<close>

text \<open>
  A connection: the bytes that have arrived, whether the peer has closed its side, the writing
  side, and where its goroutine stands: it reads the next frame, waits in \<^verbatim>\<open>Fetch\<close>, or has
  returned.
\<close>

datatype phase = Reading | Polling u32 FetchRequest nat | Gone

record Conn =
  cn_in :: "byte list"
  cn_eof :: bool
  cn_out :: Writer
  cn_phase :: phase

text \<open>\<^verbatim>\<open>ReadFrame\<close> returns: the frame is there, or the peer has closed.\<close>

definition frame_ready :: "Conn \<Rightarrow> bool" where
  "frame_ready c \<longleftrightarrow> cn_eof c \<or> (\<forall>e. fst (ReadFrame (cn_in c)) \<noteq> Inl e)"

definition respond :: "Frame \<Rightarrow> Conn \<Rightarrow> Conn" where
  "respond f c =
     (case WriteFrame (cn_out c) f of
        (Inl e, w) \<Rightarrow> c\<lparr>cn_out := w, cn_phase := Gone\<rparr>
      | (Inr _, w) \<Rightarrow> c\<lparr>cn_out := w, cn_phase := Reading\<rparr>)"

text \<open>A turn of the loop of \<^verbatim>\<open>handleConnection\<close>, up to the wait in \<^verbatim>\<open>Fetch\<close>; and its rest.\<close>

definition handleConnection_turn :: "int \<Rightarrow> Conn \<Rightarrow> (Broker, Conn) loop" where
  "handleConnection_turn now c =
     (case ReadFrame (cn_in c) of
        (Inl err, r) \<Rightarrow> run (ret (c\<lparr>cn_in := r, cn_phase := Gone\<rparr>))
      | (Inr frame, r) \<Rightarrow>
          then_loop (processFrame frame now) (\<lambda>p.
          case p of
            Reply respFrame \<Rightarrow> run (ret (respond respFrame (c\<lparr>cn_in := r\<rparr>)))
          | Waits req ch \<Rightarrow> run (ret (c\<lparr>cn_in := r, cn_phase := Polling (f_ReqID frame) req ch\<rparr>))))"

definition handleConnection_woken :: "u32 \<Rightarrow> Message list result \<Rightarrow> Conn \<Rightarrow> (Broker, Conn) loop" where
  "handleConnection_woken reqID r c =
     then_loop (reply_messages reqID r) (\<lambda>p.
     case p of
       Reply respFrame \<Rightarrow> run (ret (respond respFrame c))
     | Waits req ch \<Rightarrow> run (ret (c\<lparr>cn_phase := Polling reqID req ch\<rparr>)))"

text \<open>The loop, with a reading of the clock for each turn, up to a wait or the return.\<close>

fun handleConnection :: "int list \<Rightarrow> Conn \<Rightarrow> (Broker, Conn) loop" where
  "handleConnection [] c = run (ret c)"
| "handleConnection (now # nows) c =
     then_loop (handleConnection_turn now c) (\<lambda>c.
     if cn_phase c = Reading then handleConnection nows c else run (ret c))"

section \<open>The server\<close>

record Server =
  sv_broker :: Broker
  sv_conns :: "(nat \<times> Conn) list"
  sv_listening :: bool
  sv_closed :: bool

definition NewServer :: "Broker \<Rightarrow> Server" where
  "NewServer b = \<lparr>sv_broker = b, sv_conns = [], sv_listening = False, sv_closed = False\<rparr>"

text \<open>\<^verbatim>\<open>Start\<close>: the listener, with the outcome of \<^verbatim>\<open>net.Listen\<close>, and a turn of the accept loop.\<close>

definition Start_listen :: "unit result \<Rightarrow> Server \<Rightarrow> unit result \<times> Server" where
  "Start_listen outcome s =
     (case outcome of
        Inl err \<Rightarrow> (Inl (Wrapped (''server: failed to listen on '' @ BindAddr (b_cfg (sv_broker s))) err), s)
      | Inr _ \<Rightarrow> (Inr (), s\<lparr>sv_listening := True\<rparr>))"

text \<open>Does the loop go on? A connection is named by a number not in use.\<close>

definition new_conn :: Conn where
  "new_conn = \<lparr>cn_in = [], cn_eof = False, cn_out = \<lparr>w_out = [], w_room = None\<rparr>, cn_phase = Reading\<rparr>"

definition Start_accept :: "nat result \<Rightarrow> Server \<Rightarrow> bool \<times> Server" where
  "Start_accept accepted s =
     (case accepted of
        Inl err \<Rightarrow> (\<not> sv_closed s, s)
      | Inr i \<Rightarrow> (True, s\<lparr>sv_conns := AList.update i new_conn (sv_conns s)\<rparr>))"

text \<open>\<^verbatim>\<open>Stop\<close> up to \<^verbatim>\<open>s.wg.Wait()\<close> (has it returned?), and when the wait is over.\<close>

definition Stop_begin :: "Server \<Rightarrow> bool \<times> Server" where
  "Stop_begin s = (if sv_closed s then (True, s) else (False, s\<lparr>sv_closed := True, sv_listening := False\<rparr>))"

definition Stop_wait_over :: "Server \<Rightarrow> bool" where
  "Stop_wait_over s \<longleftrightarrow> (\<forall>(i, c) \<in> set (sv_conns s). cn_phase c = Gone)"

end
