(* ===== verification/Daemon.thy ===== *)
theory Daemon
  imports Server
begin

text \<open>
  The daemon, \<^verbatim>\<open>cmd/tumbleweed/main.go\<close>: the broker and the server it starts from the
  configuration of its flags (theory \<open>Config\<close>), and the shutdown on a signal. What it logs is
  left out.
\<close>

text \<open>\<^verbatim>\<open>NewBroker\<close> and \<^verbatim>\<open>NewServer\<close>; an error of the broker ends the process.\<close>

definition main_start :: "Flags \<Rightarrow> (string \<times> topic_dir) list \<Rightarrow> world \<Rightarrow> Server result option" where
  "main_start fl dirs d =
     (case NewBroker (main_config fl) dirs d of
        None \<Rightarrow> None
      | Some (Inl err, b) \<Rightarrow> Some (Inl err)
      | Some (Inr _, b) \<Rightarrow> Some (Inr (NewServer b)))"

text \<open>
  The goroutine of the signal: \<^verbatim>\<open>srv.Stop()\<close> first sets its flags; \<^verbatim>\<open>b.Close()\<close> runs when its wait
  is over (\<open>None\<close>: not yet, or the close does not return). Errors are only logged.
\<close>

definition main_shutdown :: "Server \<Rightarrow> Server option" where
  "main_shutdown s =
     (if sv_closed s \<and> Stop_wait_over s then
        (case Broker_Close (sv_broker s) of None \<Rightarrow> None | Some (_, b) \<Rightarrow> Some (s\<lparr>sv_broker := b\<rparr>))
      else None)"

section \<open>Properties\<close>

text \<open>
  The flags of the daemon reach the configuration unchanged: segment sizes below 2^43 MB
  and leases of up to 9223372036 seconds are exact in the 64-bit products of \<^verbatim>\<open>main\<close>, the
  defaults of the flags give \<^verbatim>\<open>DefaultConfig\<close>; one second more, and the lease wraps to a negative
  time.
\<close>

theorem flags_reach_config:
  assumes "0 \<le> maxSegMB fl" and "maxSegMB fl < 2 ^ 43" and "0 \<le> leaseSec fl" and "leaseSec fl \<le> 9223372036"
  shows "MaxSegmentBytes (main_config fl) = maxSegMB fl * 1024 * 1024 \<and>
    DefaultLeaseTimeout (main_config fl) = leaseSec fl * Second \<and>
    MaxRedeliveries (main_config fl) = maxRedeliv fl \<and> SyncEveryWrite (main_config fl) = syncEvery fl \<and>
    SyncInterval (main_config fl) = syncInt fl \<and> LeaseCheckInterval (main_config fl) = 200 * Millisecond \<and>
    main_config default_flags = DefaultConfig \<and>
    DefaultLeaseTimeout (main_config (fl\<lparr>leaseSec := 9223372037\<rparr>)) < 0"
proof -
  have exact: "signed64 n = n" if "- (2 ^ 63) \<le> n" "n < 2 ^ 63" for n using that by (simp add: signed64_def)
  have "signed64 (maxSegMB fl * 1024) = maxSegMB fl * 1024" using assms(1,2) by (intro exact) simp_all
  moreover have "signed64 (maxSegMB fl * 1024 * 1024) = maxSegMB fl * 1024 * 1024" using assms(1,2) by (intro exact) simp_all
  moreover have "signed64 (leaseSec fl * Second) = leaseSec fl * Second" using assms(3,4) by (intro exact) (simp_all add: Second_def)
  moreover have "main_config default_flags = DefaultConfig"
    by (simp add: main_config_def default_flags_def DefaultConfig_def signed64_def Millisecond_def Second_def)
  moreover have "signed64 (9223372037 * Second) < 0" by (simp add: signed64_def Second_def)
  ultimately show ?thesis by (simp add: main_config_def DefaultConfig_def)
qed

theorem flags_reach_config_witness:
  "MaxSegmentBytes (main_config (default_flags\<lparr>maxSegMB := 128, leaseSec := 60\<rparr>)) = 134217728 \<and>
   DefaultLeaseTimeout (main_config (default_flags\<lparr>maxSegMB := 128, leaseSec := 60\<rparr>)) = 60000000000"
  using flags_reach_config [of "default_flags\<lparr>maxSegMB := 128, leaseSec := 60\<rparr>"] by (simp add: Second_def)

end
