(* ===== verification/Server_Runs.thy ===== *)
theory Server_Runs
  imports Daemon Broker_Nack Codec
begin

text \<open>
  The server as a state machine over its connections and the broker: what an answer can be,
  which calls of the broker a frame stands for, and what holds of all runs with any clients.
\<close>

section \<open>Answers\<close>

definition error_frame :: "u32 \<Rightarrow> u16 \<Rightarrow> string \<Rightarrow> Frame" where
  "error_frame reqID code message =
     response TypeRespError reqID (wire_ErrorResponse \<lparr>er_Code = code, er_Message = message\<rparr>)"

lemma makeErrorFrame_eval: "makeErrorFrame reqID code message = Inr (error_frame reqID code message)"
  by (simp add: makeErrorFrame_def error_frame_def errorResponse.marshal_wire)

lemma reply_error_eval:
  "reply_error reqID code err b =
    (if err = Panic then Some (Inl Panic, b) else Some (Inr (Reply (error_frame reqID code (error_text err))), b))"
  by (simp add: reply_error_def reply_def makeErrorFrame_eval run_def fail_def ret_def)

lemma reply_body_eval: "reply_body t reqID (Inr body) b = Some (Inr (Reply (response t reqID body)), b)"
  by (simp add: reply_body_def reply_def run_def ret_def)

lemma reply_messages_eval:
  "reply_messages reqID (Inr msgs) b =
     Some (Inr (Reply (response TypeRespFetch reqID (wire_FetchResponse \<lparr>fr_Messages = msgs\<rparr>))), b)"
  by (simp add: reply_messages_def fetchResponse.marshal_wire reply_body_eval)

lemma error_frame_simps [simp]:
  "f_Type (error_frame i c m) = TypeRespError" "f_ReqID (error_frame i c m) = i"
  by (simp_all add: error_frame_def response_def)

lemma response_simps [simp]: "f_Type (response t i body) = t" "f_ReqID (response t i body) = i" "f_Body (response t i body) = body"
  by (simp_all add: response_def)

lemma error_frame_reads:
  "length m < 2 ^ 16 \<Longrightarrow> UnmarshalErrorResponse (f_Body (error_frame i c m)) = Inr \<lparr>er_Code = c, er_Message = m\<rparr>"
  using errorResponse.unmarshal_wire [of "\<lparr>er_Code = c, er_Message = m\<rparr>" "[]"]
  by (simp add: error_frame_def fits_ErrorResponse_def)


section \<open>The calls a frame stands for\<close>

definition calls_of :: "Frame \<Rightarrow> broker_call list" where
  "calls_of f =
     (if f_Type f = TypeReqProduce then
        (case UnmarshalProduceRequest (f_Body f) of Inl _ \<Rightarrow> [] | Inr r \<Rightarrow> [C_Produce (pr_Topic r) (pr_Key r) (pr_Value r)])
      else if f_Type f = TypeReqFetch then
        (case UnmarshalFetchRequest (f_Body f) of Inl _ \<Rightarrow> [] | Inr r \<Rightarrow> [C_Fetch r])
      else if f_Type f = TypeReqAck then
        (case UnmarshalAckRequest (f_Body f) of Inl _ \<Rightarrow> [] | Inr r \<Rightarrow> [C_Ack (ar_Topic r) (ar_Group r) (ar_Offset r)])
      else if f_Type f = TypeReqNack then
        (case UnmarshalNackRequest (f_Body f) of Inl _ \<Rightarrow> [] | Inr r \<Rightarrow> [C_Nack (nr_Topic r) (nr_Group r) (nr_Offset r)])
      else if f_Type f = TypeReqCreateTopic then
        (case UnmarshalCreateTopicRequest (f_Body f) of Inl _ \<Rightarrow> [] | Inr r \<Rightarrow> [C_CreateTopic (ct_Topic r)])
      else [])"






lemma frame_types_distinct [simp]:
  "TypeReqProduce \<noteq> TypeReqPing" "TypeReqFetch \<noteq> TypeReqPing" "TypeReqFetch \<noteq> TypeReqProduce"
  "TypeReqAck \<noteq> TypeReqPing" "TypeReqAck \<noteq> TypeReqProduce" "TypeReqAck \<noteq> TypeReqFetch"
  "TypeReqNack \<noteq> TypeReqPing" "TypeReqNack \<noteq> TypeReqProduce" "TypeReqNack \<noteq> TypeReqFetch" "TypeReqNack \<noteq> TypeReqAck"
  "TypeReqCreateTopic \<noteq> TypeReqPing" "TypeReqCreateTopic \<noteq> TypeReqProduce" "TypeReqCreateTopic \<noteq> TypeReqFetch"
  "TypeReqCreateTopic \<noteq> TypeReqAck" "TypeReqCreateTopic \<noteq> TypeReqNack"
  "TypeReqListTopics \<noteq> TypeReqPing" "TypeReqListTopics \<noteq> TypeReqProduce" "TypeReqListTopics \<noteq> TypeReqFetch"
  "TypeReqListTopics \<noteq> TypeReqAck" "TypeReqListTopics \<noteq> TypeReqNack" "TypeReqListTopics \<noteq> TypeReqCreateTopic"
  by (simp_all add: frame_type_defs)

lemmas frame_types_distinct_sym [simp] = frame_types_distinct [THEN not_sym]

lemma processFrame_cases:
  "f_Type f = TypeReqPing \<Longrightarrow> processFrame f now = run (ret (Reply (response TypeRespPong (f_ReqID f) [])))"
  "f_Type f = TypeReqProduce \<Longrightarrow> processFrame f now = process_Produce f now"
  "f_Type f = TypeReqFetch \<Longrightarrow> processFrame f now = process_Fetch f now"
  "f_Type f = TypeReqAck \<Longrightarrow> processFrame f now = process_Ack f"
  "f_Type f = TypeReqNack \<Longrightarrow> processFrame f now = process_Nack f now"
  "f_Type f = TypeReqCreateTopic \<Longrightarrow> processFrame f now = process_CreateTopic f"
  by (simp_all add: processFrame_def)


section \<open>What an answer can be\<close>

definition answers :: "Frame \<Rightarrow> processed \<Rightarrow> bool" where
  "answers f p \<longleftrightarrow>
     (case p of
        Reply g \<Rightarrow> f_ReqID g = f_ReqID f \<and> (f_Type g = TypeRespError \<or> f_Type g = f_Type f + 0x80)
      | Waits req ch \<Rightarrow> f_Type f = TypeReqFetch \<and> UnmarshalFetchRequest (f_Body f) = Inr req)"

lemma then_loop_Inr: "then_loop m k b = Some (Inr p, b') \<Longrightarrow> \<exists>a b1. m b = Some (Inr a, b1) \<and> k a b1 = Some (Inr p, b')"
  by (auto simp: then_loop_def split: option.splits sum.splits)

lemma reply_error_answers: "reply_error (f_ReqID f) c e b = Some (Inr p, b') \<Longrightarrow> answers f p"
  by (auto simp: reply_error_eval answers_def split: if_splits)

lemma reply_body_answers: "reply_body t (f_ReqID f) (Inr body) b = Some (Inr p, b') \<Longrightarrow> t = f_Type f + 0x80 \<Longrightarrow> answers f p"
  by (auto simp: reply_body_eval answers_def)

lemma reply_answers: "run (ret (Reply (response t (f_ReqID f) body))) b = Some (Inr p, b') \<Longrightarrow> t = f_Type f + 0x80 \<Longrightarrow> answers f p"
  by (auto simp: run_def ret_def answers_def)

lemma reply_waits: "run (ret (Waits req ch)) b = Some (Inr p, b') \<Longrightarrow> f_Type f = TypeReqFetch \<Longrightarrow>
    UnmarshalFetchRequest (f_Body f) = Inr req \<Longrightarrow> answers f p"
  by (auto simp: run_def ret_def answers_def)

lemma reply_messages_answers:
  "reply_messages (f_ReqID f) r b = Some (Inr p, b') \<Longrightarrow> TypeRespFetch = f_Type f + 0x80 \<Longrightarrow> answers f p"
  by (cases r) (auto simp: reply_messages_def fetchResponse.marshal_wire intro: reply_error_answers reply_body_answers)

lemmas answer_rules = reply_error_answers reply_body_answers reply_answers

lemma response_types:
  "TypeRespPong = TypeReqPing + 0x80" "TypeRespProduce = TypeReqProduce + 0x80" "TypeRespFetch = TypeReqFetch + 0x80"
  "TypeRespAck = TypeReqAck + 0x80" "TypeRespNack = TypeReqNack + 0x80" "TypeRespCreateTopic = TypeReqCreateTopic + 0x80"
  "TypeRespListTopics = TypeReqListTopics + 0x80"
  by (simp_all add: frame_type_defs)

lemma processFrame_answers:
  assumes "processFrame f now b = Some (Inr p, b')"
  shows "answers f p"
proof -
  consider "f_Type f = TypeReqPing" | "f_Type f = TypeReqProduce" | "f_Type f = TypeReqFetch" | "f_Type f = TypeReqAck"
    | "f_Type f = TypeReqNack" | "f_Type f = TypeReqCreateTopic" | "f_Type f = TypeReqListTopics"
    | "f_Type f \<notin> {TypeReqPing, TypeReqProduce, TypeReqFetch, TypeReqAck, TypeReqNack, TypeReqCreateTopic, TypeReqListTopics}"
    by blast
  then show ?thesis
  proof cases
    case 1
    then show ?thesis using assms by (auto simp: processFrame_cases intro: reply_answers simp: response_types)
  next
    case 2
    then show ?thesis using assms
      by (auto simp: processFrame_cases process_Produce_def produceResponse.marshal_wire response_types split: sum.splits
          dest!: then_loop_Inr) (erule answer_rules; simp add: response_types)+
  next
    case 3
    then show ?thesis using assms
      by (auto simp: processFrame_cases process_Fetch_def response_types split: sum.splits fetched.splits
          dest!: then_loop_Inr)
        (erule reply_error_answers reply_messages_answers reply_waits; simp add: response_types)+
  next
    case 4
    then show ?thesis using assms
      by (auto simp: processFrame_cases process_Ack_def response_types split: sum.splits dest!: then_loop_Inr)
        (erule answer_rules; simp add: response_types)+
  next
    case 5
    then show ?thesis using assms
      by (auto simp: processFrame_cases process_Nack_def response_types split: sum.splits dest!: then_loop_Inr)
        (erule answer_rules; simp add: response_types)+
  next
    case 6
    then show ?thesis using assms
      by (auto simp: processFrame_cases process_CreateTopic_def response_types split: sum.splits dest!: then_loop_Inr)
        (erule answer_rules; simp add: response_types)+
  next
    case 7
    then show ?thesis using assms
      by (auto simp: processFrame_def listTopicsResponse.marshal_wire response_types dest!: then_loop_Inr)
        (erule reply_body_answers; simp add: response_types)
  next
    case 8
    then show ?thesis using assms
      by (auto simp: processFrame_def reply_def makeErrorFrame_eval run_def ret_def answers_def)
  qed
qed

section \<open>Requests that are refused\<close>

text \<open>The error a request gets without a call of the broker.\<close>

definition request_error :: "Frame \<Rightarrow> (u16 \<times> string) option" where
  "request_error f =
     (if f_Type f = TypeReqPing \<or> f_Type f = TypeReqListTopics then None
      else if f_Type f = TypeReqProduce then
        (case UnmarshalProduceRequest (f_Body f) of Inr _ \<Rightarrow> None | Inl _ \<Rightarrow> Some (ErrCodeInvalidPayload, ''malformed ProduceRequest''))
      else if f_Type f = TypeReqFetch then
        (case UnmarshalFetchRequest (f_Body f) of Inr _ \<Rightarrow> None | Inl _ \<Rightarrow> Some (ErrCodeInvalidPayload, ''malformed FetchRequest''))
      else if f_Type f = TypeReqAck then
        (case UnmarshalAckRequest (f_Body f) of Inr _ \<Rightarrow> None | Inl _ \<Rightarrow> Some (ErrCodeInvalidPayload, ''malformed AckRequest''))
      else if f_Type f = TypeReqNack then
        (case UnmarshalNackRequest (f_Body f) of Inr _ \<Rightarrow> None | Inl _ \<Rightarrow> Some (ErrCodeInvalidPayload, ''malformed NackRequest''))
      else if f_Type f = TypeReqCreateTopic then
        (case UnmarshalCreateTopicRequest (f_Body f) of Inr _ \<Rightarrow> None | Inl _ \<Rightarrow> Some (ErrCodeInvalidPayload, ''malformed CreateTopicRequest''))
      else Some (ErrCodeUnknown, ''unknown request type''))"

lemma request_refused:
  assumes "request_error f = Some (code, message)"
  shows "processFrame f now b = Some (Inr (Reply (error_frame (f_ReqID f) code message)), b) \<and> length message < 2 ^ 16"
proof -
  consider "f_Type f = TypeReqProduce" | "f_Type f = TypeReqFetch" | "f_Type f = TypeReqAck" | "f_Type f = TypeReqNack"
    | "f_Type f = TypeReqCreateTopic" | (none) "f_Type f \<notin> {TypeReqPing, TypeReqProduce, TypeReqFetch, TypeReqAck, TypeReqNack, TypeReqCreateTopic, TypeReqListTopics}"
    using assms by (cases "f_Type f = TypeReqPing \<or> f_Type f = TypeReqListTopics") (simp add: request_error_def, blast)
  then show ?thesis
  proof cases
    case 1
    then show ?thesis using assms by (cases "UnmarshalProduceRequest (f_Body f)")
        (auto simp: request_error_def processFrame_cases process_Produce_def reply_error_eval dest!: produceRequest.unmarshal_err)
  next
    case 2
    then show ?thesis using assms by (cases "UnmarshalFetchRequest (f_Body f)")
        (auto simp: request_error_def processFrame_cases process_Fetch_def reply_error_eval dest!: fetchRequest.unmarshal_err)
  next
    case 3
    then show ?thesis using assms by (cases "UnmarshalAckRequest (f_Body f)")
        (auto simp: request_error_def processFrame_cases process_Ack_def reply_error_eval dest!: ackRequest.unmarshal_err)
  next
    case 4
    then show ?thesis using assms by (cases "UnmarshalNackRequest (f_Body f)")
        (auto simp: request_error_def processFrame_cases process_Nack_def reply_error_eval dest!: nackRequest.unmarshal_err)
  next
    case 5
    then show ?thesis using assms by (cases "UnmarshalCreateTopicRequest (f_Body f)")
        (auto simp: request_error_def processFrame_cases process_CreateTopic_def reply_error_eval dest!: createTopicRequest.unmarshal_err)
  next
    case none
    then show ?thesis using assms
      by (simp add: request_error_def processFrame_def reply_def makeErrorFrame_eval run_def ret_def) auto
  qed
qed

section \<open>The server as a state machine\<close>

text \<open>
  Its events: the network (a client connects, sends, closes, stops reading), a turn of a
  connection with the frame it read, a waiting fetch that is woken or times out, the
  background loops of the broker and the outcomes of coming system calls, and \<^verbatim>\<open>Stop\<close>.
\<close>

datatype server_event =
    Accepted nat
  | Arrived nat "byte list"
  | HungUp nat
  | Broke nat nat
  | Served nat "Frame option"
  | Woken nat
  | TimedOut nat
  | Background broker_call
  | StopCalled

definition put_conn :: "nat \<Rightarrow> Conn \<Rightarrow> Server \<Rightarrow> Server" where
  "put_conn i c s = s\<lparr>sv_conns := AList.update i c (sv_conns s)\<rparr>"

definition frame_read :: "Conn \<Rightarrow> Frame option" where
  "frame_read c = (case fst (ReadFrame (cn_in c)) of Inl _ \<Rightarrow> None | Inr f \<Rightarrow> Some f)"

fun background :: "broker_call \<Rightarrow> bool" where
  "background C_Tick = True"
| "background (C_Flush tn) = True"
| "background C_Outcomes = True"
| "background _ = False"

inductive server_step :: "server_event \<Rightarrow> broker_call list \<Rightarrow> Server \<Rightarrow> Server \<Rightarrow> bool" where
  accept: "sv_listening s \<Longrightarrow> map_of (sv_conns s) i = None \<Longrightarrow>
    server_step (Accepted i) [] s (snd (Start_accept (Inr i) s))"
| arrive: "map_of (sv_conns s) i = Some c \<Longrightarrow> \<not> cn_eof c \<Longrightarrow>
    server_step (Arrived i bs) [] s (put_conn i (c\<lparr>cn_in := cn_in c @ bs\<rparr>) s)"
| hangup: "map_of (sv_conns s) i = Some c \<Longrightarrow> server_step (HungUp i) [] s (put_conn i (c\<lparr>cn_eof := True\<rparr>) s)"
| broken: "map_of (sv_conns s) i = Some c \<Longrightarrow>
    server_step (Broke i n) [] s (put_conn i (c\<lparr>cn_out := (cn_out c)\<lparr>w_room := Some n\<rparr>\<rparr>) s)"
| serve: "map_of (sv_conns s) i = Some c \<Longrightarrow> cn_phase c = Reading \<Longrightarrow> frame_ready c \<Longrightarrow>
    handleConnection_turn now c (sv_broker s) = Some (Inr c', b') \<Longrightarrow>
    server_step (Served i (frame_read c)) (case frame_read c of None \<Rightarrow> [] | Some f \<Rightarrow> calls_of f) s
      (put_conn i c' (s\<lparr>sv_broker := b'\<rparr>))"
| wake: "map_of (sv_conns s) i = Some c \<Longrightarrow> cn_phase c = Polling reqID req ch \<Longrightarrow>
    Fetch_receive ch (sv_broker s) = Some (r, b1) \<Longrightarrow> handleConnection_woken reqID r c b1 = Some (Inr c', b') \<Longrightarrow>
    server_step (Woken i) [C_Receive ch] s (put_conn i c' (s\<lparr>sv_broker := b'\<rparr>))"
| expire: "map_of (sv_conns s) i = Some c \<Longrightarrow> cn_phase c = Polling reqID req ch \<Longrightarrow>
    Fetch_timeout req ch (sv_broker s) = Some (r, b1) \<Longrightarrow> handleConnection_woken reqID r c b1 = Some (Inr c', b') \<Longrightarrow>
    server_step (TimedOut i) [C_Timeout req ch] s (put_conn i c' (s\<lparr>sv_broker := b'\<rparr>))"
| background: "background k \<Longrightarrow> broker_step k (sv_broker s) b' \<Longrightarrow>
    server_step (Background k) [k] s (s\<lparr>sv_broker := b'\<rparr>)"
| stop: "server_step StopCalled [] s (snd (Stop_begin s))"

inductive server_run :: "(server_event \<times> broker_call list) list \<Rightarrow> Server \<Rightarrow> Server \<Rightarrow> bool" where
  stay: "server_run [] s s"
| step: "server_step e cs s s1 \<Longrightarrow> server_run es s1 s' \<Longrightarrow> server_run ((e, cs) # es) s s'"


lemma put_conn_simps [simp]:
  "sv_broker (put_conn i c s) = sv_broker s" "sv_closed (put_conn i c s) = sv_closed s"
  "sv_listening (put_conn i c s) = sv_listening s"
  "map_of (sv_conns (put_conn i c s)) j = (if j = i then Some c else map_of (sv_conns s) j)"
  by (simp_all add: put_conn_def AList.update_conv')








section \<open>A connection\<close>

text \<open>The requests of a connection and their answers, one after the other.\<close>

inductive answered :: "int list \<Rightarrow> Frame list \<Rightarrow> Broker \<Rightarrow> Frame list \<Rightarrow> Broker \<Rightarrow> bool" where
  quiet: "answered [] [] b [] b"
| one: "processFrame (received f) now b = Some (Inr (Reply g), b1) \<Longrightarrow> answered nows fs b1 gs b' \<Longrightarrow>
    answered (now # nows) (f # fs) b (g # gs) b'"

lemma respond_sent:
  assumes "w_room (cn_out c) = None"
  shows "respond g c = c\<lparr>cn_out := (cn_out c)\<lparr>w_out := w_out (cn_out c) @ wire_Frame g\<rparr>, cn_phase := Reading\<rparr>"
  using WriteFrame_wire [OF assms, of g] by (simp add: respond_def)

lemma turn_answers:
  assumes "length (f_Body f) < 2 ^ 32" and "processFrame (received f) now b = Some (Inr (Reply g), b')"
    and "cn_in c = wire_Frame f @ rest" and "w_room (cn_out c) = None"
  shows "handleConnection_turn now c b = Some (Inr (c\<lparr>cn_in := rest,
    cn_out := (cn_out c)\<lparr>w_out := w_out (cn_out c) @ wire_Frame g\<rparr>, cn_phase := Reading\<rparr>), b')"
proof -
  have w: "w_room (cn_out (c\<lparr>cn_in := rest\<rparr>)) = None" using assms(4) by simp
  show ?thesis
    unfolding handleConnection_turn_def assms(3) ReadFrame_wire [OF assms(1)] prod.case sum.case
      loop_step [where m = "processFrame (received f) now", OF assms(2)] processed.case respond_sent [OF w]
    by (simp add: run_def ret_def)
qed

lemma connection_answers:
  assumes "answered nows fs b gs b'"
  shows "list_all (\<lambda>f. length (f_Body f) < 2 ^ 32) fs \<Longrightarrow> cn_in c = concat (map wire_Frame fs) @ rest \<Longrightarrow>
    w_room (cn_out c) = None \<Longrightarrow> cn_phase c = Reading \<Longrightarrow>
    handleConnection nows c b = Some (Inr (c\<lparr>cn_in := rest,
      cn_out := (cn_out c)\<lparr>w_out := w_out (cn_out c) @ concat (map wire_Frame gs)\<rparr>\<rparr>), b') \<and>
    map f_ReqID gs = map f_ReqID fs"
  using assms
proof (induction arbitrary: c rule: answered.induct)
  case (quiet b)
  then show ?case by (simp add: run_def ret_def)
next
  case (one f now b g b1 nows fs gs b')
  let ?c = "c\<lparr>cn_in := concat (map wire_Frame fs) @ rest,
    cn_out := (cn_out c)\<lparr>w_out := w_out (cn_out c) @ wire_Frame g\<rparr>, cn_phase := Reading\<rparr>"
  have t: "handleConnection_turn now c b = Some (Inr ?c, b1)"
    using one.prems by (intro turn_answers [OF _ one.hyps(1)]) simp_all
  have "f_ReqID g = f_ReqID f" using processFrame_answers [OF one.hyps(1)] by (simp add: answers_def received_def)
  moreover have IH: "handleConnection nows ?c b1 = Some (Inr (?c\<lparr>cn_in := rest,
      cn_out := (cn_out ?c)\<lparr>w_out := w_out (cn_out ?c) @ concat (map wire_Frame gs)\<rparr>\<rparr>), b')"
    "map f_ReqID gs = map f_ReqID fs"
    using one.IH [of ?c] one.prems by simp_all
  moreover have "handleConnection (now # nows) c b = handleConnection nows ?c b1"
    unfolding handleConnection.simps loop_step [where m = "handleConnection_turn now c", OF t] by simp
  moreover have "?c\<lparr>cn_in := rest, cn_out := (cn_out ?c)\<lparr>w_out := w_out (cn_out ?c) @ concat (map wire_Frame gs)\<rparr>\<rparr> =
      c\<lparr>cn_in := rest, cn_out := (cn_out c)\<lparr>w_out := w_out (cn_out c) @ concat (map wire_Frame (g # gs))\<rparr>\<rparr>"
    using one.prems(4) by (cases c) simp
  ultimately show ?case by simp
qed

section \<open>Stopping\<close>

definition idle :: "Conn \<Rightarrow> bool" where
  "idle c \<longleftrightarrow> cn_phase c = Reading \<and> cn_in c = [] \<and> \<not> cn_eof c"

fun heard :: "nat \<Rightarrow> server_event \<Rightarrow> bool" where
  "heard i (Arrived j bs) = (i = j)"
| "heard i (HungUp j) = (i = j)"
| "heard i _ = False"

lemma idle_stays:
  assumes "server_step e cs s s'" and "map_of (sv_conns s) i = Some c" and "idle c" and "\<not> heard i e"
  shows "\<exists>c'. map_of (sv_conns s') i = Some c' \<and> idle c'"
  using assms(1)
proof (cases rule: server_step.cases)
  case (accept j)
  then show ?thesis using assms(2,3) by (auto simp: Start_accept_def AList.update_conv')
next
  case (serve j d now d' b')
  have "j \<noteq> i"
  proof
    assume "j = i"
    then have "d = c" using serve assms(2) by simp
    moreover have "\<not> frame_ready c" using assms(3) by (simp add: frame_ready_def idle_def ReadFrame_def ReadFull_def)
    ultimately show False using serve by simp
  qed
  then show ?thesis using serve assms(2,3) by simp
next
  case (wake j d reqID req ch r b1 d' b')
  then have "j \<noteq> i" using assms(2,3) by (auto simp: idle_def)
  then show ?thesis using wake assms(2,3) by simp
next
  case (expire j d reqID req ch r b1 d' b')
  then have "j \<noteq> i" using assms(2,3) by (auto simp: idle_def)
  then show ?thesis using expire assms(2,3) by simp
next
  case stop
  then show ?thesis using assms(2,3) by (simp add: Stop_begin_def)
qed (use assms(2-4) in \<open>auto simp: idle_def\<close>)

lemma idle_run:
  "server_run es s s' \<Longrightarrow> map_of (sv_conns s) i = Some c \<Longrightarrow> idle c \<Longrightarrow> \<forall>e \<in> fst ` set es. \<not> heard i e \<Longrightarrow>
    \<exists>c'. map_of (sv_conns s') i = Some c' \<and> idle c'"
proof (induction arbitrary: c rule: server_run.induct)
  case (step e cs s s1 es s')
  from idle_stays [OF step(1) step.prems(1,2)] step.prems(3)
  obtain c1 where "map_of (sv_conns s1) i = Some c1" "idle c1" by auto
  from step.IH [OF this] step.prems(3) show ?case by simp
qed blast

section \<open>Properties\<close>

text \<open>
  C30: an answer belongs to its request: whatever frame a client sends, the answer carries its
  request number, and its type is that of the request's response or that of an error; a
  request waits only when it is a well-formed fetch.
\<close>

theorem answers_match_requests:
  assumes "processFrame f now b = Some (Inr p, b')"
  shows "case p of
      Reply g \<Rightarrow> f_ReqID g = f_ReqID f \<and> (f_Type g = f_Type f + 0x80 \<or> f_Type g = TypeRespError)
    | Waits req ch \<Rightarrow> f_Type f = TypeReqFetch \<and> UnmarshalFetchRequest (f_Body f) = Inr req"
  using processFrame_answers [OF assms] unfolding answers_def by (auto split: processed.splits)

definition ack_frame :: Frame where
  "ack_frame = \<lparr>f_Type = TypeReqAck, f_ReqID = 7, f_Length = 14,
     f_Body = wire_AckRequest \<lparr>ar_Topic = ''t'', ar_Group = ''g'', ar_Offset = 0\<rparr>\<rparr>"

lemma ack_frame_simps [simp]: "f_Type ack_frame = TypeReqAck" "f_ReqID ack_frame = 7"
  "UnmarshalAckRequest (f_Body ack_frame) = Inr \<lparr>ar_Topic = ''t'', ar_Group = ''g'', ar_Offset = 0\<rparr>"
  using ackRequest.unmarshal_wire [of "\<lparr>ar_Topic = ''t'', ar_Group = ''g'', ar_Offset = 0\<rparr>" "[]"]
  by (simp_all add: ack_frame_def fits_AckRequest_def)

lemma ack_frame_processed:
  "Ack ''t'' ''g'' 0 b = Some (Inr (), b') \<Longrightarrow> processFrame ack_frame now b = Some (Inr (Reply (response TypeRespAck 7 [])), b')"
  by (simp add: processFrame_cases process_Ack_def then_loop_def try_loop_def run_def ret_def)

theorem answers_match_requests_witness:
  "\<exists>g b'. processFrame ack_frame 0 leased_broker = Some (Inr (Reply g), b') \<and> f_ReqID g = 7 \<and>
    (f_Type g = TypeReqAck + 0x80 \<or> f_Type g = TypeRespError)"
proof -
  obtain b' where p: "processFrame ack_frame 0 leased_broker = Some (Inr (Reply (response TypeRespAck 7 [])), b')"
    using leased_Ack ack_frame_processed by blast
  from answers_match_requests [OF p] p show ?thesis by auto
qed

text \<open>
  C31: a request the server cannot read is refused without touching the broker: an unknown type
  with the code 1000, a body its decoder does not accept with the code 1003 and the text of
  the decoder, in an error frame a client can decode.
\<close>

theorem unreadable_requests_refused:
  assumes "request_error f = Some (code, message)"
  shows "\<exists>g. processFrame f now b = Some (Inr (Reply g), b) \<and> f_Type g = TypeRespError \<and> f_ReqID g = f_ReqID f \<and>
    UnmarshalErrorResponse (f_Body g) = Inr \<lparr>er_Code = code, er_Message = message\<rparr>"
  using request_refused [OF assms, of now b] error_frame_reads by auto

theorem unreadable_requests_refused_witness:
  "\<exists>g. processFrame \<lparr>f_Type = TypeReqAck, f_ReqID = 5, f_Length = 1, f_Body = [0]\<rparr> 0 sample_broker = Some (Inr (Reply g), sample_broker) \<and>
    UnmarshalErrorResponse (f_Body g) = Inr \<lparr>er_Code = 1003, er_Message = ''malformed AckRequest''\<rparr>"
proof -
  have "request_error \<lparr>f_Type = TypeReqAck, f_ReqID = 5, f_Length = 1, f_Body = [0]\<rparr> = Some (1003, ''malformed AckRequest'')"
    by (simp add: request_error_def UnmarshalAckRequest_def ErrCodeInvalidPayload_def)
  from unreadable_requests_refused [OF this, of 0 sample_broker] show ?thesis by auto
qed


definition ack_conn :: Conn where
  "ack_conn = new_conn\<lparr>cn_in := wire_Frame ack_frame\<rparr>"

definition leased_server :: Server where
  "leased_server = \<lparr>sv_broker = leased_broker, sv_conns = [(0, ack_conn)], sv_listening = True, sv_closed = False\<rparr>"


lemma ack_frame_received: "received ack_frame = ack_frame" "length (f_Body ack_frame) < 2 ^ 32"
  by (simp_all add: received_def ack_frame_def wire_AckRequest_def)



text \<open>
  C18: the loop of a connection answers the requests of its client in order, each once: when
  \<^verbatim>\<open>processFrame\<close> answers frame after frame, the bytes written are the answers one behind the
  other, their request numbers are those of the requests, and what has arrived behind the
  last request is left to the next turn.
\<close>

theorem connection_answers_in_order:
  assumes "answered nows fs b gs b'" and "list_all (\<lambda>f. length (f_Body f) < 2 ^ 32) fs"
    and "cn_in c = concat (map wire_Frame fs) @ rest" and "w_room (cn_out c) = None" and "cn_phase c = Reading"
  shows "\<exists>c'. handleConnection nows c b = Some (Inr c', b') \<and> cn_phase c' = Reading \<and> cn_in c' = rest \<and>
    w_out (cn_out c') = w_out (cn_out c) @ concat (map wire_Frame gs) \<and> map f_ReqID gs = map f_ReqID fs"
  using connection_answers [OF assms] assms(5) by simp

definition ping_frame :: Frame where
  "ping_frame = \<lparr>f_Type = TypeReqPing, f_ReqID = 8, f_Length = 0, f_Body = []\<rparr>"

theorem connection_answers_in_order_witness:
  "\<exists>b' c'. handleConnection [0, 1] (new_conn\<lparr>cn_in := wire_Frame ack_frame @ wire_Frame ping_frame @ [3]\<rparr>) leased_broker = Some (Inr c', b') \<and>
    cn_in c' = [3] \<and> w_out (cn_out c') = wire_Frame (response TypeRespAck 7 []) @ wire_Frame (response TypeRespPong 8 [])"
proof -
  let ?c = "new_conn\<lparr>cn_in := wire_Frame ack_frame @ wire_Frame ping_frame @ [3]\<rparr>"
  obtain b' where b': "Ack ''t'' ''g'' 0 leased_broker = Some (Inr (), b')" using leased_Ack by blast
  have p: "f_Type ping_frame = TypeReqPing" "received ping_frame = ping_frame" "f_ReqID ping_frame = 8"
    by (simp_all add: ping_frame_def received_def)
  have "processFrame (received ping_frame) 1 b' = Some (Inr (Reply (response TypeRespPong 8 [])), b')"
    unfolding p(2) processFrame_cases(1) [OF p(1)] p(3) by (simp add: run_def ret_def)
  then have "answered [0, 1] [ack_frame, ping_frame] leased_broker [response TypeRespAck 7 [], response TypeRespPong 8 []] b'"
    using ack_frame_processed [OF b', of 0] ack_frame_received(1)
    by (intro answered.one [OF _ answered.one [OF _ answered.quiet]]) simp_all
  from connection_answers_in_order [OF this, of ?c "[3]"] show ?thesis
    using ack_frame_received(2) by (auto simp: new_conn_def ping_frame_def)
qed

text \<open>
  C37: \<^verbatim>\<open>Stop\<close> does not close the connections of clients, as its comment says, it waits for
  them: while one client stays connected without sending a byte, in whatever run of the rest
  of the server, the wait of \<^verbatim>\<open>Stop\<close> does not end, and the shutdown of the daemon does not
  come to closing the broker, which would flush its logs.
\<close>

theorem Stop_waits_for_idle_clients:
  assumes "server_run es s s'" and "map_of (sv_conns s) i = Some c" and "idle c"
    and "\<forall>e \<in> fst ` set es. \<not> heard i e"
  shows "\<not> Stop_wait_over s' \<and> main_shutdown s' = None"
proof -
  obtain c' where "map_of (sv_conns s') i = Some c'" "idle c'" using idle_run [OF assms] by blast
  then have "(i, c') \<in> set (sv_conns s')" "cn_phase c' \<noteq> Gone" by (auto simp: idle_def dest: map_of_SomeD)
  then show ?thesis by (auto simp: Stop_wait_over_def main_shutdown_def)
qed

theorem Stop_waits_for_idle_clients_witness:
  "\<exists>s1 s2. server_step (Accepted 1) [] leased_server s1 \<and> server_step StopCalled [] s1 s2 \<and> sv_closed s2 \<and>
    \<not> sv_listening s2 \<and> \<not> Stop_wait_over s2 \<and> main_shutdown s2 = None"
proof -
  let ?s1 = "snd (Start_accept (Inr 1) leased_server)" and ?s2 = "snd (Stop_begin (snd (Start_accept (Inr 1) leased_server)))"
  have a: "server_step (Accepted 1) [] leased_server ?s1"
    by (rule server_step.accept) (simp_all add: leased_server_def)
  have st: "server_step StopCalled [] ?s1 ?s2" by (rule server_step.stop)
  have r: "server_run [(StopCalled, [])] ?s1 ?s2" by (rule server_run.step [OF st server_run.stay])
  have c: "map_of (sv_conns ?s1) 1 = Some new_conn" "idle new_conn"
    by (simp_all add: Start_accept_def AList.update_conv' idle_def new_conn_def)
  have h: "\<forall>e \<in> fst ` set [(StopCalled, [] :: broker_call list)]. \<not> heard 1 e" by simp
  have "sv_closed ?s2" "\<not> sv_listening ?s2" by (simp_all add: Stop_begin_def Start_accept_def leased_server_def)
  with Stop_waits_for_idle_clients [OF r c h] a st show ?thesis by blast
qed

end
