(* ===== verification/Client_Calls.thy ===== *)
theory Client_Calls
  imports Client Server_Runs
begin

text \<open>
  The client, the server and the broker together: a call of the client over a working
  connection is the call of the broker, answer and error included.
\<close>

section \<open>A call and its answer\<close>

text \<open>The client after a call: it has written the frame \<open>f\<close> and \<open>rest\<close> is still to be read.\<close>

definition after_call :: "Client \<Rightarrow> Link \<Rightarrow> Frame \<Rightarrow> byte list \<Rightarrow> Client" where
  "after_call c lk f rest = c\<lparr>cl_conn := Some (lk\<lparr>lk_out := (lk_out lk)\<lparr>w_out := w_out (lk_out lk) @ wire_Frame f\<rparr>, lk_in := rest\<rparr>),
     cl_reqID := cl_reqID c + 1\<rparr>"

definition request :: "Client \<Rightarrow> byte \<Rightarrow> byte list \<Rightarrow> Frame" where
  "request c t body = \<lparr>f_Type = t, f_ReqID = cl_reqID c + 1, f_Length = of_nat (length body), f_Body = body\<rparr>"

lemma request_simps [simp]:
  "f_Type (request c t body) = t" "f_ReqID (request c t body) = cl_reqID c + 1" "f_Body (request c t body) = body"
  "received (request c t body) = request c t body"
  by (simp_all add: request_def received_def)

lemma and_then_step: "m s = (Inr a, s') \<Longrightarrow> and_then m f s = f a s'"
  by (simp add: and_then_def)

lemma execute_eval:
  assumes "cl_conn c = Some lk" and "\<not> lk_closed lk" and "w_room (lk_out lk) = None"
    and "lk_in lk = wire_Frame g @ rest" and "length (f_Body g) < 2 ^ 32"
  shows "execute t body c =
    (if f_Type g = TypeRespError then
       and_then (wrapf ''error response unmarshal failed'' (of_result (UnmarshalErrorResponse (f_Body g)))) (\<lambda>errResp.
       fail (Errorf (''broker error (code '' @ decimal (unat (er_Code errResp)) @ ''): '' @ er_Message errResp)))
         (after_call c lk (request c t body) rest)
     else (Inr (received g), after_call c lk (request c t body) rest))"
proof -
  let ?f = "request c t body"
  let ?c1 = "c\<lparr>cl_reqID := cl_reqID c + 1\<rparr>"
  let ?lk = "lk\<lparr>lk_out := (lk_out lk)\<lparr>w_out := w_out (lk_out lk) @ wire_Frame ?f\<rparr>\<rparr>"
  let ?c2 = "?c1\<lparr>cl_conn := Some ?lk\<rparr>"
  have n: "nextReqID c = (Inr (cl_reqID c + 1), ?c1)" by (simp add: nextReqID_def and_then_def modify_def gets_def)
  have w: "wrapf e (link_write ?f) ?c1 = (Inr (), ?c2)" for e
    using WriteFrame_wire [OF assms(3), of ?f] assms(1,2)
    by (simp add: wrapf_def link_write_def and_then_def gets_def modify_def of_result_def ret_def)
  have r: "wrapf e link_read ?c2 = (Inr (received g), after_call c lk ?f rest)" for e
    using ReadFrame_wire [OF assms(5), of rest] assms(1,2,4)
    by (simp add: wrapf_def link_read_def and_then_def gets_def modify_def of_result_def ret_def after_call_def)
  have f: "\<lparr>f_Type = t, f_ReqID = cl_reqID c + 1, f_Length = of_nat (length body), f_Body = body\<rparr> = ?f"
    by (simp add: request_def)
  show ?thesis
    unfolding execute_def and_then_step [where m = nextReqID, OF n] Let_def f
      and_then_step [where m = "wrapf _ (link_write ?f)", OF w] and_then_step [where m = "wrapf _ link_read", OF r]
    by (simp add: received_def ret_def)
qed

text \<open>An error frame becomes an error of the client, with the code and the text of the broker.\<close>

definition broker_error :: "u16 \<Rightarrow> go_error \<Rightarrow> go_error" where
  "broker_error code err = Errorf (''broker error (code '' @ decimal (unat code) @ ''): '' @ error_text err)"

lemma length_wire_ErrorResponse: "length (wire_ErrorResponse r) = 4 + length (er_Message r)"
  by (simp add: wire_ErrorResponse_def)

lemma execute_error:
  assumes "cl_conn c = Some lk" and "\<not> lk_closed lk" and "w_room (lk_out lk) = None"
    and "lk_in lk = wire_Frame (error_frame i code (error_text err)) @ rest" and "length (error_text err) < 2 ^ 16"
  shows "execute t body c = (Inl (broker_error code err), after_call c lk (request c t body) rest)"
proof -
  have "length (f_Body (error_frame i code (error_text err))) < 2 ^ 32"
    using assms(5) by (simp add: error_frame_def length_wire_ErrorResponse)
  from execute_eval [OF assms(1-4) this, of t body] error_frame_reads [OF assms(5)] show ?thesis
    by (simp add: wrapf_def of_result_def and_then_def ret_def fail_def broker_error_def)
qed

lemma execute_response:
  assumes "cl_conn c = Some lk" and "\<not> lk_closed lk" and "w_room (lk_out lk) = None"
    and "lk_in lk = wire_Frame g @ rest" and "length (f_Body g) < 2 ^ 32" and "f_Type g \<noteq> TypeRespError"
  shows "execute t body c = (Inr (received g), after_call c lk (request c t body) rest)"
  using execute_eval [OF assms(1-5)] assms(6) by simp

section \<open>Calls over the wire\<close>

text \<open>
  The remote call: \<open>op\<close> writes one request; a connection of the server that has received it
  makes the answer, and the broker goes from \<open>b\<close> to \<open>b'\<close>; when the client reads this answer,
  \<open>op\<close> gives \<open>r\<close>, and what is behind the answer is left for the next call.
\<close>

definition remote :: "(Client, 'a) prog \<Rightarrow> int \<Rightarrow> Client \<Rightarrow> Broker \<Rightarrow> 'a result \<Rightarrow> Broker \<Rightarrow> bool" where
  "remote op now c b r b' \<longleftrightarrow>
     (\<exists>req answer. \<forall>lk rest. \<not> lk_closed lk \<longrightarrow> w_room (lk_out lk) = None \<longrightarrow>
        handleConnection_turn now (new_conn\<lparr>cn_in := wire_Frame req\<rparr>) b =
          Some (Inr (new_conn\<lparr>cn_out := \<lparr>w_out = wire_Frame answer, w_room = None\<rparr>\<rparr>), b') \<and>
        op (c\<lparr>cl_conn := Some (lk\<lparr>lk_in := wire_Frame answer @ rest\<rparr>)\<rparr>) =
          (r, c\<lparr>cl_conn := Some (lk\<lparr>lk_out := (lk_out lk)\<lparr>w_out := w_out (lk_out lk) @ wire_Frame req\<rparr>, lk_in := rest\<rparr>),
                cl_reqID := cl_reqID c + 1\<rparr>))"

lemma remoteI:
  assumes "length body < 2 ^ 32" and "processFrame (request c t body) now b = Some (Inr (Reply answer), b')"
    and "\<And>lk rest c'. cl_conn c' = Some lk \<Longrightarrow> cl_reqID c' = cl_reqID c \<Longrightarrow> \<not> lk_closed lk \<Longrightarrow> w_room (lk_out lk) = None \<Longrightarrow>
      lk_in lk = wire_Frame answer @ rest \<Longrightarrow> op c' = (r, after_call c' lk (request c' t body) rest)"
  shows "remote op now c b r b'"
  unfolding remote_def
proof (intro exI allI impI conjI)
  fix lk :: Link and rest
  show "handleConnection_turn now (new_conn\<lparr>cn_in := wire_Frame (request c t body)\<rparr>) b =
      Some (Inr (new_conn\<lparr>cn_out := \<lparr>w_out = wire_Frame answer, w_room = None\<rparr>\<rparr>), b')"
    using turn_answers [of "request c t body" now b answer b' "new_conn\<lparr>cn_in := wire_Frame (request c t body)\<rparr>" "[]"] assms(1,2)
    by (simp add: new_conn_def)
  assume lk: "\<not> lk_closed lk" "w_room (lk_out lk) = None"
  let ?lk = "lk\<lparr>lk_in := wire_Frame answer @ rest\<rparr>"
  have "request (c\<lparr>cl_conn := Some ?lk\<rparr>) t body = request c t body" by (simp add: request_def)
  then show "op (c\<lparr>cl_conn := Some ?lk\<rparr>) =
      (r, c\<lparr>cl_conn := Some (lk\<lparr>lk_out := (lk_out lk)\<lparr>w_out := w_out (lk_out lk) @ wire_Frame (request c t body)\<rparr>, lk_in := rest\<rparr>),
            cl_reqID := cl_reqID c + 1\<rparr>)"
    using assms(3) [of "c\<lparr>cl_conn := Some ?lk\<rparr>" ?lk rest] lk by (simp add: after_call_def)
qed

lemma remote_Produce_run:
  assumes "Produce topic key val now b = Some (r, b')" and "r \<noteq> Inl Panic"
    and "length topic < 2 ^ 16" and "10 + length topic + length key + length val < 2 ^ 32"
    and "\<forall>e. r = Inl e \<longrightarrow> length (error_text e) < 2 ^ 16"
  shows "remote (Client_Produce topic key val) now c b (case r of Inl e \<Rightarrow> Inl (broker_error 1004 e) | Inr off \<Rightarrow> Inr off) b'"
proof -
  let ?req = "\<lparr>pr_Topic = topic, pr_Key = key, pr_Value = val\<rparr>"
  let ?body = "wire_ProduceRequest ?req"
  have len: "length ?body < 2 ^ 32" using assms(4) by (simp add: wire_ProduceRequest_def)
  have dec: "UnmarshalProduceRequest ?body = Inr ?req"
    using produceRequest.unmarshal_wire [of ?req "[]"] assms(3,4) by (simp add: fits_ProduceRequest_def)
  let ?i = "cl_reqID c + 1"
  define answer where "answer = (case r of Inl e \<Rightarrow> error_frame ?i ErrCodeInternalError (error_text e)
    | Inr off \<Rightarrow> response TypeRespProduce ?i (wire_ProduceResponse \<lparr>prs_Offset = off\<rparr>))"
  have p: "processFrame (request c TypeReqProduce ?body) now b = Some (Inr (Reply answer), b')"
    using assms(1,2) dec
    by (cases r) (auto simp: processFrame_cases process_Produce_def then_loop_def try_loop_def reply_error_eval answer_def
        produceResponse.marshal_wire reply_body_eval)
  show ?thesis
  proof (rule remoteI [OF len p])
    fix lk :: Link and rest and c' :: Client
    assume lk: "cl_conn c' = Some lk" "cl_reqID c' = cl_reqID c" "\<not> lk_closed lk" "w_room (lk_out lk) = None"
      and ans: "lk_in lk = wire_Frame answer @ rest"
    let ?c = "after_call c' lk (request c' TypeReqProduce ?body) rest"
    show "Client_Produce topic key val c' = (case r of Inl e \<Rightarrow> Inl (broker_error 1004 e) | Inr off \<Rightarrow> Inr off, ?c)"
    proof (cases r)
      case (Inl e)
      then have "execute TypeReqProduce ?body c' = (Inl (broker_error ErrCodeInternalError e), ?c)"
        using execute_error [OF lk(1,3,4) ans [unfolded answer_def Inl sum.case]] assms(5) by simp
      then show ?thesis using Inl
        by (simp add: Client_Produce_def produceRequest.marshal_wire of_result_def and_then_def ret_def ErrCodeInternalError_def)
    next
      case (Inr off)
      let ?g = "response TypeRespProduce ?i (wire_ProduceResponse \<lparr>prs_Offset = off\<rparr>)"
      have x: "execute TypeReqProduce ?body c' = (Inr (received ?g), ?c)"
        using ans Inr by (intro execute_response [OF lk(1,3,4)]) (simp_all add: answer_def wire_ProduceResponse_def frame_type_defs)
      have d: "UnmarshalProduceResponse (wire_ProduceResponse \<lparr>prs_Offset = off\<rparr>) = Inr \<lparr>prs_Offset = off\<rparr>"
        using produceResponse.unmarshal_wire [of "\<lparr>prs_Offset = off\<rparr>" "[]"] by (simp add: fits_ProduceResponse_def)
      show ?thesis using x d Inr
        by (simp add: Client_Produce_def produceRequest.marshal_wire of_result_def and_then_def ret_def expect_def wrapf_def received_def)
    qed
  qed
qed

lemma messages_fit:
  assumes "4 + sum_list (map (\<lambda>m. 24 + length (m_Key m) + length (m_Value m)) msgs) < 2 ^ 32"
  shows "fits_FetchResponse \<lparr>fr_Messages = msgs\<rparr> \<and> length (wire_FetchResponse \<lparr>fr_Messages = msgs\<rparr>) < 2 ^ 32"
proof -
  let ?size = "\<lambda>m. 24 + length (m_Key m) + length (m_Value m)"
  have le: "?size m \<le> sum_list (map ?size msgs)" if "m \<in> set msgs" for m
    using that by (induction msgs) auto
  have "length msgs \<le> sum_list (map ?size msgs)" by (induction msgs) auto
  moreover have "fits_Message m" if "m \<in> set msgs" for m using le [OF that] assms by (simp add: fits_Message_def)
  moreover have "length (concat (map wire_Message msgs)) = sum_list (map ?size msgs)"
    by (simp add: length_concat comp_def length_wire_Message)
  ultimately show ?thesis using assms by (simp add: fits_FetchResponse_def wire_FetchResponse_def list_all_iff)
qed

lemma remote_Fetch_run:
  assumes "Fetch req now b = Some (Inr (Returned msgs), b')"
    and "length (fq_Topic req) < 2 ^ 16" and "length (fq_Group req) < 2 ^ 16" and "length (fq_ConsumerID req) < 2 ^ 16"
    and "4 + sum_list (map (\<lambda>m. 24 + length (m_Key m) + length (m_Value m)) msgs) < 2 ^ 32"
  shows "remote (Client_Fetch req) now c b (Inr msgs) b'"
proof -
  let ?body = "wire_FetchRequest req"
  have len: "length ?body < 2 ^ 32" using assms(2-4) by (simp add: wire_FetchRequest_def)
  have dec: "UnmarshalFetchRequest ?body = Inr req"
    using fetchRequest.unmarshal_wire [of req "[]"] assms(2-4) by (simp add: fits_FetchRequest_def)
  let ?i = "cl_reqID c + 1"
  let ?g = "response TypeRespFetch ?i (wire_FetchResponse \<lparr>fr_Messages = msgs\<rparr>)"
  have p: "processFrame (request c TypeReqFetch ?body) now b = Some (Inr (Reply ?g), b')"
    using assms(1) dec
    by (simp add: processFrame_cases process_Fetch_def then_loop_def try_loop_def reply_messages_eval)
  note fits = messages_fit [OF assms(5)]
  show ?thesis
  proof (rule remoteI [OF len p])
    fix lk :: Link and rest and c' :: Client
    assume lk: "cl_conn c' = Some lk" "cl_reqID c' = cl_reqID c" "\<not> lk_closed lk" "w_room (lk_out lk) = None"
      and ans: "lk_in lk = wire_Frame ?g @ rest"
    let ?c = "after_call c' lk (request c' TypeReqFetch ?body) rest"
    have x: "execute TypeReqFetch ?body c' = (Inr (received ?g), ?c)"
      using fits by (intro execute_response [OF lk(1,3,4) ans]) (simp_all add: frame_type_defs)
    have d: "UnmarshalFetchResponse (wire_FetchResponse \<lparr>fr_Messages = msgs\<rparr>) = Inr \<lparr>fr_Messages = msgs\<rparr>"
      using fetchResponse.unmarshal_wire [of "\<lparr>fr_Messages = msgs\<rparr>" "[]"] fits by simp
    show "Client_Fetch req c' = (Inr msgs, ?c)" using x d
      by (simp add: Client_Fetch_def fetchRequest.marshal_wire of_result_def and_then_def ret_def expect_def wrapf_def received_def)
  qed
qed

text \<open>The calls without a result: acknowledging, rejecting, creating a topic.\<close>

lemma remote_unit:
  assumes "length body < 2 ^ 32" and "tr \<noteq> TypeRespError"
    and "processFrame (request c t body) now b = Some (Inr (Reply (case r of
      Inl e \<Rightarrow> error_frame (cl_reqID c + 1) (code e) (error_text e) | Inr _ \<Rightarrow> response tr (cl_reqID c + 1) [])), b')"
    and "\<forall>e. r = Inl e \<longrightarrow> length (error_text e) < 2 ^ 16"
    and op: "op = and_then (execute t body) (\<lambda>resp. expect tr resp)"
  shows "remote op now c b (case r of Inl e \<Rightarrow> Inl (broker_error (code e) e) | Inr _ \<Rightarrow> Inr ()) b'"
proof (rule remoteI [OF assms(1,3)])
  fix lk :: Link and rest and c' :: Client
  assume lk: "cl_conn c' = Some lk" "cl_reqID c' = cl_reqID c" "\<not> lk_closed lk" "w_room (lk_out lk) = None"
    and ans: "lk_in lk = wire_Frame (case r of
      Inl e \<Rightarrow> error_frame (cl_reqID c + 1) (code e) (error_text e) | Inr _ \<Rightarrow> response tr (cl_reqID c + 1) []) @ rest"
  let ?c = "after_call c' lk (request c' t body) rest"
  show "op c' = (case r of Inl e \<Rightarrow> Inl (broker_error (code e) e) | Inr _ \<Rightarrow> Inr (), ?c)"
  proof (cases r)
    case (Inl e)
    then have "execute t body c' = (Inl (broker_error (code e) e), ?c)"
      using execute_error [OF lk(1,3,4) ans [unfolded Inl sum.case]] assms(4) by simp
    then show ?thesis using Inl by (simp add: op and_then_def)
  next
    case (Inr u)
    have "execute t body c' = (Inr (received (response tr (cl_reqID c + 1) [])), ?c)"
      using ans Inr assms(2) by (intro execute_response [OF lk(1,3,4)]) simp_all
    then show ?thesis using Inr by (simp add: op and_then_def expect_def received_def ret_def)
  qed
qed

lemma remote_Ack_run:
  assumes "Ack topic grp off b = Some (r, b')" and "r \<noteq> Inl Panic"
    and "length topic < 2 ^ 16" and "length grp < 2 ^ 16" and "\<forall>e. r = Inl e \<longrightarrow> length (error_text e) < 2 ^ 16"
  shows "remote (Client_Ack topic grp off) now c b (case r of Inl e \<Rightarrow> Inl (broker_error (lease_error_code e) e) | Inr _ \<Rightarrow> Inr ()) b'"
proof (rule remote_unit [where t = TypeReqAck and tr = TypeRespAck and body = "wire_AckRequest \<lparr>ar_Topic = topic, ar_Group = grp, ar_Offset = off\<rparr>"])
  show "length (wire_AckRequest \<lparr>ar_Topic = topic, ar_Group = grp, ar_Offset = off\<rparr>) < 2 ^ 32"
    using assms(3,4) by (simp add: wire_AckRequest_def)
  have "UnmarshalAckRequest (wire_AckRequest \<lparr>ar_Topic = topic, ar_Group = grp, ar_Offset = off\<rparr>) =
      Inr \<lparr>ar_Topic = topic, ar_Group = grp, ar_Offset = off\<rparr>"
    using ackRequest.unmarshal_wire [of "\<lparr>ar_Topic = topic, ar_Group = grp, ar_Offset = off\<rparr>" "[]"] assms(3,4)
    by (simp add: fits_AckRequest_def)
  with assms(1,2) show "processFrame (request c TypeReqAck (wire_AckRequest \<lparr>ar_Topic = topic, ar_Group = grp, ar_Offset = off\<rparr>)) now b =
      Some (Inr (Reply (case r of Inl e \<Rightarrow> error_frame (cl_reqID c + 1) (lease_error_code e) (error_text e)
        | Inr _ \<Rightarrow> response TypeRespAck (cl_reqID c + 1) [])), b')"
    by (cases r) (auto simp: processFrame_cases process_Ack_def then_loop_def try_loop_def reply_error_eval run_def ret_def)
  show "Client_Ack topic grp off = and_then (execute TypeReqAck (wire_AckRequest \<lparr>ar_Topic = topic, ar_Group = grp, ar_Offset = off\<rparr>))
      (\<lambda>resp. expect TypeRespAck resp)"
    by (simp add: Client_Ack_def ackRequest.marshal_wire of_result_def ret_and_then)
qed (use assms(5) in \<open>simp_all add: frame_type_defs\<close>)

lemma remote_Nack_run:
  assumes "Nack topic grp off now b = Some (r, b')" and "r \<noteq> Inl Panic"
    and "length topic < 2 ^ 16" and "length grp < 2 ^ 16" and "\<forall>e. r = Inl e \<longrightarrow> length (error_text e) < 2 ^ 16"
  shows "remote (Client_Nack topic grp off) now c b (case r of Inl e \<Rightarrow> Inl (broker_error (lease_error_code e) e) | Inr _ \<Rightarrow> Inr ()) b'"
proof (rule remote_unit [where t = TypeReqNack and tr = TypeRespNack and body = "wire_NackRequest \<lparr>nr_Topic = topic, nr_Group = grp, nr_Offset = off\<rparr>"])
  show "length (wire_NackRequest \<lparr>nr_Topic = topic, nr_Group = grp, nr_Offset = off\<rparr>) < 2 ^ 32"
    using assms(3,4) by (simp add: wire_NackRequest_def)
  have "UnmarshalNackRequest (wire_NackRequest \<lparr>nr_Topic = topic, nr_Group = grp, nr_Offset = off\<rparr>) =
      Inr \<lparr>nr_Topic = topic, nr_Group = grp, nr_Offset = off\<rparr>"
    using nackRequest.unmarshal_wire [of "\<lparr>nr_Topic = topic, nr_Group = grp, nr_Offset = off\<rparr>" "[]"] assms(3,4)
    by (simp add: fits_NackRequest_def)
  with assms(1,2) show "processFrame (request c TypeReqNack (wire_NackRequest \<lparr>nr_Topic = topic, nr_Group = grp, nr_Offset = off\<rparr>)) now b =
      Some (Inr (Reply (case r of Inl e \<Rightarrow> error_frame (cl_reqID c + 1) (lease_error_code e) (error_text e)
        | Inr _ \<Rightarrow> response TypeRespNack (cl_reqID c + 1) [])), b')"
    by (cases r) (auto simp: processFrame_cases process_Nack_def then_loop_def try_loop_def reply_error_eval run_def ret_def)
  show "Client_Nack topic grp off = and_then (execute TypeReqNack (wire_NackRequest \<lparr>nr_Topic = topic, nr_Group = grp, nr_Offset = off\<rparr>))
      (\<lambda>resp. expect TypeRespNack resp)"
    by (simp add: Client_Nack_def nackRequest.marshal_wire of_result_def ret_and_then)
qed (use assms(5) in \<open>simp_all add: frame_type_defs\<close>)

section \<open>Publishing and fetching\<close>

lemma publish_then_fetch:
  assumes "map_of (b_topics b) (fq_Topic req) = Some t" and "\<not> t_mu t" and "nobody_waits t"
    and "map_of (t_groups t) (fq_Group req) = Some g" and "log_ok b0 es (t_wal t)" and "script (t_wal t) = []"
    and "group_ok g" and "b0 \<le> committed g" and "window_end g = b0 + length es"
    and "\<forall>off l. map_of (g_Leases g) off = Some l \<longrightarrow> \<not> is_expired now' l"
    and "0 < fq_MaxMessages req" and "b0 + length es + 1 < 2 ^ 64"
    and "length (fq_Topic req) < 2 ^ 16" and "length (fq_Group req) < 2 ^ 16" and "length (fq_ConsumerID req) < 2 ^ 16"
    and "2 ^ 17 + length key + length val < 2 ^ 32" and "length (enc_log es) + (29 + length key + length val) < 2 ^ 63"
  shows "\<exists>b1 b2. remote (Client_Produce (fq_Topic req) key val) now producer b (Inr (of_nat (b0 + length es))) b1 \<and>
    remote (Client_Fetch req) now' consumer b1
      (Inr [\<lparr>m_Offset = of_nat (b0 + length es), m_Timestamp = of_int now, m_Key = key, m_Value = val\<rparr>]) b2"
proof -
  let ?tn = "fq_Topic req" and ?N = "b0 + length es" and ?e = "next_entry b0 es (of_int now) key val"
  have room: "room_for b0 es ?e" using assms(12,16,17) by (simp add: room_for_def next_entry_def entry_fits_def length_enc)
  obtain w where p: "Produce ?tn key val now b = Some (Inr (of_nat ?N), set_topic ?tn (t\<lparr>t_wal := w\<rparr>) b)"
    and w: "log_ok b0 (es @ [?e]) w" "script w = []"
    using Produce_run [OF assms(1-3,5) room] assms(6) by (auto simp: set_topic_def)
  let ?b1 = "set_topic ?tn (t\<lparr>t_wal := w\<rparr>) b"
  have t1: "map_of (b_topics ?b1) ?tn = Some (t\<lparr>t_wal := w\<rparr>)" "\<not> t_mu (t\<lparr>t_wal := w\<rparr>)"
    "map_of (t_groups (t\<lparr>t_wal := w\<rparr>)) (fq_Group req) = Some g" "log_ok b0 (es @ [?e]) (t_wal (t\<lparr>t_wal := w\<rparr>))"
    "script (t_wal (t\<lparr>t_wal := w\<rparr>)) = []"
    using assms(2,4) w by simp_all
  have few: "\<forall>off l. map_of (g_Leases g) off = Some l \<longrightarrow> is_expired now' l \<longrightarrow> l_Redeliveries l < MaxRedeliveries (b_cfg ?b1)"
    using assms(10) by blast
  have reach: "window_end g \<le> b0 + length (es @ [?e])" using assms(9) by simp
  have "distinct (map fst (g_Leases g))" using assms(7) by (simp add: group_ok_def)
  from expired_offsets_set [OF this, of _ now'] have "x \<notin> set (expired_offsets now' g)" for x using assms(10) by blast
  then have none: "expired_offsets now' g = []" by (cases "expired_offsets now' g") auto
  have "0 < unat (fq_MaxMessages req)" using assms(11) by (simp add: unat_gt_0)
  then have offs: "due now' (fq_MaxMessages req) (b0 + length (es @ [?e])) g = [of_nat ?N]"
    using assms(9) by (simp add: due_def none)
  have m: "msg_at b0 (es @ [?e]) (of_nat ?N) = \<lparr>m_Offset = of_nat ?N, m_Timestamp = of_int now, m_Key = key, m_Value = val\<rparr>"
    using assms(12) unat_of_nat_u64 [of ?N] by (simp add: msg_at_def message_of_def record_of_def next_entry_def nth_append)
  obtain b2 where f: "Fetch req now' ?b1 = Some (Inr (Returned [msg_at b0 (es @ [?e]) (of_nat ?N)]), b2)"
    using Fetch_run [OF t1(1-4) assms(7,8) reach few t1(5), unfolded offs Let_def] by auto
  have "remote (Client_Produce ?tn key val) now producer b (Inr (of_nat ?N)) ?b1"
    using remote_Produce_run [OF p, of producer] assms(13,16) by simp
  moreover have "remote (Client_Fetch req) now' consumer ?b1 (Inr [msg_at b0 (es @ [?e]) (of_nat ?N)]) b2"
    using assms(16) unfolding m by (intro remote_Fetch_run [OF f [unfolded m] assms(13-15)]) simp
  ultimately show ?thesis unfolding m by blast
qed

section \<open>Properties\<close>

text \<open>
  C19: a client that publishes gets what the broker did: over a working connection
  \<^verbatim>\<open>Client.Produce\<close> sends one request, the server turns it into \<^verbatim>\<open>Broker.Produce\<close> with the same
  topic, key and value, and the client returns the offset, or an error with the text of the
  broker's error, and has read exactly the answer.
\<close>

theorem remote_Produce:
  assumes "Produce topic key val now b = Some (r, b')" and "r \<noteq> Inl Panic"
    and "length topic < 2 ^ 16" and "10 + length topic + length key + length val < 2 ^ 32"
    and "\<forall>e. r = Inl e \<longrightarrow> length (error_text e) < 2 ^ 16"
  shows "remote (Client_Produce topic key val) now c b
    (case r of Inl e \<Rightarrow> Inl (Errorf (''broker error (code 1004): '' @ error_text e)) | Inr off \<Rightarrow> Inr off) b'"
proof -
  have "decimal 1004 = ''1004''" by code_simp
  then have e: "broker_error 1004 = (\<lambda>e. Errorf (''broker error (code 1004): '' @ error_text e))"
    by (intro ext) (simp add: broker_error_def)
  show ?thesis using remote_Produce_run [OF assms, of c] unfolding e .
qed

theorem remote_Produce_witness:
  "\<exists>b'. remote (Client_Produce ''t'' [1] [2]) 9 (NewClient ''localhost'') sample_broker (Inr 1) b'"
proof -
  have ok: "log_ok 0 [sample_entry] (t_wal sample_topic)" by (simp add: sample_log_ok)
  have room: "room_for 0 [sample_entry] (next_entry 0 [sample_entry] (of_int 9) [1] [2])"
    by (simp add: room_for_def next_entry_def entry_fits_def length_enc sample_entry_def)
  obtain b' where "Produce ''t'' [1] [2] 9 sample_broker = Some (Inr 1, b')"
    using Produce_run [OF sample_broker_simps(1) sample_nobody_waits(2,1) ok room] by (auto simp: sample_log_def)
  from remote_Produce [OF this, of "NewClient ''localhost''"] show ?thesis by auto
qed

text \<open>
  C5: end to end: a message one client publishes is the next message a consumer of a group
  that has read everything before gets, with the key and the value that were published, the
  offset the producer was told and the time of publication.
\<close>

theorem published_message_is_fetched:
  assumes "map_of (b_topics b) (fq_Topic req) = Some t" and "\<not> t_mu t" and "nobody_waits t"
    and "map_of (t_groups t) (fq_Group req) = Some g" and "log_ok b0 es (t_wal t)" and "script (t_wal t) = []"
    and "group_ok g" and "b0 \<le> committed g" and "window_end g = b0 + length es"
    and "\<forall>off l. map_of (g_Leases g) off = Some l \<longrightarrow> \<not> is_expired now' l"
    and "0 < fq_MaxMessages req" and "b0 + length es + 1 < 2 ^ 64"
    and "length (fq_Topic req) < 2 ^ 16" and "length (fq_Group req) < 2 ^ 16" and "length (fq_ConsumerID req) < 2 ^ 16"
    and "2 ^ 17 + length key + length val < 2 ^ 32" and "length (enc_log es) + (29 + length key + length val) < 2 ^ 63"
  shows "\<exists>b1 b2. remote (Client_Produce (fq_Topic req) key val) now producer b (Inr (of_nat (b0 + length es))) b1 \<and>
    remote (Client_Fetch req) now' consumer b1
      (Inr [\<lparr>m_Offset = of_nat (b0 + length es), m_Timestamp = of_int now, m_Key = key, m_Value = val\<rparr>]) b2"
  using assms by (rule publish_then_fetch)

theorem published_message_is_fetched_witness:
  "\<exists>b1 b2. remote (Client_Produce ''t'' [4] [5]) 70 (NewClient ''a'') idle_broker (Inr 1) b1 \<and>
    remote (Client_Fetch poll) 100 (NewClient ''b'') b1
      (Inr [\<lparr>m_Offset = 1, m_Timestamp = 70, m_Key = [4], m_Value = [5]\<rparr>]) b2"
proof -
  let ?t = "sample_topic\<lparr>t_groups := [(''g'', idle_group)]\<rparr>"
  have t: "map_of (b_topics idle_broker) (fq_Topic poll) = Some ?t" "map_of (t_groups ?t) (fq_Group poll) = Some idle_group"
    "\<not> t_mu ?t" "nobody_waits ?t" "log_ok 0 [sample_entry] (t_wal ?t)" "script (t_wal ?t) = []"
    by (simp_all add: idle_broker_def sample_log_ok sample_broker_def sample_topic_def world.defs nobody_waits_def pending_of_def)
  have g: "group_ok idle_group" "0 \<le> committed idle_group" "window_end idle_group = 0 + length [sample_entry]"
    "\<forall>off l. map_of (g_Leases idle_group) off = Some l \<longrightarrow> \<not> is_expired 100 l"
    by (simp_all add: idle_group_def)
  show ?thesis
    using published_message_is_fetched [OF t(1,3,4,2,5,6) g, of "[4]" "[5]" 70 "NewClient ''a''" "NewClient ''b''"]
    by (simp add: length_enc sample_entry_def)
qed

text \<open>
  C20: acknowledging and rejecting over the wire: the client's call is the broker's call, and of
  its two errors the client learns which: the code 1005 for a lease that is not there or
  acknowledged already, 1001 for a topic that does not exist.
\<close>

theorem remote_Ack_Nack:
  assumes "Ack topic grp off b = Some (ra, ba)" and "ra \<noteq> Inl Panic" and "\<forall>e. ra = Inl e \<longrightarrow> length (error_text e) < 2 ^ 16"
    and "Nack topic grp off now b = Some (rn, bn)" and "rn \<noteq> Inl Panic" and "\<forall>e. rn = Inl e \<longrightarrow> length (error_text e) < 2 ^ 16"
    and "length topic < 2 ^ 16" and "length grp < 2 ^ 16"
  shows "remote (Client_Ack topic grp off) now c b (case ra of Inl e \<Rightarrow> Inl (broker_error
      (if errors_Is e ErrLeaseNotFound then 1005 else if errors_Is e ErrTopicNotFound then 1001 else 1004) e) | Inr _ \<Rightarrow> Inr ()) ba \<and>
    remote (Client_Nack topic grp off) now c b (case rn of Inl e \<Rightarrow> Inl (broker_error
      (if errors_Is e ErrLeaseNotFound then 1005 else if errors_Is e ErrTopicNotFound then 1001 else 1004) e) | Inr _ \<Rightarrow> Inr ()) bn"
  using remote_Ack_run [OF assms(1,2,7,8,3), of now c] remote_Nack_run [OF assms(4,5,7,8,6), of c]
  unfolding lease_error_code_def ErrCodeLeaseExpired_def ErrCodeTopicNotFound_def ErrCodeInternalError_def by blast

theorem remote_Ack_Nack_witness:
  "remote (Client_Ack ''nope'' ''g'' 0) 9 (NewClient ''a'') sample_broker (Inl (broker_error 1001 ErrTopicNotFound)) sample_broker \<and>
   remote (Client_Nack ''nope'' ''g'' 0) 9 (NewClient ''a'') sample_broker (Inl (broker_error 1001 ErrTopicNotFound)) sample_broker"
proof -
  have no: "map_of (b_topics sample_broker) ''nope'' = None" by (simp add: sample_broker_def world.defs)
  then have "Ack ''nope'' ''g'' 0 sample_broker = Some (Inl ErrTopicNotFound, sample_broker)"
    "Nack ''nope'' ''g'' 0 9 sample_broker = Some (Inl ErrTopicNotFound, sample_broker)"
    by (simp_all add: Ack_def Nack_def then_loop_def run_def gets_def fail_def)
  from remote_Ack_Nack [OF this(1) _ _ this(2), of "NewClient ''a''"] show ?thesis by simp
qed

end
