(* ===== verification/Cli_Runs.thy ===== *)
theory Cli_Runs
  imports Cli_Args Client_Calls
begin

text \<open>
  The command line against the server: what a process prints, and what it leaves in the broker.
\<close>

section \<open>A process and the server\<close>

text \<open>
  The process with the arguments \<open>argv\<close> connects and writes one request; the server's connection that has
  received it makes the answer, and the broker goes from \<open>b\<close> to \<open>b'\<close>; the process reads the
  answer, prints \<open>ls\<close> and exits with \<open>code\<close>.
\<close>

definition answering :: "Frame \<Rightarrow> string \<Rightarrow> Link result" where
  "answering answer addr = Inr \<lparr>lk_out = \<lparr>w_out = [], w_room = None\<rparr>, lk_in = wire_Frame answer, lk_closed = False\<rparr>"

definition session :: "nat \<Rightarrow> (u64 \<Rightarrow> string) \<Rightarrow> string \<Rightarrow> string list \<Rightarrow> int \<Rightarrow> Broker \<Rightarrow> int \<Rightarrow> line list \<Rightarrow> Broker \<Rightarrow> bool" where
  "session rnd stamp latency argv now b code ls b' \<longleftrightarrow>
     (\<exists>req answer c lk.
        handleConnection_turn now (new_conn\<lparr>cn_in := wire_Frame req\<rparr>) b =
          Some (Inr (new_conn\<lparr>cn_out := \<lparr>w_out = wire_Frame answer, w_room = None\<rparr>\<rparr>), b') \<and>
        cli_main (answering answer) rnd stamp latency argv = \<lparr>x_code = code, x_lines = ls, x_client = Some c\<rparr> \<and>
        cl_conn c = Some lk \<and> w_out (lk_out lk) = wire_Frame req)"

lemma parse_no_flags: "\<not> flag_like s \<Longrightarrow> parse_flags flags (s # args) = Inr (flags, s # args)"
  by (auto simp: flag_like_def)

lemma global_args_split:
  assumes "split_globals argv '':8765'' = Some (addr, cmd # cmdArgs)" and "\<not> flag_like cmd"
  shows "global_args argv = Inr (addr, cmd # cmdArgs)" and "rearrangeArgs argv \<noteq> []"
proof -
  obtain gs where r: "rearrangeArgs argv = gs @ cmd # cmdArgs"
    and gs: "parse_flags [(''addr'', StringFlag '':8765'')] (gs @ cmd # cmdArgs) = parse_flags [(''addr'', StringFlag addr)] (cmd # cmdArgs)"
    using rearranged [OF assms(1)] by (force simp: rearrangeArgs_def)
  show "rearrangeArgs argv \<noteq> []" by (simp add: r)
  show "global_args argv = Inr (addr, cmd # cmdArgs)"
    by (simp only: global_args_def r gs parse_no_flags [OF assms(2)]) (simp add: string_flag_def)
qed

lemma cli_main_command:
  assumes "split_globals argv '':8765'' = Some (addr, cmd # cmdArgs)" and "\<not> flag_like cmd"
    and "dial (normalizeAddr addr '':8765'') = Inr lk"
  shows "cli_main dial rnd stamp latency argv =
    command rnd stamp latency cmd cmdArgs \<lparr>cl_addr = addr, cl_conn = Some lk, cl_reqID = 0\<rparr>"
  using assms(3) unfolding cli_main_def
  by (simp add: global_args_split [OF assms(1,2)] Connect_def NewClient_def gets_def modify_def and_then_def)

text \<open>A command that is one call of the client is the remote call.\<close>

lemma session_call:
  assumes argv: "split_globals argv '':8765'' = Some (addr, cmd # cmdArgs)" "\<not> flag_like cmd"
    and call: "command rnd stamp latency cmd cmdArgs = calls op failed shown"
    and op: "remote op now (NewClient addr) b r b'" and r: "r \<noteq> Inl Panic"
  shows "session rnd stamp latency argv now b (case r of Inl _ \<Rightarrow> 1 | Inr _ \<Rightarrow> 0)
    (case r of Inl err \<Rightarrow> [Stderr (failed @ '': '' @ error_text err)] | Inr a \<Rightarrow> shown a) b'"
proof -
  let ?lk = "\<lparr>lk_out = \<lparr>w_out = [], w_room = None\<rparr>, lk_in = [], lk_closed = False\<rparr>"
  obtain req answer where turn: "handleConnection_turn now (new_conn\<lparr>cn_in := wire_Frame req\<rparr>) b =
      Some (Inr (new_conn\<lparr>cn_out := \<lparr>w_out = wire_Frame answer, w_room = None\<rparr>\<rparr>), b')"
    and run: "op ((NewClient addr)\<lparr>cl_conn := Some (?lk\<lparr>lk_in := wire_Frame answer @ []\<rparr>)\<rparr>) =
      (r, (NewClient addr)\<lparr>cl_conn := Some (?lk\<lparr>lk_out := (lk_out ?lk)\<lparr>w_out := w_out (lk_out ?lk) @ wire_Frame req\<rparr>, lk_in := []\<rparr>),
         cl_reqID := cl_reqID (NewClient addr) + 1\<rparr>)"
    using op unfolding remote_def by (metis Link.select_convs(1,3) Writer.select_convs(2))
  let ?c = "\<lparr>cl_addr = addr, cl_conn = Some \<lparr>lk_out = \<lparr>w_out = [], w_room = None\<rparr>, lk_in = wire_Frame answer, lk_closed = False\<rparr>, cl_reqID = 0\<rparr>"
  have main: "cli_main (answering answer) rnd stamp latency argv = calls op failed shown ?c"
    unfolding call [symmetric] by (rule cli_main_command [OF argv]) (simp add: answering_def)
  have "op ?c = (r, \<lparr>cl_addr = addr, cl_conn = Some \<lparr>lk_out = \<lparr>w_out = wire_Frame req, w_room = None\<rparr>, lk_in = [], lk_closed = False\<rparr>, cl_reqID = 1\<rparr>)"
    using run by (simp add: NewClient_def)
  with main turn r show ?thesis
    unfolding session_def
    by (intro exI [of _ req] exI [of _ answer])
      (cases r; simp add: calls_def exits_def Client_Close_def gets_def modify_def and_then_def)
qed

section \<open>Flags with numbers\<close>

lemma decimal_plain: "CHR ''_'' \<notin> set (decimal n)" "CHR ''+'' \<notin> set (decimal n)" "CHR ''-'' \<notin> set (decimal n)"
  using decimal_digits [of n] by (auto simp: list_all_iff is_digit_def)

lemma digit_code: "d < 10 \<Longrightarrow> (of_char (digit d) :: nat) = 48 + d"
  by (simp add: digit_def)

lemma digit_not:
  assumes "d < 10"
  shows "digit d \<noteq> CHR ''_''" and "0 < d \<Longrightarrow> digit d \<noteq> CHR ''0''"
proof -
  have "(of_char (CHR ''_'') :: nat) = 95" "(of_char (CHR ''0'') :: nat) = 48" by simp_all
  then show "digit d \<noteq> CHR ''_''" "0 < d \<Longrightarrow> digit d \<noteq> CHR ''0''"
    using digit_code [OF assms] assms by fastforce+
qed

lemma digit_in_digit: "d < 10 \<Longrightarrow> digit_in 10 (digit d) = Some d"
  by (simp add: digit_in_def digit_def is_digit_def Let_def)

lemma parse_decimal: "n < 2 ^ 64 \<Longrightarrow> parse_digits 10 (decimal n @ cs) 0 = parse_digits 10 cs n"
proof (induction n arbitrary: cs rule: decimal.induct)
  case (1 n)
  show ?case
  proof (cases "n < 10")
    case True
    then show ?thesis using 1(2) by (subst decimal.simps) (simp add: digit_in_digit digit_not)
  next
    case False
    then have "parse_digits 10 (decimal (n div 10) @ (digit (n mod 10) # cs)) 0 = parse_digits 10 (digit (n mod 10) # cs) (n div 10)"
      using 1 by (intro 1(1)) auto
    with False show ?thesis using 1(2) by (subst decimal.simps) (simp add: digit_in_digit digit_not)
  qed
qed

lemma decimal_head: "0 < n \<Longrightarrow> hd (decimal n) \<noteq> CHR ''0''"
proof (induction n rule: decimal.induct)
  case (1 n)
  show ?case
  proof (cases "n < 10")
    case True
    then show ?thesis using 1(2) digit_not(2) [of n] by (subst decimal.simps) simp
  next
    case False
    then have "hd (decimal (n div 10)) \<noteq> CHR ''0''" by (intro 1(1)) auto
    then show ?thesis using False decimal_digits [of "n div 10"] by (subst decimal.simps) simp
  qed
qed

lemma ParseInt0_decimal:
  assumes "n < 2 ^ 63"
  shows "ParseInt0 (decimal n) = Some (int n)"
proof -
  have ne: "decimal n \<noteq> []" using decimal_digits [of n] by simp
  have sign: "hd (decimal n) \<noteq> CHR ''+''" "hd (decimal n) \<noteq> CHR ''-''"
    using decimal_plain [of n] ne by (metis hd_in_set)+
  have "ParseUint0 (decimal n) = Some n"
  proof (cases "n = 0")
    case True
    have "decimal 0 = ''0''" "ParseUint0 ''0'' = Some 0" by code_simp+
    with True show ?thesis by simp
  next
    case False
    then have "base_prefix (decimal n) = (10, decimal n, CHR ''^'')" using decimal_head [of n] by (simp add: base_prefix_def)
    then show ?thesis using parse_decimal [of n "[]"] assms ne decimal_plain(1) [of n] by (simp add: ParseUint0_def)
  qed
  then show ?thesis using assms ne sign by (simp add: ParseInt0_def)
qed

section \<open>One request or none\<close>


















section \<open>Publishing and fetching\<close>

text \<open>A flag with its value in the next argument, as \<^verbatim>\<open>-key k\<close>.\<close>

lemma parse_key: "parse_flags [(''key'', StringFlag u)] (''-key'' # v # args) = parse_flags [(''key'', StringFlag v)] args"
  by (simp add: flag_name_def set_flag_def)

lemma parse_fetch:
  assumes "n < 2 ^ 63"
  shows "parse_flags fetch_flags (''-consumer'' # consumer # ''-max'' # decimal n # args) =
    parse_flags [(''consumer'', StringFlag consumer), (''max'', IntFlag (int n)), (''ack-timeout'', IntFlag 30000), (''poll-timeout'', IntFlag 0)] args"
  by (simp add: flag_name_def set_flag_def fetch_flags_def ParseInt0_decimal [OF assms])

lemma command_produce:
  assumes "\<not> flag_like topic"
  shows "command rnd stamp latency ''produce'' [''-key'', key, topic, msg] =
    calls (Client_Produce topic (bytes_of key) (bytes_of msg)) ''Error producing message''
      (\<lambda>offset. [Stdout (''Message produced successfully! Offset: '' @ decimal (unat offset))])"
  by (rule ext) (simp only: command_def, simp add: cmd_produce_def with_flags_def parse_key parse_no_flags [OF assms] string_flag_def del: parse_flags.simps)

lemma command_fetch:
  assumes "\<not> flag_like topic" and "consumer \<noteq> []" and "n < 2 ^ 63"
  shows "command rnd stamp latency ''fetch'' [''-consumer'', consumer, ''-max'', decimal n, topic, grp] =
    calls (Client_Fetch \<lparr>fq_Topic = topic, fq_Group = grp, fq_ConsumerID = consumer, fq_MaxMessages = of_nat n,
      fq_AckTimeoutMs = 30000, fq_LongPollTimeoutMs = 0\<rparr>) ''Error fetching messages'' (show_messages stamp consumer)"
  using assms(2)
  by (intro ext) (simp only: command_def, simp add: cmd_fetch_def with_flags_def parse_fetch [OF assms(3)] parse_no_flags [OF assms(1)]
      fetch_request_def string_flag_def int_flag_def Let_def del: parse_flags.simps)

section \<open>Properties\<close>

text \<open>
  C6: end to end, from one terminal to the other: \<^verbatim>\<open>produce -key K TOPIC MESSAGE\<close> prints the offset
  at the end of the log and exits with 0, and \<^verbatim>\<open>fetch -consumer C -max N TOPIC GROUP\<close> of a group that
  has read everything before prints that one message, with its offset, its time, the key and the text.
\<close>

theorem published_then_printed:
  assumes "map_of (b_topics b) topic = Some t" and "\<not> t_mu t" and "nobody_waits t"
    and "map_of (t_groups t) grp = Some g" and "log_ok b0 es (t_wal t)" and "script (t_wal t) = []"
    and "group_ok g" and "b0 \<le> committed g" and "window_end g = b0 + length es"
    and "\<forall>off l. map_of (g_Leases g) off = Some l \<longrightarrow> \<not> is_expired now' l"
    and "split_globals argv1 '':8765'' = Some (addr1, [''produce'', ''-key'', key, topic, msg])"
    and "split_globals argv2 '':8765'' = Some (addr2, [''fetch'', ''-consumer'', consumer, ''-max'', decimal n, topic, grp])"
    and "\<not> flag_like topic" and "consumer \<noteq> []" and "0 < n" and "n < 2 ^ 32" and "b0 + length es + 1 < 2 ^ 64"
    and "length topic < 2 ^ 16" and "length grp < 2 ^ 16" and "length consumer < 2 ^ 16"
    and "2 ^ 17 + length key + length msg < 2 ^ 32" and "length (enc_log es) + (29 + length key + length msg) < 2 ^ 63"
  shows "\<exists>b1 b2.
    session rnd stamp latency argv1 now b 0
      [Stdout (''Message produced successfully! Offset: '' @ decimal (b0 + length es))] b1 \<and>
    session rnd stamp latency argv2 now' b1 0
      [Stdout (''Fetched 1 message(s) (Consumer ID: '' @ consumer @ ''):''), Stdout [],
       Stdout (''--- Message '' @ decimal (b0 + length es) @ '' ---''),
       Stdout (''  Offset:    '' @ decimal (b0 + length es)),
       Stdout (''  Timestamp: '' @ stamp (of_int now)),
       Stdout (''  Key:       '' @ (if key = [] then ''<empty>'' else key)),
       Stdout (''  Value:     '' @ msg), Stdout []] b2"
proof -
  let ?req = "\<lparr>fq_Topic = topic, fq_Group = grp, fq_ConsumerID = consumer, fq_MaxMessages = of_nat n,
      fq_AckTimeoutMs = 30000, fq_LongPollTimeoutMs = 0\<rparr>" and ?N = "b0 + length es"
  let ?m = "\<lparr>m_Offset = of_nat ?N, m_Timestamp = of_int now, m_Key = bytes_of key, m_Value = bytes_of msg\<rparr>"
  have n: "0 < fq_MaxMessages ?req" using assms(15,16) unat_of_nat_u32 [of n] by (simp add: word_less_nat_alt)
  obtain b1 b2 where b: "remote (Client_Produce topic (bytes_of key) (bytes_of msg)) now (NewClient addr1) b (Inr (of_nat ?N)) b1"
    "remote (Client_Fetch ?req) now' (NewClient addr2) b1 (Inr [?m]) b2"
    using publish_then_fetch [of b ?req t g b0 es now' "bytes_of key" "bytes_of msg" now "NewClient addr1" "NewClient addr2"]
      assms(1-10,17-22) n by auto
  have off: "unat (of_nat ?N :: u64) = ?N" using assms(17) by (intro unat_of_nat_u64) simp
  have k: "n < 2 ^ 63" using assms(16) by simp
  have flags: "\<not> flag_like ''produce''" "\<not> flag_like ''fetch''" by (simp_all add: flag_like_def)
  have "decimal 1 = ''1''" by code_simp
  then have shown: "show_messages stamp consumer [?m] =
      [Stdout (''Fetched 1 message(s) (Consumer ID: '' @ consumer @ ''):''), Stdout [],
       Stdout (''--- Message '' @ decimal ?N @ '' ---''), Stdout (''  Offset:    '' @ decimal ?N),
       Stdout (''  Timestamp: '' @ stamp (of_int now)), Stdout (''  Key:       '' @ (if key = [] then ''<empty>'' else key)),
       Stdout (''  Value:     '' @ msg), Stdout []]"
    using off by (simp add: show_messages_def show_message_def del: of_nat_add)
  have "session rnd stamp latency argv1 now b 0 [Stdout (''Message produced successfully! Offset: '' @ decimal ?N)] b1"
    using session_call [OF assms(11) flags(1) command_produce [OF assms(13)] b(1) sum.distinct(2)] by (simp only: sum.case off)
  moreover have "session rnd stamp latency argv2 now' b1 0 (show_messages stamp consumer [?m]) b2"
    using session_call [OF assms(12) flags(2) command_fetch [OF assms(13,14) k] b(2) sum.distinct(2)] by (simp only: sum.case)
  ultimately show ?thesis unfolding shown by blast
qed

theorem published_then_printed_witness:
  "\<exists>b1 b2.
    session 7 (\<lambda>_. ''now'') ''0s'' [''produce'', ''-key'', ''k'', ''t'', ''hello''] 70 idle_broker 0
      [Stdout ''Message produced successfully! Offset: 1''] b1 \<and>
    session 7 (\<lambda>_. ''now'') ''0s'' [''fetch'', ''-addr'', ''b:2'', ''-consumer'', ''c'', ''-max'', ''5'', ''t'', ''g''] 100 b1 0
      [Stdout ''Fetched 1 message(s) (Consumer ID: c):'', Stdout [], Stdout ''--- Message 1 ---'', Stdout ''  Offset:    1'',
       Stdout ''  Timestamp: now'', Stdout ''  Key:       k'', Stdout ''  Value:     hello'', Stdout []] b2"
proof -
  let ?t = "sample_topic\<lparr>t_groups := [(''g'', idle_group)]\<rparr>"
  have t: "map_of (b_topics idle_broker) ''t'' = Some ?t" "\<not> t_mu ?t" "nobody_waits ?t" "map_of (t_groups ?t) ''g'' = Some idle_group"
    "log_ok 0 [sample_entry] (t_wal ?t)" "script (t_wal ?t) = []"
    by (simp_all add: idle_broker_def sample_log_ok sample_broker_def sample_topic_def world.defs nobody_waits_def pending_of_def)
  have g: "group_ok idle_group" "0 \<le> committed idle_group" "window_end idle_group = 0 + length [sample_entry]"
    "\<forall>off l. map_of (g_Leases idle_group) off = Some l \<longrightarrow> \<not> is_expired 100 l"
    by (simp_all add: idle_group_def)
  have d: "decimal 5 = ''5''" "decimal (Suc 0) = ''1''" by code_simp+
  have s: "split_globals [''produce'', ''-key'', ''k'', ''t'', ''hello''] '':8765'' =
      Some ('':8765'', [''produce'', ''-key'', ''k'', ''t'', ''hello''])"
    "split_globals [''fetch'', ''-addr'', ''b:2'', ''-consumer'', ''c'', ''-max'', ''5'', ''t'', ''g''] '':8765'' =
      Some (''b:2'', [''fetch'', ''-consumer'', ''c'', ''-max'', decimal 5, ''t'', ''g''])"
    by (simp_all add: HasPrefix_def d)
  show ?thesis
    using published_then_printed [OF t g s, of 7 "\<lambda>_. ''now''" "''0s''" 70]
    by (simp add: flag_like_def length_enc sample_entry_def d)
qed



end
