(* ===== verification/Spec2Isabelle.thy ===== *)
theory Spec2Isabelle
  imports Codec Wal_Torn Broker_Nack Client_Addr Cli_Runs
begin

text \<open>
  A verification development for the message broker Tumbleweed: a daemon that keeps topics,
  each an append-only log on disk, and hands their messages to consumer groups under leases.

  \<^bold>\<open>The program.\<close> A client (\<^verbatim>\<open>pkg/client\<close>, used by \<^verbatim>\<open>cmd/tumbleweed-cli\<close>) writes one request frame
  and reads one response frame (\<^verbatim>\<open>pkg/protocol\<close>). The server (\<^verbatim>\<open>pkg/server\<close>) runs a loop for every
  connection and calls the broker (\<^verbatim>\<open>pkg/broker\<close>), which appends to and reads from the
  write-ahead log of the topic (\<^verbatim>\<open>pkg/wal\<close>) and keeps, for every consumer group, the committed
  offset and a window of leases behind it. \<^verbatim>\<open>cmd/tumbleweed\<close> makes the configuration
  (\<^verbatim>\<open>pkg/config\<close>) from its flags, starts broker and server, and stops them on a signal.

  \<^bold>\<open>Model.\<close> Every function of the source is a definition of the same name; a method that
  clashes with another or with HOL has a prefix (\<open>Client_Ack\<close>, \<open>Broker_Close\<close>).
  Code with effects is a program of the type \<open>prog\<close> (theory \<open>Prelude\<close>): a function from a
  state to a result, an error or a value, and the state behind it. A loop that need not end,
  or a call that need not return, gives an option; \<open>None\<close> says that it does not. There is no fuel:
  such loops are \<open>partial_function (option)\<close>, and that they return is proved. Integers have
  the width they have in the source where it shows (offsets, lengths, counters of frames), and
  products of \<^verbatim>\<open>time.Duration\<close> wrap at 64 bits.
  The outcomes of system calls are a script in the state of the disk: each call takes the next
  entry, so a theorem about every script is one about every pattern of faults; a script that
  is used up stands for calls that succeed. The clock is an argument of the operation that
  reads it.

    \<^item> \<open>Prelude\<close>, \<open>Disk\<close>: errors, programs and their rules; byte buffers with the bounds Go checks;
      files, handles and system calls with their faults.
    \<^item> \<open>Protocol\<close>, \<open>Codec\<close>: \<^verbatim>\<open>protocol.go\<close>. The locale \<open>codec\<close> says what a pair of \<^verbatim>\<open>Marshal\<close> and
      \<^verbatim>\<open>Unmarshal\<close> promises about a wire format; all nine bodies are interpretations.
    \<^item> \<open>Crc32\<close>, \<open>Wal\<close>, \<open>Wal_Log\<close>, \<open>Wal_Read\<close>, \<open>Wal_Recover\<close>: \<^verbatim>\<open>wal.go\<close>. The invariant \<open>log_ok b es w\<close>
      says that the state and the files of \<open>w\<close> hold exactly the records \<open>es\<close> from offset \<open>b\<close> on;
      append, roll, read and recovery are proved against it, under any faults.
    \<^item> \<open>Config\<close>, \<open>Broker\<close>: \<^verbatim>\<open>config.go\<close> and \<^verbatim>\<open>coordinator.go\<close>. \<open>Leases\<close> and \<open>Broker_Fetch\<close> prove the loops of
      \<^verbatim>\<open>fetchAvailable\<close>. \<open>Lease_Machine\<close> is the abstract specification of a group, a machine whose
      events are a lease, a redelivery, a return, a settlement and a commit; \<open>Broker_Effects\<close>, \<open>Broker_Groups\<close>,
      \<open>Broker_Delivery\<close> and \<open>Broker_Ops\<close> show that every operation is a run of it, and
      \<open>Broker_Runs\<close> and \<open>Broker_Ack\<close> draw the conclusions for all runs of the broker from
      \<^verbatim>\<open>NewBroker\<close> on. \<open>Broker_Produce\<close> and \<open>Broker_Nack\<close> give the exact outcome of the calls.
    \<^item> \<open>Server\<close>, \<open>Server_Runs\<close>: \<^verbatim>\<open>server.go\<close>, with the answer to each frame, the loop of a connection, and
      the step relation of the whole server, whose runs include those of the broker.
    \<^item> \<open>Client\<close>, \<open>Client_Calls\<close>, \<open>Client_Addr\<close>: \<^verbatim>\<open>client.go\<close>; a call over a connection is the call of the broker,
      and what address is dialled.
    \<^item> \<open>Daemon\<close>, \<open>Cli\<close>, \<open>Cli_Args\<close>: the two \<^verbatim>\<open>main.go\<close>, start and shutdown of the daemon, and the command
      line.

  \<^bold>\<open>Interleaving.\<close> An operation of the broker runs while other goroutines stand still, except
  where it blocks: a long poll is cut into the steps between which others run
  (\<open>Fetch\<close>, \<open>Fetch_receive\<close>, \<open>Fetch_timeout\<close>). The mutex of a topic is part of the state, so an
  operation that locks it twice is seen not to return. The mutexes of the broker and of the
  groups, and finer interleavings (the opposite lock orders of \<^verbatim>\<open>Nack\<close> and \<^verbatim>\<open>dispatchMessage\<close>), are not
  modelled.

  \<^bold>\<open>Not modelled.\<close> Log output and the banner; the latency \<^verbatim>\<open>Ping\<close> measures; \<^verbatim>\<open>Addr\<close> of the server; what a
  power failure leaves of writes that were not synced (the state keeps the synced bytes of every
  file, no theorem is about them yet). Of JSON only what the state files need: a
  document with the committed offset is a value, a damaged one is not.
\<close>

end
